(* ===== verification/Prelude.thy ===== *)
theory Prelude
  imports Main "HOL-Library.Word" "HOL-Library.Monad_Syntax"
begin

text \<open>
  Shared vocabulary of the development: the machine-integer types, the
  fallible results of the Rust code, the hint collections, and the generic
  lemmas on words, lists and results that several components use.

  Fallible Rust code (\<open>Result\<close>, the \<open>?\<close> operator) is a sum whose left side is
  the error; \<open>and_then\<close> is the propagation of \<open>?\<close>.  \<open>Option\<close> is HOL's
  \<open>option\<close> with the \<open>do\<close> notation of \<open>Monad_Syntax\<close>.
\<close>

section \<open>Machine integers and byte strings\<close>

type_synonym u8 = "8 word"
type_synonym u32 = "32 word"
type_synonym u64 = "64 word"
type_synonym bytes = "u8 list"

text \<open>Facts that unfold a decoder's success, and facts that give a round trip.\<close>

named_theorems roundtrip "a decoder recovers what its encoder wrote"
named_theorems ok_elim "what the success of a fallible operation means"
named_theorems sat_arith "saturating arithmetic read on natural numbers"

section \<open>Results\<close>

definition and_then :: "'e + 'a \<Rightarrow> ('a \<Rightarrow> 'e + 'b) \<Rightarrow> 'e + 'b" where
  "and_then m f = (case m of Inl e \<Rightarrow> Inl e | Inr a \<Rightarrow> f a)"

lemma and_then_simps [simp]:
  "and_then (Inl e) f = Inl e"
  "and_then (Inr a) f = f a"
  by (simp_all add: and_then_def)

lemma and_then_Inr_iff [ok_elim]:
  "and_then m f = Inr b \<longleftrightarrow> (\<exists>a. m = Inr a \<and> f a = Inr b)"
  by (cases m) simp_all

lemma and_then_assoc:
  "and_then (and_then m f) g = and_then m (\<lambda>a. and_then (f a) g)"
  by (cases m) simp_all

lemma and_then_cong [fundef_cong]:
  "m = m' \<Longrightarrow> (\<And>a. m' = Inr a \<Longrightarrow> f a = f' a) \<Longrightarrow> and_then m f = and_then m' f'"
  by (cases m') simp_all

text \<open>Collecting an iterator of results: the first error stops the iteration.\<close>

fun collect_results :: "('a \<Rightarrow> 'e + 'b) \<Rightarrow> 'a list \<Rightarrow> 'e + 'b list" where
  "collect_results f [] = Inr []"
| "collect_results f (x # xs) =
     and_then (f x) (\<lambda>y. and_then (collect_results f xs) (\<lambda>ys. Inr (y # ys)))"

lemma collect_results_cong [fundef_cong]:
  "xs = ys \<Longrightarrow> (\<And>x. x \<in> set ys \<Longrightarrow> f x = g x) \<Longrightarrow> collect_results f xs = collect_results g ys"
  by (induction ys arbitrary: xs) (auto intro!: and_then_cong)

lemma collect_results_map:
  assumes "\<And>x. x \<in> set xs \<Longrightarrow> f (g x) = Inr (h x)"
  shows "collect_results f (map g xs) = Inr (map h xs)"
  using assms by (induction xs) simp_all

lemma collect_results_id:
  assumes "\<And>x. x \<in> set xs \<Longrightarrow> f (g x) = Inr x"
  shows "collect_results f (map g xs) = Inr xs"
  using collect_results_map [of xs f g "\<lambda>x. x"] assms by simp

section \<open>Saturating arithmetic\<close>

definition sat_add :: "'a::len word \<Rightarrow> 'a word \<Rightarrow> 'a word" where
  "sat_add a b = (if unat a + unat b < 2 ^ LENGTH('a) then a + b else - 1)"

definition sat_sub :: "'a::len word \<Rightarrow> 'a word \<Rightarrow> 'a word" where
  "sat_sub a b = (if b \<le> a then a - b else 0)"

lemma unat_max_word: "unat (- 1 :: 'a::len word) = 2 ^ LENGTH('a) - 1"
  by (simp add: unsigned_minus_1_eq_mask mask_eq_exp_minus_1)

lemma unat_sat_add [sat_arith]:
  "unat (sat_add a b :: 'a::len word) = min (unat a + unat b) (2 ^ LENGTH('a) - 1)"
  by (auto simp: sat_add_def unat_max_word unat_word_ariths)

lemma unat_sat_sub [sat_arith]: "unat (sat_sub a b) = unat a - unat b"
  by (auto simp: sat_sub_def unat_sub word_le_nat_alt)

lemma word_eq_unat: "a = b \<longleftrightarrow> unat a = unat (b :: 'a::len word)"
  by (auto dest: word_unat_eq_iff [THEN iffD2])

lemma unat_le_max: "unat (a :: 'a::len word) \<le> 2 ^ LENGTH('a) - 1"
proof -
  have "unat a < 2 ^ LENGTH('a)" by (rule unsigned_less)
  then show ?thesis by linarith
qed

lemma sat_add_0 [simp]: "sat_add a 0 = a" "sat_add 0 a = a"
  using unat_le_max [of a] by (simp_all add: word_eq_unat sat_arith)

lemma sat_add_commute: "sat_add a b = sat_add b (a :: 'a::len word)"
  by (simp add: word_eq_unat sat_arith add.commute)

lemma sat_add_assoc: "sat_add (sat_add a b) c = sat_add a (sat_add b (c :: 'a::len word))"
  by (simp add: word_eq_unat sat_arith)

lemma sat_add_left_commute: "sat_add a (sat_add b c) = sat_add b (sat_add a (c :: 'a::len word))"
  by (simp add: word_eq_unat sat_arith)

lemmas sat_add_ac = sat_add_assoc sat_add_commute sat_add_left_commute

lemma sat_add_max [simp]:
  "sat_add (- 1) b = (- 1 :: 'a::len word)"
  "sat_add b (- 1) = (- 1 :: 'a::len word)"
  by (simp_all add: word_eq_unat sat_arith unat_max_word)

section \<open>Indices\<close>

text \<open>A machine index is bumped without overflow as long as it is below the top.\<close>

lemma unat_Suc_word: "Suc (unat (c :: 'a::len word)) < 2 ^ LENGTH('a) \<Longrightarrow> unat (c + 1) = Suc (unat c)"
  by (simp add: unat_word_ariths)

lemma unat_add2_word:
  assumes "unat (c :: u32) + 2 < 2 ^ 32"
  shows "unat (c + 2) = unat c + 2"
  using assms by (simp add: unat_word_ariths)

text \<open>\<open>Vec::get\<close> and Rust's checked indexing.\<close>

definition get_nth :: "'a list \<Rightarrow> nat \<Rightarrow> 'a option" where
  "get_nth xs i = (if i < length xs then Some (xs ! i) else None)"

lemma get_nth_simps [simp]:
  "get_nth [] i = None"
  "get_nth (x # xs) 0 = Some x"
  "get_nth (x # xs) (Suc i) = get_nth xs i"
  by (simp_all add: get_nth_def)

lemma get_nth_Some: "get_nth xs i = Some x \<longleftrightarrow> i < length xs \<and> xs ! i = x"
  by (auto simp: get_nth_def)

lemma get_nth_None: "get_nth xs i = None \<longleftrightarrow> length xs \<le> i"
  by (auto simp: get_nth_def)

lemma get_nth_append:
  "get_nth (xs @ ys) i = (if i < length xs then get_nth xs i else get_nth ys (i - length xs))"
  by (auto simp: get_nth_def nth_append)

text \<open>\<open>iter().position(p)\<close>.\<close>

fun position :: "('a \<Rightarrow> bool) \<Rightarrow> 'a list \<Rightarrow> nat option" where
  "position p [] = None"
| "position p (x # xs) = (if p x then Some 0 else map_option Suc (position p xs))"

lemma position_Some:
  "position p xs = Some i \<Longrightarrow> i < length xs \<and> p (xs ! i) \<and> (\<forall>j < i. \<not> p (xs ! j))"
proof (induction xs arbitrary: i)
  case Nil
  then show ?case by simp
next
  case (Cons x xs)
  show ?case
  proof (cases "p x")
    case True
    with Cons.prems show ?thesis by simp
  next
    case False
    with Cons.prems obtain j where j: "position p xs = Some j" "i = Suc j" by auto
    with Cons.IH [OF j(1)] False show ?thesis
      by (auto simp: less_Suc_eq_0_disj)
  qed
qed

lemma position_None: "position p xs = None \<longleftrightarrow> (\<forall>x \<in> set xs. \<not> p x)"
  by (induction xs) auto

section \<open>Decimal and hexadecimal rendering\<close>

definition digit_char :: "nat \<Rightarrow> char" where
  "digit_char d = ''0123456789abcdef'' ! (d mod 16)"

fun show_nat :: "nat \<Rightarrow> string" where
  "show_nat n = (if n < 10 then [digit_char n] else show_nat (n div 10) @ [digit_char (n mod 10)])"

declare show_nat.simps [simp del]

text \<open>Rust's \<open>{:02x}\<close> on a byte.\<close>

definition hex2 :: "u8 \<Rightarrow> string" where
  "hex2 b = [digit_char (unat b div 16), digit_char (unat b mod 16)]"

end
