(* ===== verification/Syntax.thy ===== *)
theory Syntax
  imports Prelude
begin

text \<open>
  The abstract syntax of the calculus (\<open>crates/dlc-core/src\<close>: \<open>principal.rs\<close>,
  \<open>ifc.rs\<close>, \<open>time.rs\<close>, \<open>obligation.rs\<close>, \<open>syntax.rs\<close>, \<open>judgment.rs\<close>).
  Boxes disappear, every \<open>u8\<close>, \<open>u32\<close>, \<open>u64\<close> keeps its width, \<open>Vec<u8>\<close> and \<open>[u8; N]\<close> are
  byte lists; that an array has its length is the predicate \<open>wf_*\<close>, which
  every Rust value satisfies by its type.  Constructor names that two types
  share, or that HOL uses, carry a suffix.
\<close>

section \<open>Principals\<close>

datatype principal_id = PrincipalId (pid_bytes: bytes)

datatype principal =
    Atom_p principal_id
  | And_p principal principal
  | Or_p principal principal
  | Acting principal principal

record key_record =
  kr_principal :: principal_id
  kr_alg :: u8
  public_key :: bytes

record key_ring =
  entries :: "key_record list"

section \<open>Labels\<close>

datatype label = Label (caps: "u32 list")

definition label_bottom :: label where
  "label_bottom = Label []"

text \<open>\<open>sort\<close> and then \<open>dedup\<close>, which drops equal neighbours.\<close>

definition label_join :: "label \<Rightarrow> label \<Rightarrow> label" where
  "label_join l1 l2 = Label (remdups_adj (sort (caps l1 @ caps l2)))"

text \<open>What the documentation calls a label: a strictly sorted vector.\<close>

definition wf_label :: "label \<Rightarrow> bool" where
  "wf_label l \<longleftrightarrow> sorted (caps l) \<and> distinct (caps l)"

lemma sorted_remdups_adj_distinct: "sorted xs \<Longrightarrow> distinct (remdups_adj xs)"
  by (induction xs rule: remdups_adj.induct) (auto simp: antisym)

lemma sorted_remdups_adj': "sorted xs \<Longrightarrow> sorted (remdups_adj (xs :: 'a::linorder list))"
  by (induction xs rule: remdups_adj.induct) auto

lemma caps_label_join: "set (caps (label_join l1 l2)) = set (caps l1) \<union> set (caps l2)"
  by (simp add: label_join_def)

lemma wf_label_join: "wf_label (label_join l1 l2)"
  by (simp add: wf_label_def label_join_def sorted_remdups_adj_distinct sorted_remdups_adj')

lemma wf_label_eqI:
  assumes "wf_label l1" "wf_label l2" "set (caps l1) = set (caps l2)"
  shows "l1 = l2"
  using assms sorted_distinct_set_unique [of "caps l1" "caps l2"]
  by (simp add: wf_label_def label.expand)

lemma label_join_eqI:
  assumes "set (caps l1) \<union> set (caps l2) = set (caps l3) \<union> set (caps l4)"
  shows "label_join l1 l2 = label_join l3 l4"
  by (rule wf_label_eqI) (simp_all add: wf_label_join caps_label_join assms)

section \<open>Time bounds and obligations\<close>

record time_bound =
  epoch_ms :: u64

record dp_budget =
  epsilon_micros :: u64
  delta_micros :: u64

datatype action_id = ActionId (action_bytes: bytes)

datatype obligation =
    Top_o
  | Bot_o
  | ActOf principal action_id
  | Within_o time_bound
  | Tensor_o obligation obligation
  | Lolli_o obligation obligation
  | DpBudget_o dp_budget

section \<open>Propositions\<close>

datatype dprop =
    Top
  | Bot
  | Atom u32
  | Imp dprop dprop
  | And dprop dprop
  | Or dprop dprop
  | Says principal dprop
  | SpeaksFor principal principal
  | At dprop label
  | Boxed obligation dprop
  | Within time_bound dprop
  | Tensor dprop dprop
  | Lolli dprop dprop
  | Replicated dprop label

section \<open>Signatures and proof terms\<close>

record signature =
  sig_alg :: u8
  sig_bytes :: bytes

datatype trm =
    Var u32
  | Lam dprop trm
  | App trm trm
  | Sign principal trm signature
  | Verify principal trm signature
  | Delegate trm trm
  | Attenuate trm dprop
  | SaysBind principal trm trm
  | Boxed_t obligation trm trm
  | Discharge trm trm
  | LiftLabel label trm
  | Declassify label trm trm
  | Now time_bound
  | WithinIntro time_bound trm
  | Pair_t trm trm
  | Fst trm
  | Snd trm
  | Inl_t dprop trm
  | Inr_t dprop trm
  | Case trm trm trm
  | TensorIntro trm trm
  | LetTensor trm trm
  | LetSays principal trm trm
  | SfExtract trm
  | Command trm trm label
  | RunCmd trm trm

section \<open>Contexts and typing problems\<close>

record ctx =
  additive :: "dprop list"
  linear :: "dprop list"

definition ctx_empty :: ctx where
  "ctx_empty = \<lparr>additive = [], linear = []\<rparr>"

definition cons_a :: "ctx \<Rightarrow> dprop \<Rightarrow> ctx" where
  "cons_a \<Gamma> \<phi> = \<Gamma>\<lparr>additive := [\<phi>] @ additive \<Gamma>\<rparr>"

definition cons_l :: "ctx \<Rightarrow> dprop \<Rightarrow> ctx" where
  "cons_l \<Gamma> \<phi> = \<Gamma>\<lparr>linear := [\<phi>] @ linear \<Gamma>\<rparr>"

record typing_problem =
  tp_ctx :: ctx
  tp_term :: trm
  tp_prop :: dprop

text \<open>The names of the typing rules, an index for reports; no code path reads it.\<close>

datatype rule_name =
    VarA_r | VarL_r | WeakenA_r | ImpI_r | ImpE_r | AndI_r | AndEL_r | AndER_r | SaysI_r
  | SaysE_r | Delegate_r | Attenuate_r | Lift_r | AppIFC_r | Declassify_r | BoxI_r | Discharge_r
  | Now_r | WithinI_r | WithinE_r | Verify_r | OrI_r | OrE_r | TensorI_r | TensorE_r | LolliI_r
  | LolliE_r | LetTensor_r | SaysExtract_r | SfExtract_r | CommitI_r | RunCmd_r

text \<open>The record of a discharged obligation; its seal is the privacy of the constructor.\<close>

record discharged =
  obl :: obligation

definition new_sealed :: "obligation \<Rightarrow> discharged" where
  "new_sealed ob = \<lparr>obl = ob\<rparr>"

lemma cons_a_simps [simp]:
  "additive (cons_a \<Gamma> \<phi>) = \<phi> # additive \<Gamma>"
  "linear (cons_a \<Gamma> \<phi>) = linear \<Gamma>"
  by (simp_all add: cons_a_def)

lemma cons_l_simps [simp]:
  "additive (cons_l \<Gamma> \<phi>) = additive \<Gamma>"
  "linear (cons_l \<Gamma> \<phi>) = \<phi> # linear \<Gamma>"
  by (simp_all add: cons_l_def)

lemma ctx_eqI: "additive \<Gamma> = additive \<Delta> \<Longrightarrow> linear \<Gamma> = linear \<Delta> \<Longrightarrow> \<Gamma> = (\<Delta> :: ctx)"
  by simp

section \<open>The types of the Rust code as predicates\<close>

text \<open>A \<open>PrincipalId\<close> holds a \<open>[u8; 32]\<close>; everything else is unconstrained.\<close>

definition wf_pid :: "principal_id \<Rightarrow> bool" where
  "wf_pid p \<longleftrightarrow> length (pid_bytes p) = 32"

primrec wf_principal :: "principal \<Rightarrow> bool" where
  "wf_principal (Atom_p i) \<longleftrightarrow> wf_pid i"
| "wf_principal (And_p a b) \<longleftrightarrow> wf_principal a \<and> wf_principal b"
| "wf_principal (Or_p a b) \<longleftrightarrow> wf_principal a \<and> wf_principal b"
| "wf_principal (Acting a b) \<longleftrightarrow> wf_principal a \<and> wf_principal b"

primrec wf_obligation :: "obligation \<Rightarrow> bool" where
  "wf_obligation Top_o \<longleftrightarrow> True"
| "wf_obligation Bot_o \<longleftrightarrow> True"
| "wf_obligation (ActOf p a) \<longleftrightarrow> wf_principal p"
| "wf_obligation (Within_o t) \<longleftrightarrow> True"
| "wf_obligation (Tensor_o a b) \<longleftrightarrow> wf_obligation a \<and> wf_obligation b"
| "wf_obligation (Lolli_o a b) \<longleftrightarrow> wf_obligation a \<and> wf_obligation b"
| "wf_obligation (DpBudget_o b) \<longleftrightarrow> True"

primrec wf_prop :: "dprop \<Rightarrow> bool" where
  "wf_prop Top \<longleftrightarrow> True"
| "wf_prop Bot \<longleftrightarrow> True"
| "wf_prop (Atom n) \<longleftrightarrow> True"
| "wf_prop (Imp a b) \<longleftrightarrow> wf_prop a \<and> wf_prop b"
| "wf_prop (And a b) \<longleftrightarrow> wf_prop a \<and> wf_prop b"
| "wf_prop (Or a b) \<longleftrightarrow> wf_prop a \<and> wf_prop b"
| "wf_prop (Says p a) \<longleftrightarrow> wf_principal p \<and> wf_prop a"
| "wf_prop (SpeaksFor p q) \<longleftrightarrow> wf_principal p \<and> wf_principal q"
| "wf_prop (At a l) \<longleftrightarrow> wf_prop a"
| "wf_prop (Boxed ob a) \<longleftrightarrow> wf_obligation ob \<and> wf_prop a"
| "wf_prop (Within t a) \<longleftrightarrow> wf_prop a"
| "wf_prop (Tensor a b) \<longleftrightarrow> wf_prop a \<and> wf_prop b"
| "wf_prop (Lolli a b) \<longleftrightarrow> wf_prop a \<and> wf_prop b"
| "wf_prop (Replicated a l) \<longleftrightarrow> wf_prop a"

primrec wf_trm :: "trm \<Rightarrow> bool" where
  "wf_trm (Var i) \<longleftrightarrow> True"
| "wf_trm (Lam p b) \<longleftrightarrow> wf_prop p \<and> wf_trm b"
| "wf_trm (App f x) \<longleftrightarrow> wf_trm f \<and> wf_trm x"
| "wf_trm (Sign p m s) \<longleftrightarrow> wf_principal p \<and> wf_trm m"
| "wf_trm (Verify p m s) \<longleftrightarrow> wf_principal p \<and> wf_trm m"
| "wf_trm (Delegate m n) \<longleftrightarrow> wf_trm m \<and> wf_trm n"
| "wf_trm (Attenuate m \<psi>) \<longleftrightarrow> wf_trm m \<and> wf_prop \<psi>"
| "wf_trm (SaysBind p s b) \<longleftrightarrow> wf_principal p \<and> wf_trm s \<and> wf_trm b"
| "wf_trm (Boxed_t ob m n) \<longleftrightarrow> wf_obligation ob \<and> wf_trm m \<and> wf_trm n"
| "wf_trm (Discharge m n) \<longleftrightarrow> wf_trm m \<and> wf_trm n"
| "wf_trm (LiftLabel l m) \<longleftrightarrow> wf_trm m"
| "wf_trm (Declassify l m p) \<longleftrightarrow> wf_trm m \<and> wf_trm p"
| "wf_trm (Now t) \<longleftrightarrow> True"
| "wf_trm (WithinIntro t m) \<longleftrightarrow> wf_trm m"
| "wf_trm (Pair_t a b) \<longleftrightarrow> wf_trm a \<and> wf_trm b"
| "wf_trm (Fst a) \<longleftrightarrow> wf_trm a"
| "wf_trm (Snd a) \<longleftrightarrow> wf_trm a"
| "wf_trm (Inl_t p a) \<longleftrightarrow> wf_prop p \<and> wf_trm a"
| "wf_trm (Inr_t p a) \<longleftrightarrow> wf_prop p \<and> wf_trm a"
| "wf_trm (Case s l r) \<longleftrightarrow> wf_trm s \<and> wf_trm l \<and> wf_trm r"
| "wf_trm (TensorIntro a b) \<longleftrightarrow> wf_trm a \<and> wf_trm b"
| "wf_trm (LetTensor s b) \<longleftrightarrow> wf_trm s \<and> wf_trm b"
| "wf_trm (LetSays p s b) \<longleftrightarrow> wf_principal p \<and> wf_trm s \<and> wf_trm b"
| "wf_trm (SfExtract m) \<longleftrightarrow> wf_trm m"
| "wf_trm (Command m c l) \<longleftrightarrow> wf_trm m \<and> wf_trm c"
| "wf_trm (RunCmd v s) \<longleftrightarrow> wf_trm v \<and> wf_trm s"

end
