(* ===== verification/Cbor.thy ===== *)
theory Cbor
  imports Syntax
begin

text \<open>
  What the wire formats use of CBOR.  \<open>cbor\<close> is the data model of the \<open>Value\<close> type of
  the \<open>ciborium\<close> crate; its writer and reader are parameters of the definitions that
  call them, and \<open>cbor_codec\<close> is what those rely on.  The theory also holds the
  fallible accessors of \<open>crates/dlc-protocol/src/wire.rs\<close>, the contract of an
  encoder-decoder pair as a locale, and a small writer and reader that satisfy
  \<open>cbor_codec\<close>.
\<close>

section \<open>Data items and errors\<close>

datatype cbor =
    CInt int
  | CBytes bytes
  | CText string
  | CArr "cbor list"
  | CMap "(cbor \<times> cbor) list"
  | CTag u64 cbor
  | CBool bool
  | CFloat u64
  | CNull

text \<open>
  \<open>ProtocolError\<close>; \<open>Panicked\<close> is an index out of bounds, which unwinds instead of
  returning an error.
\<close>

datatype protocol_error =
    Cbor string
  | Cose string
  | Panicked

text \<open>\<open>a[i]\<close> on a slice.\<close>

definition field :: "'v list \<Rightarrow> nat \<Rightarrow> ('v \<Rightarrow> protocol_error + 'a) \<Rightarrow> protocol_error + 'a" where
  "field a i dec = (case get_nth a i of Some v \<Rightarrow> dec v | None \<Rightarrow> Inl Panicked)"

text \<open>Constructors applied to fallible fields, left to right.\<close>

definition build1 :: "('a \<Rightarrow> 'r) \<Rightarrow> 'e + 'a \<Rightarrow> 'e + 'r" where
  "build1 c x = and_then x (\<lambda>a. Inr (c a))"

definition build2 :: "('a \<Rightarrow> 'b \<Rightarrow> 'r) \<Rightarrow> 'e + 'a \<Rightarrow> 'e + 'b \<Rightarrow> 'e + 'r" where
  "build2 c x y = and_then x (\<lambda>a. and_then y (\<lambda>b. Inr (c a b)))"

definition build3 :: "('a \<Rightarrow> 'b \<Rightarrow> 'd \<Rightarrow> 'r) \<Rightarrow> 'e + 'a \<Rightarrow> 'e + 'b \<Rightarrow> 'e + 'd \<Rightarrow> 'e + 'r" where
  "build3 c x y z = and_then x (\<lambda>a. and_then y (\<lambda>b. and_then z (\<lambda>d. Inr (c a b d))))"

lemma build_simps [simp]:
  "build1 c1 (Inr a) = Inr (c1 a)"
  "build2 c2 (Inr a) (Inr b) = Inr (c2 a b)"
  "build3 c3 (Inr a) (Inr b) (Inr d) = Inr (c3 a b d)"
  by (simp_all add: build1_def build2_def build3_def)

lemma build_Inr_iff [ok_elim]:
  "build1 c1 x = Inr r \<longleftrightarrow> (\<exists>a. x = Inr a \<and> r = c1 a)"
  "build2 c2 x y = Inr r \<longleftrightarrow> (\<exists>a b. x = Inr a \<and> y = Inr b \<and> r = c2 a b)"
  "build3 c3 x y z = Inr r \<longleftrightarrow> (\<exists>a b d. x = Inr a \<and> y = Inr b \<and> z = Inr d \<and> r = c3 a b d)"
  by (cases x; cases y; cases z; auto simp: build1_def build2_def build3_def)+

lemma field_simps [simp]:
  "field (x # xs) 0 dec = dec x"
  "field (x # xs) (Suc i) dec = field xs i dec"
  "field [] i dec = Inl Panicked"
  by (simp_all add: field_def)

lemma field_numeral [simp]: "field (x # xs) (numeral k) dec = field xs (pred_numeral k) dec"
  by (simp add: field_def numeral_eq_Suc)

lemma field_one [simp]: "field (x # xs) 1 dec = field xs 0 dec"
  by (simp add: field_def)

lemma field_Inr_iff [ok_elim]:
  "field a i dec = Inr r \<longleftrightarrow> i < length a \<and> dec (a ! i) = Inr r"
  by (simp add: field_def get_nth_def)

lemma field_cong [fundef_cong]:
  "a = a' \<Longrightarrow> i = i' \<Longrightarrow> (\<And>v. v \<in> set a' \<Longrightarrow> f v = g v) \<Longrightarrow> field a i f = field a' i' g"
  by (auto simp: field_def get_nth_def)

section \<open>Accessors\<close>

definition arr :: "cbor \<Rightarrow> protocol_error + cbor list" where
  "arr v = (case v of CArr a \<Rightarrow> Inr a | _ \<Rightarrow> Inl (Cbor ''expected array''))"

text \<open>\<open><i128>::from(*i) as u64\<close> keeps the low 64 bits.\<close>

definition tag :: "cbor \<Rightarrow> protocol_error + u64" where
  "tag v = (case v of CInt i \<Rightarrow> Inr (word_of_int i) | _ \<Rightarrow> Inl (Cbor ''expected integer tag''))"

definition u32_of :: "cbor \<Rightarrow> protocol_error + u32" where
  "u32_of v = (case v of CInt i \<Rightarrow> Inr (word_of_int i) | _ \<Rightarrow> Inl (Cbor ''expected u32''))"

definition u64_of :: "cbor \<Rightarrow> protocol_error + u64" where
  "u64_of v = (case v of CInt i \<Rightarrow> Inr (word_of_int i) | _ \<Rightarrow> Inl (Cbor ''expected u64''))"

definition bytes_of :: "cbor \<Rightarrow> protocol_error + bytes" where
  "bytes_of v = (case v of CBytes b \<Rightarrow> Inr b | _ \<Rightarrow> Inl (Cbor ''expected byte string''))"

lemma accessor_simps [simp]:
  "arr (CArr a) = Inr a"
  "tag (CInt i) = Inr (word_of_int i)"
  "u32_of (CInt i) = Inr (word_of_int i)"
  "u64_of (CInt i) = Inr (word_of_int i)"
  "bytes_of (CBytes b) = Inr b"
  by (simp_all add: arr_def tag_def u32_of_def u64_of_def bytes_of_def)

lemma accessor_Inr_iff [ok_elim]:
  "arr v = Inr a \<longleftrightarrow> v = CArr a"
  "tag v = Inr t \<longleftrightarrow> (\<exists>i. v = CInt i \<and> t = word_of_int i)"
  "u32_of v = Inr n \<longleftrightarrow> (\<exists>i. v = CInt i \<and> n = word_of_int i)"
  "u64_of v = Inr m \<longleftrightarrow> (\<exists>i. v = CInt i \<and> m = word_of_int i)"
  "bytes_of v = Inr b \<longleftrightarrow> v = CBytes b"
  by (cases v; auto simp: arr_def tag_def u32_of_def u64_of_def bytes_of_def)+

section \<open>Encoder-decoder pairs\<close>

locale codec =
  fixes enc :: "'a \<Rightarrow> 'v" and dec :: "'v \<Rightarrow> 'e + 'a" and wf :: "'a \<Rightarrow> bool"
  assumes dec_enc: "wf x \<Longrightarrow> dec (enc x) = Inr x"
begin

lemma enc_inj: "wf x \<Longrightarrow> wf y \<Longrightarrow> enc x = enc y \<Longrightarrow> x = y"
  by (metis dec_enc sum.inject(2))

lemma dec_enc_list: "(\<And>x. x \<in> set xs \<Longrightarrow> wf x) \<Longrightarrow> collect_results dec (map enc xs) = Inr xs"
  by (rule collect_results_id) (simp add: dec_enc)

end

section \<open>Writer and reader\<close>

text \<open>The items the wire formats build, and how deep they nest.\<close>

primrec plain :: "cbor \<Rightarrow> bool" where
  "plain (CInt i) \<longleftrightarrow> - (2 ^ 64) \<le> i \<and> i < 2 ^ 64"
| "plain (CBytes b) \<longleftrightarrow> True"
| "plain (CText s) \<longleftrightarrow> False"
| "plain (CArr vs) \<longleftrightarrow> list_all id (map plain vs)"
| "plain (CMap kvs) \<longleftrightarrow> False"
| "plain (CTag t v) \<longleftrightarrow> False"
| "plain (CBool b) \<longleftrightarrow> False"
| "plain (CFloat f) \<longleftrightarrow> False"
| "plain CNull \<longleftrightarrow> True"

primrec cdepth :: "cbor \<Rightarrow> nat" where
  "cdepth (CInt i) = 0"
| "cdepth (CBytes b) = 0"
| "cdepth (CText s) = 0"
| "cdepth (CArr vs) = Suc (fold max (map cdepth vs) 0)"
| "cdepth (CMap kvs) = 0"
| "cdepth (CTag t v) = Suc (cdepth v)"
| "cdepth (CBool b) = 0"
| "cdepth (CFloat f) = 0"
| "cdepth CNull = 0"

text \<open>
  \<open>ciborium\<close> reads back what it wrote, up to its recursion limit (256 for
  \<open>from_reader\<close>).
\<close>

definition cbor_codec :: "(cbor \<Rightarrow> bytes) \<Rightarrow> (bytes \<Rightarrow> string + cbor) \<Rightarrow> nat \<Rightarrow> bool" where
  "cbor_codec cw cr limit \<longleftrightarrow> (\<forall>v. plain v \<and> cdepth v \<le> limit \<longrightarrow> cr (cw v) = Inr v)"

text \<open>A reader of a stream stops after one item; what follows does not change it.\<close>

definition cbor_stream :: "(cbor \<Rightarrow> bytes) \<Rightarrow> (bytes \<Rightarrow> string + cbor) \<Rightarrow> nat \<Rightarrow> bool" where
  "cbor_stream cw cr limit \<longleftrightarrow>
     (\<forall>v rest. plain v \<and> cdepth v \<le> limit \<longrightarrow> cr (cw v @ rest) = Inr v)"

lemma cbor_stream_codec: "cbor_stream cw cr limit \<Longrightarrow> cbor_codec cw cr limit"
  unfolding cbor_stream_def cbor_codec_def by (metis append_Nil2)

text \<open>Hence the bytes of an item end where the item ends.\<close>

lemma cbor_stream_prefix:
  assumes "cbor_stream cw cr limit" "plain v" "plain w" "cdepth v \<le> limit" "cdepth w \<le> limit"
    "cw v @ xs = cw w @ ys"
  shows "v = w \<and> xs = ys"
proof -
  from assms(1,2,4) have "cr (cw v @ xs) = Inr v" by (simp add: cbor_stream_def)
  moreover from assms(1,3,5) have "cr (cw w @ ys) = Inr w" by (simp add: cbor_stream_def)
  ultimately show ?thesis using assms(6) by simp
qed

lemma plain_arr [simp]: "plain (CArr vs) \<longleftrightarrow> (\<forall>v \<in> set vs. plain v)"
  by (auto simp: list_all_iff)

declare plain.simps(4) [simp del]

lemma fold_max: "fold max ns m \<le> (k :: nat) \<longleftrightarrow> m \<le> k \<and> (\<forall>n \<in> set ns. n \<le> k)"
  by (induction ns arbitrary: m) auto

lemma cdepth_arr [simp]: "cdepth (CArr vs) \<le> Suc k \<longleftrightarrow> (\<forall>v \<in> set vs. cdepth v \<le> k)"
  by (simp add: fold_max)

end
