(* ===== verification/Cbor_Instance.thy ===== *)
theory Cbor_Instance
  imports Cbor
begin

text \<open>
  A small self-delimiting writer and reader for the plain items, on which the
  hypotheses about the CBOR library are seen to hold.  A head byte gives the kind
  of an item; lengths and magnitudes are written in unary.
\<close>

definition unary :: "nat \<Rightarrow> bytes" where
  "unary n = replicate n 1 @ [0]"

fun read_unary :: "bytes \<Rightarrow> (nat \<times> bytes) option" where
  "read_unary [] = None"
| "read_unary (b # bs) =
     (if b = 0 then Some (0, bs) else map_option (\<lambda>(n, rest). (Suc n, rest)) (read_unary bs))"

primrec put :: "cbor \<Rightarrow> bytes" where
  "put (CInt i) = (if i < 0 then [1] else [0]) @ unary (nat \<bar>i\<bar>)"
| "put (CBytes b) = 2 # unary (length b) @ b"
| "put (CText s) = []"
| "put (CArr vs) = 3 # unary (length vs) @ concat (map put vs)"
| "put (CMap kvs) = []"
| "put (CTag t v) = []"
| "put (CBool b) = []"
| "put (CFloat f) = []"
| "put CNull = [4]"

fun get_list :: "(bytes \<Rightarrow> (cbor \<times> bytes) option) \<Rightarrow> nat \<Rightarrow> bytes \<Rightarrow> (cbor list \<times> bytes) option" where
  "get_list g 0 bs = Some ([], bs)"
| "get_list g (Suc n) bs = do {
     (v, rest) \<leftarrow> g bs; (vs, rest') \<leftarrow> get_list g n rest; Some (v # vs, rest') }"

text \<open>The fuel bounds the nesting.\<close>

primrec get :: "nat \<Rightarrow> bytes \<Rightarrow> (cbor \<times> bytes) option" where
  "get 0 bs = None"
| "get (Suc k) bs = (case bs of
     [] \<Rightarrow> None
   | b # rest \<Rightarrow>
       if b = 0 then do { (n, r) \<leftarrow> read_unary rest; Some (CInt (int n), r) }
       else if b = 1 then do { (n, r) \<leftarrow> read_unary rest; Some (CInt (- int n), r) }
       else if b = 2 then do { (n, r) \<leftarrow> read_unary rest;
         if n \<le> length r then Some (CBytes (take n r), drop n r) else None }
       else if b = 3 then do { (n, r) \<leftarrow> read_unary rest; (vs, r') \<leftarrow> get_list (get k) n r;
         Some (CArr vs, r') }
       else if b = 4 then Some (CNull, rest)
       else None)"

text \<open>A reader with a nesting limit, as \<open>ciborium::from_reader\<close> has one.\<close>

definition toy_read :: "nat \<Rightarrow> bytes \<Rightarrow> string + cbor" where
  "toy_read limit bs = (case get (Suc limit) bs of
     Some (v, rest) \<Rightarrow> Inr v
   | None \<Rightarrow> Inl ''syntax'')"

lemma read_unary_unary [simp]: "read_unary (unary n @ bs) = Some (n, bs)"
  by (induction n) (simp_all add: unary_def)

lemma get_list_put:
  "(\<And>v bs. v \<in> set vs \<Longrightarrow> g (put v @ bs) = Some (v, bs)) \<Longrightarrow>
    get_list g (length vs) (concat (map put vs) @ bs) = Some (vs, bs)"
  by (induction vs) simp_all

lemma get_put: "plain v \<Longrightarrow> cdepth v \<le> k \<Longrightarrow> get (Suc k) (put v @ bs) = Some (v, bs)"
proof (induction k arbitrary: v bs rule: less_induct)
  case (less k)
  show ?case
  proof (cases v)
    case (CArr vs)
    with less.prems obtain j where j: "k = Suc j" by (cases k) auto
    from less.prems CArr j have "\<And>u. u \<in> set vs \<Longrightarrow> plain u \<and> cdepth u \<le> j"
      using cdepth_arr [of vs j] by auto
    with less.IH [of j] j have "\<And>u bs. u \<in> set vs \<Longrightarrow> get k (put u @ bs) = Some (u, bs)" by simp
    from get_list_put [of vs "get k", OF this] CArr show ?thesis by simp
  qed (use less.prems in \<open>auto\<close>)
qed

lemma toy_stream: "cbor_stream put (toy_read limit) limit"
  unfolding cbor_stream_def
proof (intro allI impI, elim conjE)
  fix v rest assume "plain v" "cdepth v \<le> limit"
  then have "get (Suc limit) (put v @ rest) = Some (v, rest)" by (rule get_put)
  then show "toy_read limit (put v @ rest) = Inr v" by (simp add: toy_read_def del: get.simps)
qed

lemma toy_codec: "cbor_codec put (toy_read limit) limit"
  by (rule cbor_stream_codec [OF toy_stream])

end
