(* ===== verification/Subst.thy ===== *)
theory Subst
  imports Syntax
begin

text \<open>
  Shifting and substitution on de-Bruijn indices (\<open>crates/dlc-core/src/subst.rs\<close>).
  Indices, cutoffs and depths are \<open>u32\<close>; a shift distance is an \<open>i32\<close>, read with
  \<open>sint\<close>.  Sums of indices wrap as the compiled code's do in release mode;
  \<open>fits\<close> says when none does.
\<close>

section \<open>Shifting\<close>

text \<open>
  \<open>(*i as i64) + (delta as i64)\<close> is exact in \<open>i64\<close>, so it is an integer sum;
  \<open>shifted as u32\<close> keeps its low 32 bits.
\<close>

primrec shift :: "trm \<Rightarrow> 32 word \<Rightarrow> u32 \<Rightarrow> trm" where
  "shift (Var i) delta c =
     (if i < c then Var i
      else let shifted = uint i + sint delta in
        if shifted < 0 then Var i else Var (word_of_int shifted))"
| "shift (Lam p b) delta c = Lam p (shift b delta (c + 1))"
| "shift (App f x) delta c = App (shift f delta c) (shift x delta c)"
| "shift (Sign p m s) delta c = Sign p (shift m delta c) s"
| "shift (Verify p m s) delta c = Verify p (shift m delta c) s"
| "shift (Delegate m n) delta c = Delegate (shift m delta c) (shift n delta c)"
| "shift (Attenuate m \<psi>) delta c = Attenuate (shift m delta c) \<psi>"
| "shift (SaysBind p s b) delta c = SaysBind p (shift s delta c) (shift b delta (c + 1))"
| "shift (Boxed_t ob m n) delta c = Boxed_t ob (shift m delta c) (shift n delta c)"
| "shift (Discharge m n) delta c = Discharge (shift m delta c) (shift n delta c)"
| "shift (LiftLabel l m) delta c = LiftLabel l (shift m delta c)"
| "shift (Declassify l m p) delta c = Declassify l (shift m delta c) (shift p delta c)"
| "shift (Now t) delta c = Now t"
| "shift (WithinIntro t m) delta c = WithinIntro t (shift m delta c)"
| "shift (Pair_t a b) delta c = Pair_t (shift a delta c) (shift b delta c)"
| "shift (Fst a) delta c = Fst (shift a delta c)"
| "shift (Snd a) delta c = Snd (shift a delta c)"
| "shift (Inl_t p a) delta c = Inl_t p (shift a delta c)"
| "shift (Inr_t p a) delta c = Inr_t p (shift a delta c)"
| "shift (Case s l r) delta c =
     Case (shift s delta c) (shift l delta (c + 1)) (shift r delta (c + 1))"
| "shift (TensorIntro a b) delta c = TensorIntro (shift a delta c) (shift b delta c)"
| "shift (LetTensor s b) delta c = LetTensor (shift s delta c) (shift b delta (c + 2))"
| "shift (LetSays p s b) delta c = LetSays p (shift s delta c) (shift b delta (c + 1))"
| "shift (SfExtract m) delta c = SfExtract (shift m delta c)"
| "shift (Command m cr l) delta c = Command (shift m delta c) (shift cr delta c) l"
| "shift (RunCmd v s) delta c = RunCmd (shift v delta c) (shift s delta c)"

section \<open>Substitution\<close>

text \<open>\<open>depth as i32\<close> reinterprets the same 32 bits, hence \<open>shift value depth 0\<close>.\<close>

primrec subst_at :: "trm \<Rightarrow> trm \<Rightarrow> u32 \<Rightarrow> trm" where
  "subst_at (Var i) v d =
     (if i = d then shift v d 0 else if i > d then Var (i - 1) else Var i)"
| "subst_at (Lam p b) v d = Lam p (subst_at b v (d + 1))"
| "subst_at (App f x) v d = App (subst_at f v d) (subst_at x v d)"
| "subst_at (Sign p m s) v d = Sign p (subst_at m v d) s"
| "subst_at (Verify p m s) v d = Verify p (subst_at m v d) s"
| "subst_at (Delegate m n) v d = Delegate (subst_at m v d) (subst_at n v d)"
| "subst_at (Attenuate m \<psi>) v d = Attenuate (subst_at m v d) \<psi>"
| "subst_at (SaysBind p s b) v d = SaysBind p (subst_at s v d) (subst_at b v (d + 1))"
| "subst_at (Boxed_t ob m n) v d = Boxed_t ob (subst_at m v d) (subst_at n v d)"
| "subst_at (Discharge m n) v d = Discharge (subst_at m v d) (subst_at n v d)"
| "subst_at (LiftLabel l m) v d = LiftLabel l (subst_at m v d)"
| "subst_at (Declassify l m p) v d = Declassify l (subst_at m v d) (subst_at p v d)"
| "subst_at (Now t) v d = Now t"
| "subst_at (WithinIntro t m) v d = WithinIntro t (subst_at m v d)"
| "subst_at (Pair_t a b) v d = Pair_t (subst_at a v d) (subst_at b v d)"
| "subst_at (Fst a) v d = Fst (subst_at a v d)"
| "subst_at (Snd a) v d = Snd (subst_at a v d)"
| "subst_at (Inl_t p a) v d = Inl_t p (subst_at a v d)"
| "subst_at (Inr_t p a) v d = Inr_t p (subst_at a v d)"
| "subst_at (Case s l r) v d =
     Case (subst_at s v d) (subst_at l v (d + 1)) (subst_at r v (d + 1))"
| "subst_at (TensorIntro a b) v d = TensorIntro (subst_at a v d) (subst_at b v d)"
| "subst_at (LetTensor s b) v d = LetTensor (subst_at s v d) (subst_at b v (d + 2))"
| "subst_at (LetSays p s b) v d = LetSays p (subst_at s v d) (subst_at b v (d + 1))"
| "subst_at (SfExtract m) v d = SfExtract (subst_at m v d)"
| "subst_at (Command m cr l) v d = Command (subst_at m v d) (subst_at cr v d) l"
| "subst_at (RunCmd w s) v d = RunCmd (subst_at w v d) (subst_at s v d)"

definition subst :: "trm \<Rightarrow> trm \<Rightarrow> trm" where
  "subst body value = subst_at body value 0"

section \<open>Binding depth and free indices\<close>

text \<open>How many binders a path through the term crosses at most.\<close>

primrec bdepth :: "trm \<Rightarrow> nat" where
  "bdepth (Var i) = 0"
| "bdepth (Lam p b) = Suc (bdepth b)"
| "bdepth (App f x) = max (bdepth f) (bdepth x)"
| "bdepth (Sign p m s) = bdepth m"
| "bdepth (Verify p m s) = bdepth m"
| "bdepth (Delegate m n) = max (bdepth m) (bdepth n)"
| "bdepth (Attenuate m \<psi>) = bdepth m"
| "bdepth (SaysBind p s b) = max (bdepth s) (Suc (bdepth b))"
| "bdepth (Boxed_t ob m n) = max (bdepth m) (bdepth n)"
| "bdepth (Discharge m n) = max (bdepth m) (bdepth n)"
| "bdepth (LiftLabel l m) = bdepth m"
| "bdepth (Declassify l m p) = max (bdepth m) (bdepth p)"
| "bdepth (Now t) = 0"
| "bdepth (WithinIntro t m) = bdepth m"
| "bdepth (Pair_t a b) = max (bdepth a) (bdepth b)"
| "bdepth (Fst a) = bdepth a"
| "bdepth (Snd a) = bdepth a"
| "bdepth (Inl_t p a) = bdepth a"
| "bdepth (Inr_t p a) = bdepth a"
| "bdepth (Case s l r) = max (bdepth s) (max (Suc (bdepth l)) (Suc (bdepth r)))"
| "bdepth (TensorIntro a b) = max (bdepth a) (bdepth b)"
| "bdepth (LetTensor s b) = max (bdepth s) (Suc (Suc (bdepth b)))"
| "bdepth (LetSays p s b) = max (bdepth s) (Suc (bdepth b))"
| "bdepth (SfExtract m) = bdepth m"
| "bdepth (Command m cr l) = max (bdepth m) (bdepth cr)"
| "bdepth (RunCmd v s) = max (bdepth v) (bdepth s)"

text \<open>
  Below \<open>n\<close> binders every index, cutoff and depth the traversal of \<open>t\<close> computes
  stays below \<open>2 ^ 31\<close>: neither the \<open>u32\<close> counters nor the \<open>i32\<close> distance overflows.
\<close>

definition fits :: "nat \<Rightarrow> trm \<Rightarrow> bool" where
  "fits n t \<longleftrightarrow> n + bdepth t < 2 ^ 31"

lemma fits_simps [simp]:
  "fits n (Var i) \<longleftrightarrow> n < 2 ^ 31"
  "fits n (Lam \<phi> b) \<longleftrightarrow> fits (Suc n) b"
  "fits n (App f x) \<longleftrightarrow> fits n f \<and> fits n x"
  "fits n (Sign p m s) \<longleftrightarrow> fits n m"
  "fits n (Verify p m s) \<longleftrightarrow> fits n m"
  "fits n (Delegate m x) \<longleftrightarrow> fits n m \<and> fits n x"
  "fits n (Attenuate m \<phi>) \<longleftrightarrow> fits n m"
  "fits n (SaysBind p m b) \<longleftrightarrow> fits n m \<and> fits (Suc n) b"
  "fits n (Boxed_t ob m x) \<longleftrightarrow> fits n m \<and> fits n x"
  "fits n (Discharge m x) \<longleftrightarrow> fits n m \<and> fits n x"
  "fits n (LiftLabel l m) \<longleftrightarrow> fits n m"
  "fits n (Declassify l m x) \<longleftrightarrow> fits n m \<and> fits n x"
  "fits n (Now t) \<longleftrightarrow> n < 2 ^ 31"
  "fits n (WithinIntro t m) \<longleftrightarrow> fits n m"
  "fits n (Pair_t f x) \<longleftrightarrow> fits n f \<and> fits n x"
  "fits n (Fst m) \<longleftrightarrow> fits n m"
  "fits n (Snd m) \<longleftrightarrow> fits n m"
  "fits n (Inl_t \<phi> m) \<longleftrightarrow> fits n m"
  "fits n (Inr_t \<phi> m) \<longleftrightarrow> fits n m"
  "fits n (Case m f x) \<longleftrightarrow> fits n m \<and> fits (Suc n) f \<and> fits (Suc n) x"
  "fits n (TensorIntro f x) \<longleftrightarrow> fits n f \<and> fits n x"
  "fits n (LetTensor m b) \<longleftrightarrow> fits n m \<and> fits (Suc (Suc n)) b"
  "fits n (LetSays p m b) \<longleftrightarrow> fits n m \<and> fits (Suc n) b"
  "fits n (SfExtract m) \<longleftrightarrow> fits n m"
  "fits n (Command m x l) \<longleftrightarrow> fits n m \<and> fits n x"
  "fits n (RunCmd m x) \<longleftrightarrow> fits n m \<and> fits n x"
  by (simp_all only: fits_def bdepth.simps nat_add_max_right max_less_iff_conj add_0_right
      add_Suc_right add_Suc)

lemma fits_bound: "fits n t \<Longrightarrow> n < 2 ^ 31"
  by (simp add: fits_def)

lemma fits_mono: "fits n t \<Longrightarrow> m \<le> n \<Longrightarrow> fits m t"
  by (simp add: fits_def)

text \<open>Every free index is below \<open>k\<close>.\<close>

primrec closed_at :: "nat \<Rightarrow> trm \<Rightarrow> bool" where
  "closed_at k (Var i) \<longleftrightarrow> unat i < k"
| "closed_at k (Lam p b) \<longleftrightarrow> closed_at (Suc k) b"
| "closed_at k (App f x) \<longleftrightarrow> closed_at k f \<and> closed_at k x"
| "closed_at k (Sign p m s) \<longleftrightarrow> closed_at k m"
| "closed_at k (Verify p m s) \<longleftrightarrow> closed_at k m"
| "closed_at k (Delegate m n) \<longleftrightarrow> closed_at k m \<and> closed_at k n"
| "closed_at k (Attenuate m \<psi>) \<longleftrightarrow> closed_at k m"
| "closed_at k (SaysBind p s b) \<longleftrightarrow> closed_at k s \<and> closed_at (Suc k) b"
| "closed_at k (Boxed_t ob m n) \<longleftrightarrow> closed_at k m \<and> closed_at k n"
| "closed_at k (Discharge m n) \<longleftrightarrow> closed_at k m \<and> closed_at k n"
| "closed_at k (LiftLabel l m) \<longleftrightarrow> closed_at k m"
| "closed_at k (Declassify l m p) \<longleftrightarrow> closed_at k m \<and> closed_at k p"
| "closed_at k (Now t) \<longleftrightarrow> True"
| "closed_at k (WithinIntro t m) \<longleftrightarrow> closed_at k m"
| "closed_at k (Pair_t a b) \<longleftrightarrow> closed_at k a \<and> closed_at k b"
| "closed_at k (Fst a) \<longleftrightarrow> closed_at k a"
| "closed_at k (Snd a) \<longleftrightarrow> closed_at k a"
| "closed_at k (Inl_t p a) \<longleftrightarrow> closed_at k a"
| "closed_at k (Inr_t p a) \<longleftrightarrow> closed_at k a"
| "closed_at k (Case s l r) \<longleftrightarrow> closed_at k s \<and> closed_at (Suc k) l \<and> closed_at (Suc k) r"
| "closed_at k (TensorIntro a b) \<longleftrightarrow> closed_at k a \<and> closed_at k b"
| "closed_at k (LetTensor s b) \<longleftrightarrow> closed_at k s \<and> closed_at (Suc (Suc k)) b"
| "closed_at k (LetSays p s b) \<longleftrightarrow> closed_at k s \<and> closed_at (Suc k) b"
| "closed_at k (SfExtract m) \<longleftrightarrow> closed_at k m"
| "closed_at k (Command m cr l) \<longleftrightarrow> closed_at k m \<and> closed_at k cr"
| "closed_at k (RunCmd v s) \<longleftrightarrow> closed_at k v \<and> closed_at k s"

section \<open>Laws of shifting and substitution\<close>

text \<open>Counters as numbers: a cutoff or depth is \<open>of_nat\<close> of the binders crossed.\<close>

lemma unat_u32_small: "n < 2 ^ 31 \<Longrightarrow> unat (of_nat n :: u32) = n"
  by (simp add: unat_of_nat take_bit_eq_mod)

lemma sint_u32_small:
  assumes "n < 2 ^ 31"
  shows "sint (of_nat n :: u32) = int n"
proof -
  have u: "uint (of_nat n :: u32) = int n"
    using unat_u32_small [OF assms] by (simp only: uint_nat)
  show ?thesis
    unfolding sint_uint u using assms
    by (intro signed_take_bit_int_eq_self) simp_all
qed

lemma u32_step:
  "(of_nat n :: u32) + 1 = of_nat (Suc n)"
  "(of_nat n :: u32) + 2 = of_nat (Suc (Suc n))"
  by simp_all

lemma u32_less_of_nat: "n < 2 ^ 31 \<Longrightarrow> i < (of_nat n :: u32) \<longleftrightarrow> unat i < n"
  by (simp only: word_less_nat_alt unat_u32_small)

lemma u32_eq_of_nat: "n < 2 ^ 31 \<Longrightarrow> i = (of_nat n :: u32) \<longleftrightarrow> unat i = n"
  by (simp only: word_eq_unat unat_u32_small)

text \<open>Shifting a variable when nothing overflows.\<close>

lemma shift_var_nat:
  assumes "k < 2 ^ 31" "d < 2 ^ 31"
  shows "shift (Var i) (of_nat d) (of_nat k) =
    (if unat i < k then Var i else Var (of_nat (unat i + d)))"
proof -
  have "uint i + sint (of_nat d :: u32) = int (unat i + d)"
    by (simp only: sint_u32_small [OF assms(2)] uint_nat of_nat_add)
  then show ?thesis
    by (simp only: shift.simps u32_less_of_nat [OF assms(1)] Let_def of_nat_less_0_iff
        if_False of_int_of_nat_eq)
qed

lemma subst_var_nat:
  assumes "k < 2 ^ 31"
  shows "subst_at (Var i) v (of_nat k) =
    (if unat i = k then shift v (of_nat k) 0
     else if k < unat i then Var (of_nat (unat i - 1)) else Var i)"
proof (cases "k < unat i")
  case True
  then have "of_nat (unat i - 1) = of_nat (unat i) - (of_nat 1 :: u32)"
    by (intro of_nat_diff) simp
  then have "i - 1 = of_nat (unat i - 1)"
    by (simp only: of_nat_unat ucast_id of_nat_1)
  with True show ?thesis
    by (simp only: subst_at.simps u32_eq_of_nat [OF assms] word_less_nat_alt
        unat_u32_small [OF assms])
next
  case False
  then show ?thesis
    by (simp only: subst_at.simps u32_eq_of_nat [OF assms] word_less_nat_alt
        unat_u32_small [OF assms] if_False)
qed

lemma shift_closed:
  "closed_at k t \<Longrightarrow> fits k t \<Longrightarrow> shift t delta (of_nat k) = t"
proof (induction t arbitrary: k)
  case (Var i)
  then show ?case by (simp add: u32_less_of_nat del: of_nat_Suc)
qed (simp_all add: u32_step del: of_nat_Suc)

lemma subst_closed:
  "closed_at k t \<Longrightarrow> fits k t \<Longrightarrow> subst_at t v (of_nat k) = t"
proof (induction t arbitrary: k)
  case (Var i)
  then show ?case
    by (simp add: subst_var_nat del: subst_at.simps)
qed (simp_all add: u32_step del: of_nat_Suc)

end
