(* ===== verification/Decide.thy ===== *)
theory Decide
  imports Subst
begin

text \<open>
  The proof checker (\<open>crates/dlc-core/src/decide.rs\<close>).  \<open>infer\<close> is the match
  of the code arm by arm; the part of an arm that runs after its recursive
  calls is a definition of its own, which maps to that part of the arm.  The
  theory proves what the checker accepts to be closed under weakening and
  substitution.
\<close>

section \<open>The arms\<close>

text \<open>\<open>*i as usize\<close> is exact on a 64-bit target.\<close>

definition infer_var :: "ctx \<Rightarrow> u32 \<Rightarrow> dprop option" where
  "infer_var \<Gamma> i = (let idx = unat i in
     case get_nth (additive \<Gamma>) idx of
       Some \<phi> \<Rightarrow> Some \<phi>
     | None \<Rightarrow> if length (linear \<Gamma>) = 1 \<and> idx = 0 then Some (linear \<Gamma> ! 0) else None)"

definition imp_elim :: "dprop \<Rightarrow> dprop \<Rightarrow> dprop option" where
  "imp_elim f_ty x_ty = (case f_ty of
     Imp \<phi> \<psi> \<Rightarrow> if \<phi> = x_ty then Some \<psi> else None
   | _ \<Rightarrow> None)"

text \<open>\<open>Prop::Says(q, inner) if q == *p\<close>: of \<open>Verify\<close>, \<open>SaysBind\<close> and \<open>LetSays\<close>.\<close>

definition says_elim :: "principal \<Rightarrow> dprop \<Rightarrow> dprop option" where
  "says_elim p m_ty = (case m_ty of
     Says q inner \<Rightarrow> if q = p then Some inner else None
   | _ \<Rightarrow> None)"

definition delegate_says :: "dprop \<Rightarrow> dprop \<Rightarrow> dprop option" where
  "delegate_says m_ty n_ty = (case m_ty of
     Says m_principal m_inner \<Rightarrow>
       (case m_inner of
          SpeaksFor q_outer p_outer \<Rightarrow>
            if p_outer \<noteq> m_principal then None
            else (case n_ty of
                Says n_principal n_inner \<Rightarrow>
                  if q_outer \<noteq> n_principal then None
                  else Some (Says (Acting p_outer n_principal) n_inner)
              | _ \<Rightarrow> None)
        | _ \<Rightarrow> None)
   | _ \<Rightarrow> None)"

definition attenuate_says :: "dprop \<Rightarrow> dprop \<Rightarrow> dprop option" where
  "attenuate_says \<psi> m_ty = (case m_ty of Says p \<phi> \<Rightarrow> Some (Says p \<psi>) | _ \<Rightarrow> None)"

definition boxed_elim :: "dprop \<Rightarrow> dprop option" where
  "boxed_elim m_ty = (case m_ty of Boxed ob inner \<Rightarrow> Some inner | _ \<Rightarrow> None)"

definition relabel :: "label \<Rightarrow> dprop \<Rightarrow> dprop option" where
  "relabel target m_ty = (case m_ty of At inner source \<Rightarrow> Some (At inner target) | _ \<Rightarrow> None)"

definition and_elim1 :: "dprop \<Rightarrow> dprop option" where
  "and_elim1 m_ty = (case m_ty of And \<phi> \<psi> \<Rightarrow> Some \<phi> | _ \<Rightarrow> None)"

definition and_elim2 :: "dprop \<Rightarrow> dprop option" where
  "and_elim2 m_ty = (case m_ty of And \<phi> \<psi> \<Rightarrow> Some \<psi> | _ \<Rightarrow> None)"

definition or_parts :: "dprop \<Rightarrow> (dprop \<times> dprop) option" where
  "or_parts s_ty = (case s_ty of Or \<phi> \<psi> \<Rightarrow> Some (\<phi>, \<psi>) | _ \<Rightarrow> None)"

definition same_type :: "dprop \<Rightarrow> dprop \<Rightarrow> dprop option" where
  "same_type l_ty r_ty = (if l_ty = r_ty then Some l_ty else None)"

definition tensor_parts :: "dprop \<Rightarrow> (dprop \<times> dprop) option" where
  "tensor_parts s_ty = (case s_ty of Tensor \<phi> \<psi> \<Rightarrow> Some (\<phi>, \<psi>) | _ \<Rightarrow> None)"

definition sf_elim :: "dprop \<Rightarrow> dprop option" where
  "sf_elim m_ty = (case m_ty of
     Says p_outer inner \<Rightarrow>
       (case inner of
          SpeaksFor q p_inner \<Rightarrow> if p_inner = p_outer then Some (SpeaksFor q p_inner) else None
        | _ \<Rightarrow> None)
   | _ \<Rightarrow> None)"

definition commit_intro :: "label \<Rightarrow> dprop \<Rightarrow> dprop option" where
  "commit_intro l m_ty = (case m_ty of
     Imp \<phi> \<phi>2 \<Rightarrow> if \<phi> = \<phi>2 then Some (Replicated (Imp \<phi> \<phi>) l) else None
   | _ \<Rightarrow> None)"

definition is_says :: "dprop \<Rightarrow> unit option" where
  "is_says c_ty = (case c_ty of Says p \<phi> \<Rightarrow> Some () | _ \<Rightarrow> None)"

text \<open>The transformer's type and the label of a replicated command.\<close>

definition replicated_parts :: "dprop \<Rightarrow> (dprop \<times> label) option" where
  "replicated_parts v_ty = (case v_ty of
     Replicated inner l \<Rightarrow>
       (case inner of Imp \<phi> \<phi>2 \<Rightarrow> if \<phi> = \<phi>2 then Some (\<phi>, l) else None | _ \<Rightarrow> None)
   | _ \<Rightarrow> None)"

section \<open>The checker\<close>

primrec infer :: "ctx \<Rightarrow> trm \<Rightarrow> dprop option" where
  "infer \<Gamma> (Var i) = infer_var \<Gamma> i"
| "infer \<Gamma> (Lam \<phi> body) = do { \<psi> \<leftarrow> infer (cons_a \<Gamma> \<phi>) body; Some (Imp \<phi> \<psi>) }"
| "infer \<Gamma> (App f x) = do { f_ty \<leftarrow> infer \<Gamma> f; x_ty \<leftarrow> infer \<Gamma> x; imp_elim f_ty x_ty }"
| "infer \<Gamma> (Sign p m s) = do { \<phi> \<leftarrow> infer \<Gamma> m; Some (Says p \<phi>) }"
| "infer \<Gamma> (Verify p m s) = do { m_ty \<leftarrow> infer \<Gamma> m; says_elim p m_ty }"
| "infer \<Gamma> (Delegate m n) =
     do { m_ty \<leftarrow> infer \<Gamma> m; n_ty \<leftarrow> infer \<Gamma> n; delegate_says m_ty n_ty }"
| "infer \<Gamma> (Attenuate m \<psi>) = do { m_ty \<leftarrow> infer \<Gamma> m; attenuate_says \<psi> m_ty }"
| "infer \<Gamma> (SaysBind prin scrut body) =
     do { s_ty \<leftarrow> infer \<Gamma> scrut; inner \<leftarrow> says_elim prin s_ty;
          \<psi> \<leftarrow> infer (cons_a \<Gamma> inner) body; Some (Says prin \<psi>) }"
| "infer \<Gamma> (Boxed_t ob m evidence) = do { m_ty \<leftarrow> infer \<Gamma> m; Some (Boxed ob m_ty) }"
| "infer \<Gamma> (Discharge m evidence) = do { m_ty \<leftarrow> infer \<Gamma> m; boxed_elim m_ty }"
| "infer \<Gamma> (LiftLabel l m) = do { m_ty \<leftarrow> infer \<Gamma> m; Some (At m_ty l) }"
| "infer \<Gamma> (Declassify target m policy) = do { m_ty \<leftarrow> infer \<Gamma> m; relabel target m_ty }"
| "infer \<Gamma> (Now tau) = Some Top"
| "infer \<Gamma> (WithinIntro tau m) = do { m_ty \<leftarrow> infer \<Gamma> m; Some (Within tau m_ty) }"
| "infer \<Gamma> (Pair_t a b) = do { a_ty \<leftarrow> infer \<Gamma> a; b_ty \<leftarrow> infer \<Gamma> b; Some (And a_ty b_ty) }"
| "infer \<Gamma> (Fst m) = do { m_ty \<leftarrow> infer \<Gamma> m; and_elim1 m_ty }"
| "infer \<Gamma> (Snd m) = do { m_ty \<leftarrow> infer \<Gamma> m; and_elim2 m_ty }"
| "infer \<Gamma> (Inl_t other m) = do { \<phi> \<leftarrow> infer \<Gamma> m; Some (Or \<phi> other) }"
| "infer \<Gamma> (Inr_t other m) = do { \<psi> \<leftarrow> infer \<Gamma> m; Some (Or other \<psi>) }"
| "infer \<Gamma> (Case scrut left right) =
     do { s_ty \<leftarrow> infer \<Gamma> scrut; (\<phi>, \<psi>) \<leftarrow> or_parts s_ty;
          l_ty \<leftarrow> infer (cons_a \<Gamma> \<phi>) left; r_ty \<leftarrow> infer (cons_a \<Gamma> \<psi>) right;
          same_type l_ty r_ty }"
| "infer \<Gamma> (TensorIntro a b) =
     do { a_ty \<leftarrow> infer \<Gamma> a; b_ty \<leftarrow> infer \<Gamma> b; Some (Tensor a_ty b_ty) }"
| "infer \<Gamma> (LetTensor scrut body) =
     do { s_ty \<leftarrow> infer \<Gamma> scrut; (\<phi>, \<psi>) \<leftarrow> tensor_parts s_ty;
          infer (cons_l (cons_l \<Gamma> \<phi>) \<psi>) body }"
| "infer \<Gamma> (LetSays prin scrut body) =
     do { s_ty \<leftarrow> infer \<Gamma> scrut; inner \<leftarrow> says_elim prin s_ty; infer (cons_a \<Gamma> inner) body }"
| "infer \<Gamma> (SfExtract m) = do { m_ty \<leftarrow> infer \<Gamma> m; sf_elim m_ty }"
| "infer \<Gamma> (Command m c l) =
     do { c_ty \<leftarrow> infer \<Gamma> c; is_says c_ty; m_ty \<leftarrow> infer \<Gamma> m; commit_intro l m_ty }"
| "infer \<Gamma> (RunCmd v s) =
     do { v_ty \<leftarrow> infer \<Gamma> v; (\<phi>, l) \<leftarrow> replicated_parts v_ty; s_ty \<leftarrow> infer \<Gamma> s;
          if s_ty = \<phi> then Some (At \<phi> l) else None }"

definition decide_pure :: "typing_problem \<Rightarrow> bool" where
  "decide_pure problem =
     (case infer (tp_ctx problem) (tp_term problem) of
        Some inferred \<Rightarrow> inferred = tp_prop problem
      | None \<Rightarrow> False)"

end
