(* ===== verification/Typing.thy ===== *)
theory Typing
  imports Decide
begin

text \<open>
  What the checker accepts: which subterms a term has, weakening and
  substitution for \<open>infer\<close>, and a two-valued reading of propositions that
  every rule but \<open>Attenuate\<close> respects.
\<close>

section \<open>Subterms\<close>

primrec subterms :: "trm \<Rightarrow> trm list" where
  "subterms (Var i) = [Var i]"
| "subterms (Lam p b) = Lam p b # subterms b"
| "subterms (App f x) = App f x # subterms f @ subterms x"
| "subterms (Sign p m s) = Sign p m s # subterms m"
| "subterms (Verify p m s) = Verify p m s # subterms m"
| "subterms (Delegate m n) = Delegate m n # subterms m @ subterms n"
| "subterms (Attenuate m \<psi>) = Attenuate m \<psi> # subterms m"
| "subterms (SaysBind p s b) = SaysBind p s b # subterms s @ subterms b"
| "subterms (Boxed_t ob m n) = Boxed_t ob m n # subterms m @ subterms n"
| "subterms (Discharge m n) = Discharge m n # subterms m @ subterms n"
| "subterms (LiftLabel l m) = LiftLabel l m # subterms m"
| "subterms (Declassify l m p) = Declassify l m p # subterms m @ subterms p"
| "subterms (Now t) = [Now t]"
| "subterms (WithinIntro t m) = WithinIntro t m # subterms m"
| "subterms (Pair_t a b) = Pair_t a b # subterms a @ subterms b"
| "subterms (Fst a) = Fst a # subterms a"
| "subterms (Snd a) = Snd a # subterms a"
| "subterms (Inl_t p a) = Inl_t p a # subterms a"
| "subterms (Inr_t p a) = Inr_t p a # subterms a"
| "subterms (Case s l r) = Case s l r # subterms s @ subterms l @ subterms r"
| "subterms (TensorIntro a b) = TensorIntro a b # subterms a @ subterms b"
| "subterms (LetTensor s b) = LetTensor s b # subterms s @ subterms b"
| "subterms (LetSays p s b) = LetSays p s b # subterms s @ subterms b"
| "subterms (SfExtract m) = SfExtract m # subterms m"
| "subterms (Command m c l) = Command m c l # subterms m @ subterms c"
| "subterms (RunCmd v s) = RunCmd v s # subterms v @ subterms s"

lemma subterms_self [simp]: "t \<in> set (subterms t)"
  by (cases t) simp_all

definition is_letTensor :: "trm \<Rightarrow> bool" where
  "is_letTensor t = (case t of LetTensor s b \<Rightarrow> True | _ \<Rightarrow> False)"

definition is_attenuate :: "trm \<Rightarrow> bool" where
  "is_attenuate t = (case t of Attenuate m \<psi> \<Rightarrow> True | _ \<Rightarrow> False)"

definition is_saysBind :: "trm \<Rightarrow> bool" where
  "is_saysBind t = (case t of SaysBind p s b \<Rightarrow> True | _ \<Rightarrow> False)"

definition letTensor_free :: "trm \<Rightarrow> bool" where
  "letTensor_free t \<longleftrightarrow> (\<forall>s \<in> set (subterms t). \<not> is_letTensor s)"

definition attenuate_free :: "trm \<Rightarrow> bool" where
  "attenuate_free t \<longleftrightarrow> (\<forall>s \<in> set (subterms t). \<not> is_attenuate s)"

definition saysBind_free :: "trm \<Rightarrow> bool" where
  "saysBind_free t \<longleftrightarrow> (\<forall>s \<in> set (subterms t). \<not> is_saysBind s)"

lemmas free_defs = letTensor_free_def attenuate_free_def saysBind_free_def
  is_letTensor_def is_attenuate_def is_saysBind_def

lemma letTensor_free_simps [simp]:
  "letTensor_free (Var i) \<longleftrightarrow> True"
  "letTensor_free (Lam \<phi> b) \<longleftrightarrow> letTensor_free b"
  "letTensor_free (App f x) \<longleftrightarrow> letTensor_free f \<and> letTensor_free x"
  "letTensor_free (Sign p m s) \<longleftrightarrow> letTensor_free m"
  "letTensor_free (Verify p m s) \<longleftrightarrow> letTensor_free m"
  "letTensor_free (Delegate m x) \<longleftrightarrow> letTensor_free m \<and> letTensor_free x"
  "letTensor_free (Attenuate m \<phi>) \<longleftrightarrow> letTensor_free m"
  "letTensor_free (SaysBind p m b) \<longleftrightarrow> letTensor_free m \<and> letTensor_free b"
  "letTensor_free (Boxed_t ob m x) \<longleftrightarrow> letTensor_free m \<and> letTensor_free x"
  "letTensor_free (Discharge m x) \<longleftrightarrow> letTensor_free m \<and> letTensor_free x"
  "letTensor_free (LiftLabel l m) \<longleftrightarrow> letTensor_free m"
  "letTensor_free (Declassify l m x) \<longleftrightarrow> letTensor_free m \<and> letTensor_free x"
  "letTensor_free (Now t) \<longleftrightarrow> True"
  "letTensor_free (WithinIntro t m) \<longleftrightarrow> letTensor_free m"
  "letTensor_free (Pair_t m x) \<longleftrightarrow> letTensor_free m \<and> letTensor_free x"
  "letTensor_free (Fst m) \<longleftrightarrow> letTensor_free m"
  "letTensor_free (Snd m) \<longleftrightarrow> letTensor_free m"
  "letTensor_free (Inl_t \<phi> m) \<longleftrightarrow> letTensor_free m"
  "letTensor_free (Inr_t \<phi> m) \<longleftrightarrow> letTensor_free m"
  "letTensor_free (Case m f x) \<longleftrightarrow> letTensor_free m \<and> letTensor_free f \<and> letTensor_free x"
  "letTensor_free (TensorIntro m x) \<longleftrightarrow> letTensor_free m \<and> letTensor_free x"
  "letTensor_free (LetTensor m b) \<longleftrightarrow> False"
  "letTensor_free (LetSays p m b) \<longleftrightarrow> letTensor_free m \<and> letTensor_free b"
  "letTensor_free (SfExtract m) \<longleftrightarrow> letTensor_free m"
  "letTensor_free (Command m x l) \<longleftrightarrow> letTensor_free m \<and> letTensor_free x"
  "letTensor_free (RunCmd m x) \<longleftrightarrow> letTensor_free m \<and> letTensor_free x"
  by (simp_all add: free_defs ball_Un)

lemma attenuate_free_simps [simp]:
  "attenuate_free (Var i) \<longleftrightarrow> True"
  "attenuate_free (Lam \<phi> b) \<longleftrightarrow> attenuate_free b"
  "attenuate_free (App f x) \<longleftrightarrow> attenuate_free f \<and> attenuate_free x"
  "attenuate_free (Sign p m s) \<longleftrightarrow> attenuate_free m"
  "attenuate_free (Verify p m s) \<longleftrightarrow> attenuate_free m"
  "attenuate_free (Delegate m x) \<longleftrightarrow> attenuate_free m \<and> attenuate_free x"
  "attenuate_free (Attenuate m \<phi>) \<longleftrightarrow> False"
  "attenuate_free (SaysBind p m b) \<longleftrightarrow> attenuate_free m \<and> attenuate_free b"
  "attenuate_free (Boxed_t ob m x) \<longleftrightarrow> attenuate_free m \<and> attenuate_free x"
  "attenuate_free (Discharge m x) \<longleftrightarrow> attenuate_free m \<and> attenuate_free x"
  "attenuate_free (LiftLabel l m) \<longleftrightarrow> attenuate_free m"
  "attenuate_free (Declassify l m x) \<longleftrightarrow> attenuate_free m \<and> attenuate_free x"
  "attenuate_free (Now t) \<longleftrightarrow> True"
  "attenuate_free (WithinIntro t m) \<longleftrightarrow> attenuate_free m"
  "attenuate_free (Pair_t m x) \<longleftrightarrow> attenuate_free m \<and> attenuate_free x"
  "attenuate_free (Fst m) \<longleftrightarrow> attenuate_free m"
  "attenuate_free (Snd m) \<longleftrightarrow> attenuate_free m"
  "attenuate_free (Inl_t \<phi> m) \<longleftrightarrow> attenuate_free m"
  "attenuate_free (Inr_t \<phi> m) \<longleftrightarrow> attenuate_free m"
  "attenuate_free (Case m f x) \<longleftrightarrow> attenuate_free m \<and> attenuate_free f \<and> attenuate_free x"
  "attenuate_free (TensorIntro m x) \<longleftrightarrow> attenuate_free m \<and> attenuate_free x"
  "attenuate_free (LetTensor m b) \<longleftrightarrow> attenuate_free m \<and> attenuate_free b"
  "attenuate_free (LetSays p m b) \<longleftrightarrow> attenuate_free m \<and> attenuate_free b"
  "attenuate_free (SfExtract m) \<longleftrightarrow> attenuate_free m"
  "attenuate_free (Command m x l) \<longleftrightarrow> attenuate_free m \<and> attenuate_free x"
  "attenuate_free (RunCmd m x) \<longleftrightarrow> attenuate_free m \<and> attenuate_free x"
  by (simp_all add: free_defs ball_Un)

lemma saysBind_free_simps [simp]:
  "saysBind_free (Var i) \<longleftrightarrow> True"
  "saysBind_free (Lam \<phi> b) \<longleftrightarrow> saysBind_free b"
  "saysBind_free (App f x) \<longleftrightarrow> saysBind_free f \<and> saysBind_free x"
  "saysBind_free (Sign p m s) \<longleftrightarrow> saysBind_free m"
  "saysBind_free (Verify p m s) \<longleftrightarrow> saysBind_free m"
  "saysBind_free (Delegate m x) \<longleftrightarrow> saysBind_free m \<and> saysBind_free x"
  "saysBind_free (Attenuate m \<phi>) \<longleftrightarrow> saysBind_free m"
  "saysBind_free (SaysBind p m b) \<longleftrightarrow> False"
  "saysBind_free (Boxed_t ob m x) \<longleftrightarrow> saysBind_free m \<and> saysBind_free x"
  "saysBind_free (Discharge m x) \<longleftrightarrow> saysBind_free m \<and> saysBind_free x"
  "saysBind_free (LiftLabel l m) \<longleftrightarrow> saysBind_free m"
  "saysBind_free (Declassify l m x) \<longleftrightarrow> saysBind_free m \<and> saysBind_free x"
  "saysBind_free (Now t) \<longleftrightarrow> True"
  "saysBind_free (WithinIntro t m) \<longleftrightarrow> saysBind_free m"
  "saysBind_free (Pair_t m x) \<longleftrightarrow> saysBind_free m \<and> saysBind_free x"
  "saysBind_free (Fst m) \<longleftrightarrow> saysBind_free m"
  "saysBind_free (Snd m) \<longleftrightarrow> saysBind_free m"
  "saysBind_free (Inl_t \<phi> m) \<longleftrightarrow> saysBind_free m"
  "saysBind_free (Inr_t \<phi> m) \<longleftrightarrow> saysBind_free m"
  "saysBind_free (Case m f x) \<longleftrightarrow> saysBind_free m \<and> saysBind_free f \<and> saysBind_free x"
  "saysBind_free (TensorIntro m x) \<longleftrightarrow> saysBind_free m \<and> saysBind_free x"
  "saysBind_free (LetTensor m b) \<longleftrightarrow> saysBind_free m \<and> saysBind_free b"
  "saysBind_free (LetSays p m b) \<longleftrightarrow> saysBind_free m \<and> saysBind_free b"
  "saysBind_free (SfExtract m) \<longleftrightarrow> saysBind_free m"
  "saysBind_free (Command m x l) \<longleftrightarrow> saysBind_free m \<and> saysBind_free x"
  "saysBind_free (RunCmd m x) \<longleftrightarrow> saysBind_free m \<and> saysBind_free x"
  by (simp_all add: free_defs ball_Un)

lemma letTensor_free_shift [simp]: "letTensor_free (shift t delta c) \<longleftrightarrow> letTensor_free t"
  by (induction t arbitrary: c) (simp_all add: Let_def)

lemma letTensor_free_subst_at:
  "letTensor_free t \<Longrightarrow> letTensor_free v \<Longrightarrow> letTensor_free (subst_at t v d)"
  by (induction t arbitrary: d) simp_all

lemma attenuate_free_shift [simp]: "attenuate_free (shift t delta c) \<longleftrightarrow> attenuate_free t"
  by (induction t arbitrary: c) (simp_all add: Let_def)

lemma attenuate_free_subst_at:
  "attenuate_free t \<Longrightarrow> attenuate_free v \<Longrightarrow> attenuate_free (subst_at t v d)"
  by (induction t arbitrary: d) simp_all

lemma saysBind_free_shift [simp]: "saysBind_free (shift t delta c) \<longleftrightarrow> saysBind_free t"
  by (induction t arbitrary: c) (simp_all add: Let_def)

lemma saysBind_free_subst_at:
  "saysBind_free t \<Longrightarrow> saysBind_free v \<Longrightarrow> saysBind_free (subst_at t v d)"
  by (induction t arbitrary: d) simp_all

lemma bdepth_shift [simp]: "bdepth (shift t delta c) = bdepth t"
  by (induction t arbitrary: c) (simp_all add: Let_def)

lemma bdepth_subst_at: "bdepth (subst_at t v d) \<le> bdepth t + bdepth v"
proof (induction t arbitrary: d)
  case (Var i)
  then show ?case by simp
qed (simp_all add: max.coboundedI1 max.coboundedI2 add.commute trans_le_add2 nat_add_max_left nat_add_max_right)


section \<open>Weakening\<close>

lemmas infer_helpers = infer_var_def imp_elim_def says_elim_def delegate_says_def
  attenuate_says_def boxed_elim_def relabel_def and_elim1_def and_elim2_def or_parts_def
  same_type_def tensor_parts_def sf_elim_def commit_intro_def is_says_def replicated_parts_def

definition mk_ctx :: "dprop list \<Rightarrow> dprop list \<Rightarrow> ctx" where
  "mk_ctx as ls = \<lparr>additive = as, linear = ls\<rparr>"

lemma mk_ctx_simps [simp]:
  "additive (mk_ctx as ls) = as"
  "linear (mk_ctx as ls) = ls"
  "cons_a (mk_ctx as ls) \<phi> = mk_ctx (\<phi> # as) ls"
  "cons_l (mk_ctx as ls) \<phi> = mk_ctx as (\<phi> # ls)"
  by (simp_all add: mk_ctx_def cons_a_def cons_l_def)

lemma mk_ctx_cong: "mk_ctx (additive \<Gamma>) (linear \<Gamma>) = \<Gamma>"
  by (simp add: mk_ctx_def)

lemma ctx_empty_mk: "ctx_empty = mk_ctx [] []"
  by (simp add: ctx_empty_def mk_ctx_def)

text \<open>
  With a linear context that is not a singleton, the linear hypotheses are
  unreachable, and a variable is an index into the additive ones.
\<close>

lemma infer_var_additive:
  "length ls \<noteq> 1 \<Longrightarrow> infer_var (mk_ctx as ls) i = get_nth as (unat i)"
  by (simp add: infer_var_def Let_def split: option.splits)

lemma weakening:
  assumes "infer (mk_ctx (G1 @ G2) ls) t = Some \<phi>" "letTensor_free t" "length ls \<noteq> 1"
    "fits (length G1 + length D + length G2) t"
  shows "infer (mk_ctx (G1 @ D @ G2) ls) (shift t (of_nat (length D)) (of_nat (length G1))) = Some \<phi>"
  using assms
proof (induction t arbitrary: G1 \<phi>)
  case (Var i)
  from Var.prems have i: "get_nth (G1 @ G2) (unat i) = Some \<phi>"
    by (simp add: infer_var_additive)
  from Var.prems(4) have b: "length G1 < 2 ^ 31" "length D < 2 ^ 31"
    by simp_all
  from i have "unat i < length G1 + length G2" by (auto simp: get_nth_Some)
  with Var.prems(4) have "unat (of_nat (unat i + length D) :: u32) = unat i + length D"
    by (intro unat_u32_small) (simp only: fits_simps)
  with i Var.prems(3) show ?case
    by (auto simp: shift_var_nat [OF b] infer_var_additive get_nth_append
      simp del: shift.simps split: if_splits)
next
  case (Lam p b)
  from Lam.prems Lam.IH [of "p # G1"] show ?case
    by (auto simp: u32_step bind_eq_Some_conv simp del: of_nat_Suc)
next
  case (SaysBind p m b)
  from SaysBind.prems SaysBind.IH(1) SaysBind.IH(2) [of "_ # G1"] show ?case
    by (fastforce simp: u32_step bind_eq_Some_conv simp del: of_nat_Suc)
next
  case (LetSays p m b)
  from LetSays.prems LetSays.IH(1) LetSays.IH(2) [of "_ # G1"] show ?case
    by (fastforce simp: u32_step bind_eq_Some_conv simp del: of_nat_Suc)
next
  case (Case m l r)
  from Case.prems Case.IH(1) Case.IH(2,3) [of "_ # G1"] show ?case
    by (fastforce simp: u32_step bind_eq_Some_conv simp del: of_nat_Suc split: prod.splits)
qed (auto simp: bind_eq_Some_conv split: prod.splits if_splits)

section \<open>Substitution\<close>

lemma substitution:
  assumes "infer (mk_ctx (G1 @ \<psi> # G2) ls) t = Some \<phi>" "infer (mk_ctx G2 ls) v = Some \<psi>"
    "letTensor_free t" "letTensor_free v" "length ls \<noteq> 1"
    "fits (length G1 + Suc (length G2) + bdepth v) t"
  shows "infer (mk_ctx (G1 @ G2) ls) (subst_at t v (of_nat (length G1))) = Some \<phi>"
  using assms(1,3,6)
proof (induction t arbitrary: G1 \<phi>)
  case (Var i)
  from Var.prems assms(5) have i: "get_nth (G1 @ \<psi> # G2) (unat i) = Some \<phi>"
    by (simp add: infer_var_additive)
  from Var.prems(3) have b: "length G1 < 2 ^ 31" by simp
  have v: "infer (mk_ctx (G1 @ G2) ls) (shift v (of_nat (length G1)) 0) = Some \<psi>"
    using weakening [of "[]" G2 ls v \<psi> G1] assms(2,4,5) Var.prems(3)
    by (simp add: fits_def)
  consider "unat i < length G1" | "unat i = length G1" | "length G1 < unat i" by linarith
  then show ?case
  proof cases
    case 1
    with i assms(5) show ?thesis
      by (simp add: subst_var_nat [OF b] infer_var_additive get_nth_append del: subst_at.simps)
  next
    case 2
    with i v show ?thesis
      by (simp add: subst_var_nat [OF b] get_nth_append del: subst_at.simps)
  next
    case 3
    from i have "unat i < length G1 + Suc (length G2)" by (auto simp: get_nth_Some)
    with Var.prems(3) have "unat (of_nat (unat i - 1) :: u32) = unat i - 1"
      by (intro unat_u32_small) simp
    moreover from 3 obtain k where "unat i = length G1 + Suc k"
      by (metis add_Suc_right less_iff_Suc_add)
    ultimately show ?thesis using i assms(5)
      by (simp add: subst_var_nat [OF b] infer_var_additive get_nth_append del: subst_at.simps)
  qed
next
  case (Lam p b)
  from Lam.prems Lam.IH [of "p # G1"] show ?case
    by (auto simp: u32_step bind_eq_Some_conv simp del: of_nat_Suc)
next
  case (SaysBind p m b)
  from SaysBind.prems SaysBind.IH(1) SaysBind.IH(2) [of "_ # G1"] show ?case
    by (fastforce simp: u32_step bind_eq_Some_conv simp del: of_nat_Suc)
next
  case (LetSays p m b)
  from LetSays.prems LetSays.IH(1) LetSays.IH(2) [of "_ # G1"] show ?case
    by (fastforce simp: u32_step bind_eq_Some_conv simp del: of_nat_Suc)
next
  case (Case m l r)
  from Case.prems Case.IH(1) Case.IH(2,3) [of "_ # G1"] show ?case
    by (fastforce simp: u32_step bind_eq_Some_conv simp del: of_nat_Suc split: prod.splits)
qed (auto simp: bind_eq_Some_conv split: prod.splits if_splits)

lemma subst_typing:
  assumes "infer (cons_a \<Gamma> \<psi>) t = Some \<phi>" "infer \<Gamma> v = Some \<psi>"
    "letTensor_free t" "letTensor_free v" "length (linear \<Gamma>) \<noteq> 1"
    "fits (Suc (length (additive \<Gamma>)) + bdepth v) t"
  shows "infer \<Gamma> (subst t v) = Some \<phi>"
proof -
  obtain as ls where \<Gamma>: "\<Gamma> = mk_ctx as ls" by (metis mk_ctx_cong)
  show ?thesis
    using substitution [of "[]" \<psi> as ls t \<phi> v] assms by (simp add: \<Gamma> subst_def)
qed

section \<open>A two-valued reading\<close>

text \<open>
  Every proposition is read as a truth value; \<open>p says \<phi>\<close> holds when the atoms
  of \<open>p\<close> are among the parties in \<open>S\<close> and \<open>\<phi>\<close> holds.  All rules but \<open>attenuate\<close>
  preserve truth, as long as the terms' signers are in \<open>S\<close>.  No rule introduces falsity,
  an atom, a delegation or a linear implication, nor eliminates falsity or a linear
  implication, so \<open>I\<close> may read each of these as it likes.
\<close>

primrec atoms :: "principal \<Rightarrow> principal_id set" where
  "atoms (Atom_p i) = {i}"
| "atoms (And_p a b) = atoms a \<union> atoms b"
| "atoms (Or_p a b) = atoms a \<union> atoms b"
| "atoms (Acting a b) = atoms a \<union> atoms b"

primrec holds :: "(dprop \<Rightarrow> bool) \<Rightarrow> principal_id set \<Rightarrow> dprop \<Rightarrow> bool" where
  "holds I S Top \<longleftrightarrow> True"
| "holds I S Bot \<longleftrightarrow> I Bot"
| "holds I S (Atom n) \<longleftrightarrow> I (Atom n)"
| "holds I S (Imp a b) \<longleftrightarrow> (holds I S a \<longrightarrow> holds I S b)"
| "holds I S (And a b) \<longleftrightarrow> holds I S a \<and> holds I S b"
| "holds I S (Or a b) \<longleftrightarrow> holds I S a \<or> holds I S b"
| "holds I S (Says p a) \<longleftrightarrow> atoms p \<subseteq> S \<and> holds I S a"
| "holds I S (SpeaksFor p q) \<longleftrightarrow> I (SpeaksFor p q)"
| "holds I S (At a l) \<longleftrightarrow> holds I S a"
| "holds I S (Boxed ob a) \<longleftrightarrow> holds I S a"
| "holds I S (Within t a) \<longleftrightarrow> holds I S a"
| "holds I S (Tensor a b) \<longleftrightarrow> holds I S a \<and> holds I S b"
| "holds I S (Lolli a b) \<longleftrightarrow> I (Lolli a b)"
| "holds I S (Replicated a l) \<longleftrightarrow> holds I S a"

definition signers :: "trm \<Rightarrow> principal_id set" where
  "signers t = (\<Union>s \<in> set (subterms t). case s of Sign p m sg \<Rightarrow> atoms p | _ \<Rightarrow> {})"

definition ctx_holds :: "(dprop \<Rightarrow> bool) \<Rightarrow> principal_id set \<Rightarrow> ctx \<Rightarrow> bool" where
  "ctx_holds I S \<Gamma> \<longleftrightarrow> (\<forall>\<phi> \<in> set (additive \<Gamma>) \<union> set (linear \<Gamma>). holds I S \<phi>)"

lemma ctx_holds_simps [simp]:
  "ctx_holds I S (cons_a \<Gamma> \<phi>) \<longleftrightarrow> holds I S \<phi> \<and> ctx_holds I S \<Gamma>"
  "ctx_holds I S (cons_l \<Gamma> \<phi>) \<longleftrightarrow> holds I S \<phi> \<and> ctx_holds I S \<Gamma>"
  "ctx_holds I S ctx_empty"
  by (auto simp: ctx_holds_def ctx_empty_def)

lemma signers_simps [simp]:
  "signers (Var i) = {}"
  "signers (Lam \<phi> b) = signers b"
  "signers (App f x) = signers f \<union> signers x"
  "signers (Sign p m s) = atoms p \<union> signers m"
  "signers (Verify p m s) = signers m"
  "signers (Delegate m x) = signers m \<union> signers x"
  "signers (Attenuate m \<phi>) = signers m"
  "signers (SaysBind p m b) = signers m \<union> signers b"
  "signers (Boxed_t ob m x) = signers m \<union> signers x"
  "signers (Discharge m x) = signers m \<union> signers x"
  "signers (LiftLabel l m) = signers m"
  "signers (Declassify l m x) = signers m \<union> signers x"
  "signers (Now t) = {}"
  "signers (WithinIntro t m) = signers m"
  "signers (Pair_t m x) = signers m \<union> signers x"
  "signers (Fst m) = signers m"
  "signers (Snd m) = signers m"
  "signers (Inl_t \<phi> m) = signers m"
  "signers (Inr_t \<phi> m) = signers m"
  "signers (Case m f x) = signers m \<union> signers f \<union> signers x"
  "signers (TensorIntro m x) = signers m \<union> signers x"
  "signers (LetTensor m b) = signers m \<union> signers b"
  "signers (LetSays p m b) = signers m \<union> signers b"
  "signers (SfExtract m) = signers m"
  "signers (Command m x l) = signers m \<union> signers x"
  "signers (RunCmd m x) = signers m \<union> signers x"
  by (simp_all add: signers_def Un_assoc)

text \<open>What the success of each arm says of the types it was given.\<close>

lemma infer_iffs [ok_elim]:
  "imp_elim a b = Some c \<longleftrightarrow> a = Imp b c"
  "says_elim p a = Some c \<longleftrightarrow> a = Says p c"
  "delegate_says a b = Some c \<longleftrightarrow>
     (\<exists>p q \<phi>. a = Says p (SpeaksFor q p) \<and> b = Says q \<phi> \<and> c = Says (Acting p q) \<phi>)"
  "attenuate_says \<psi> a = Some c \<longleftrightarrow> (\<exists>p \<phi>. a = Says p \<phi> \<and> c = Says p \<psi>)"
  "boxed_elim a = Some c \<longleftrightarrow> (\<exists>ob. a = Boxed ob c)"
  "relabel l a = Some c \<longleftrightarrow> (\<exists>\<phi> l'. a = At \<phi> l' \<and> c = At \<phi> l)"
  "and_elim1 a = Some c \<longleftrightarrow> (\<exists>\<psi>. a = And c \<psi>)"
  "and_elim2 a = Some c \<longleftrightarrow> (\<exists>\<phi>. a = And \<phi> c)"
  "or_parts a = Some d \<longleftrightarrow> a = Or (fst d) (snd d)"
  "same_type a b = Some c \<longleftrightarrow> a = c \<and> b = c"
  "tensor_parts a = Some d \<longleftrightarrow> a = Tensor (fst d) (snd d)"
  "sf_elim a = Some c \<longleftrightarrow> (\<exists>p q. a = Says p (SpeaksFor q p) \<and> c = SpeaksFor q p)"
  "commit_intro l a = Some c \<longleftrightarrow> (\<exists>\<phi>. a = Imp \<phi> \<phi> \<and> c = Replicated (Imp \<phi> \<phi>) l)"
  "is_says a = Some u \<longleftrightarrow> (\<exists>p \<phi>. a = Says p \<phi>)"
  "replicated_parts a = Some e \<longleftrightarrow> a = Replicated (Imp (fst e) (fst e)) (snd e)"
  by (auto simp: infer_helpers split: dprop.splits if_splits)

lemmas infer_elims = bind_eq_Some_conv infer_iffs

lemma infer_sound:
  assumes "infer \<Gamma> t = Some \<phi>" "attenuate_free t" "signers t \<subseteq> S" "ctx_holds I S \<Gamma>"
  shows "holds I S \<phi>"
  using assms
proof (induction t arbitrary: \<Gamma> \<phi>)
  case (Var i)
  then show ?case
    by (auto simp: infer_var_def Let_def ctx_holds_def get_nth_def split: if_splits option.splits)
next
  case (Case m l r)
  then obtain a b where "infer \<Gamma> m = Some (Or a b)" "infer (cons_a \<Gamma> a) l = Some \<phi>"
    "infer (cons_a \<Gamma> b) r = Some \<phi>" by (auto simp: infer_elims split: prod.splits)
  with Case.IH(1) [of \<Gamma> "Or a b"] Case.IH(2) [of "cons_a \<Gamma> a"] Case.IH(3) [of "cons_a \<Gamma> b"]
    Case.prems(2-) show ?case by auto
next
  case (SaysBind p m b)
  then obtain a \<psi> where "infer \<Gamma> m = Some (Says p a)" "infer (cons_a \<Gamma> a) b = Some \<psi>"
    "\<phi> = Says p \<psi>" by (auto simp: infer_elims)
  with SaysBind.IH(1) [of \<Gamma> "Says p a"] SaysBind.IH(2) [of "cons_a \<Gamma> a" \<psi>] SaysBind.prems(2-)
  show ?case by auto
next
  case (LetSays p m b)
  then obtain a where "infer \<Gamma> m = Some (Says p a)" "infer (cons_a \<Gamma> a) b = Some \<phi>"
    by (auto simp: infer_elims)
  with LetSays.IH(1) [of \<Gamma> "Says p a"] LetSays.IH(2) [of "cons_a \<Gamma> a" \<phi>] LetSays.prems(2-)
  show ?case by auto
next
  case (LetTensor m b)
  then obtain c d where "infer \<Gamma> m = Some (Tensor c d)"
    "infer (cons_l (cons_l \<Gamma> c) d) b = Some \<phi>" by (auto simp: infer_elims split: prod.splits)
  with LetTensor.IH(1) [of \<Gamma> "Tensor c d"] LetTensor.IH(2) [of "cons_l (cons_l \<Gamma> c) d" \<phi>]
    LetTensor.prems(2-) show ?case by auto
next
  case (Lam \<psi> b)
  then obtain c where "infer (cons_a \<Gamma> \<psi>) b = Some c" "\<phi> = Imp \<psi> c" by (auto simp: infer_elims)
  with Lam.IH [of "cons_a \<Gamma> \<psi>" c] Lam.prems(2-) show ?case by auto
next
  case (App f x)
  then obtain a where "infer \<Gamma> f = Some (Imp a \<phi>)" "infer \<Gamma> x = Some a"
    by (auto simp: infer_elims)
  with App.IH(1) [of \<Gamma> "Imp a \<phi>"] App.IH(2) [of \<Gamma> a] App.prems(2-) show ?case by auto
next
  case (RunCmd v s)
  then obtain a l where "infer \<Gamma> s = Some a" "\<phi> = At a l"
    by (auto simp: infer_elims split: prod.splits if_splits)
  with RunCmd.IH(2) [of \<Gamma> a] RunCmd.prems(2-) show ?case by auto
next
  case (Command m c l)
  then obtain a where "infer \<Gamma> m = Some (Imp a a)" "\<phi> = Replicated (Imp a a) l"
    by (auto simp: infer_elims)
  then show ?case by auto
next
  case (Delegate m n)
  then obtain p q a where "infer \<Gamma> m = Some (Says p (SpeaksFor q p))"
    "infer \<Gamma> n = Some (Says q a)" "\<phi> = Says (Acting p q) a" by (auto simp: infer_elims)
  with Delegate.IH(1) [of \<Gamma> "Says p (SpeaksFor q p)"] Delegate.IH(2) [of \<Gamma> "Says q a"]
    Delegate.prems(2-) show ?case by auto
qed (force simp: infer_elims)+

section \<open>Linear hypotheses\<close>

text \<open>Hypotheses in a linear context that is not a singleton are out of reach.\<close>

lemma linear_unused: "infer (mk_ctx as (l1 # l2 # ls)) t = infer (mk_ctx as []) t"
proof (induction t arbitrary: as l1 l2 ls)
  case (Var i)
  then show ?case by (simp add: infer_var_additive)
qed simp_all

section \<open>Properties\<close>

text \<open>Without \<open>Attenuate\<close> the checker is consistent: it accepts no closed proof of falsity.\<close>

theorem checker_consistent:
  assumes "attenuate_free t"
  shows "infer ctx_empty t \<noteq> Some Bot"
  using infer_sound [of ctx_empty t Bot "signers t" "\<lambda>\<phi>. \<phi> \<noteq> Bot"] assms by auto

theorem checker_consistent_witness:
  "infer ctx_empty (Lam Bot (Var 0)) = Some (Imp Bot Bot) \<and> infer ctx_empty (Lam Bot (Var 0)) \<noteq> Some Bot"
  using checker_consistent [of "Lam Bot (Var 0)"] by (simp add: infer_var_def)

text \<open>Unforgeability.  A closed proof without \<open>Attenuate\<close> of \<open>p says \<phi>\<close> contains a
  \<open>Sign\<close> node for every atomic party of \<open>p\<close>: nobody is quoted without having signed.\<close>

theorem says_needs_signers:
  assumes "infer ctx_empty t = Some (Says p \<phi>)" "attenuate_free t"
  shows "atoms p \<subseteq> signers t"
  using infer_sound [OF assms(1,2), of "signers t" "\<lambda>_. True"] by simp

theorem says_needs_signers_witness:
  "atoms (Acting (Atom_p (PrincipalId [1])) (Atom_p (PrincipalId [2]))) \<subseteq>
     signers (Sign (Acting (Atom_p (PrincipalId [1])) (Atom_p (PrincipalId [2])))
       (Now \<lparr>epoch_ms = 7\<rparr>) \<lparr>sig_alg = 0, sig_bytes = []\<rparr>)"
  by (rule says_needs_signers [of _ _ Top]) simp_all

text \<open>With \<open>Attenuate\<close>, whose side condition the code does not check, one signature by
  any \<open>p\<close> proves every proposition, falsity and the sayings of others included.\<close>

theorem attenuate_proves_everything:
  "infer ctx_empty (Verify p (Attenuate (Sign p (Now tau) sg) \<phi>) sh) = Some \<phi>"
  by (simp add: attenuate_says_def says_elim_def)

text \<open>\<open>LetTensor\<close> binds nothing that its body can use: the body is checked as if the two
  linear hypotheses, and any other, were absent.\<close>

theorem letTensor_binds_nothing:
  "infer \<Gamma> (LetTensor s b) = Some \<chi> \<longleftrightarrow>
     (\<exists>\<phi> \<psi>. infer \<Gamma> s = Some (Tensor \<phi> \<psi>)) \<and>
     infer \<lparr>additive = additive \<Gamma>, linear = []\<rparr> b = Some \<chi>"
proof -
  have "infer (cons_l (cons_l \<Gamma> \<phi>) \<psi>) b = infer \<lparr>additive = additive \<Gamma>, linear = []\<rparr> b" for \<phi> \<psi>
    using linear_unused [of "additive \<Gamma>" \<psi> \<phi> "linear \<Gamma>" b]
    by (cases \<Gamma>) (simp add: mk_ctx_def cons_l_def)
  then show ?thesis by (auto simp: infer_elims split: prod.splits)
qed

end
