(* ===== verification/Reduce.thy ===== *)
theory Reduce
  imports Typing
begin

text \<open>
  Small-step reduction (\<open>crates/dlc-core/src/reduce.rs\<close>): \<open>step\<close> with its head
  rules and congruences, the fuelled loop \<open>reduce_with_fuel\<close>, subject reduction
  for terms without \<open>LetTensor\<close>, and progress for closed terms.
\<close>

section \<open>Reduction\<close>

primrec step :: "trm \<Rightarrow> trm option" where
  "step (App f x) = (case f of
     Lam \<phi> body \<Rightarrow> Some (subst body x)
   | _ \<Rightarrow> (case step f of Some f2 \<Rightarrow> Some (App f2 x) | None \<Rightarrow> None))"
| "step (Fst m) = (case m of
     Pair_t a b \<Rightarrow> Some a
   | _ \<Rightarrow> (case step m of Some m2 \<Rightarrow> Some (Fst m2) | None \<Rightarrow> None))"
| "step (Snd m) = (case m of
     Pair_t a b \<Rightarrow> Some b
   | _ \<Rightarrow> (case step m of Some m2 \<Rightarrow> Some (Snd m2) | None \<Rightarrow> None))"
| "step (Case s l r) = (case s of
     Inl_t \<phi> a \<Rightarrow> Some (subst l a)
   | Inr_t \<phi> a \<Rightarrow> Some (subst r a)
   | _ \<Rightarrow> (case step s of Some s2 \<Rightarrow> Some (Case s2 l r) | None \<Rightarrow> None))"
| "step (LetTensor s body) = (case s of
     TensorIntro a b \<Rightarrow> Some (subst (subst body (shift a 1 0)) b)
   | _ \<Rightarrow> (case step s of Some s2 \<Rightarrow> Some (LetTensor s2 body) | None \<Rightarrow> None))"
| "step (SaysBind p s body) = (case s of
     Sign p2 m sg \<Rightarrow> if p = p2 then Some (subst body m) else None
   | _ \<Rightarrow> (case step s of Some s2 \<Rightarrow> Some (SaysBind p s2 body) | None \<Rightarrow> None))"
| "step (LetSays p s body) = (case s of
     Sign p2 m sg \<Rightarrow> if p = p2 then Some (subst body m) else None
   | _ \<Rightarrow> (case step s of Some s2 \<Rightarrow> Some (LetSays p s2 body) | None \<Rightarrow> None))"
| "step (SfExtract m) = (case m of
     Sign p inner sg \<Rightarrow> Some inner
   | _ \<Rightarrow> (case step m of Some m2 \<Rightarrow> Some (SfExtract m2) | None \<Rightarrow> None))"
| "step (Delegate m n) = (case (m, n) of
     (Sign p m_inner sig_p, Sign q n_inner sig_q) \<Rightarrow> Some (Sign (Acting p q) n_inner sig_q)
   | (Sign p m_inner sig_p, _) \<Rightarrow>
       (case step n of Some n2 \<Rightarrow> Some (Delegate m n2) | None \<Rightarrow> None)
   | _ \<Rightarrow> (case step m of Some m2 \<Rightarrow> Some (Delegate m2 n) | None \<Rightarrow> None))"
| "step (Discharge m p) = (case m of
     Boxed_t ob inner evidence \<Rightarrow> Some inner
   | _ \<Rightarrow> (case step m of Some m2 \<Rightarrow> Some (Discharge m2 p) | None \<Rightarrow> None))"
| "step (RunCmd v s) = (case v of
     Command m c l \<Rightarrow> Some (LiftLabel l (App m s))
   | _ \<Rightarrow> (case step v of Some v2 \<Rightarrow> Some (RunCmd v2 s) | None \<Rightarrow> None))"
| "step (Var i) = None"
| "step (Lam \<phi> b) = None"
| "step (Sign p m sg) = None"
| "step (Verify p m sg) = None"
| "step (Attenuate m \<psi>) = None"
| "step (Boxed_t ob m n) = None"
| "step (LiftLabel l m) = None"
| "step (Declassify l m p) = None"
| "step (Now t) = None"
| "step (WithinIntro t m) = None"
| "step (Pair_t a b) = None"
| "step (Inl_t \<phi> a) = None"
| "step (Inr_t \<phi> a) = None"
| "step (TensorIntro a b) = None"
| "step (Command m c l) = None"

text \<open>
  The \<open>for n in 0..fuel\<close> loop: \<open>n\<close> counts up while the first argument, the
  iterations left, counts down.
\<close>

fun reduce_loop :: "nat \<Rightarrow> u32 \<Rightarrow> u32 \<Rightarrow> trm \<Rightarrow> trm \<times> u32" where
  "reduce_loop 0 n fuel cur = (cur, fuel)"
| "reduce_loop (Suc k) n fuel cur =
     (case step cur of
        Some nxt \<Rightarrow> reduce_loop k (n + 1) fuel nxt
      | None \<Rightarrow> (cur, n))"

definition reduce_with_fuel :: "trm \<Rightarrow> u32 \<Rightarrow> trm \<times> u32" where
  "reduce_with_fuel t fuel = reduce_loop (unat fuel) 0 fuel t"

section \<open>The rules as a relation\<close>

text \<open>The \<open>step\<close> of an elimination form is a head step or a step of its scrutinee.\<close>

lemma step_App_cases:
  "step (App f x) = Some t \<longleftrightarrow>
     (\<exists>\<phi> b. f = Lam \<phi> b \<and> t = subst b x) \<or> (\<exists>f2. step f = Some f2 \<and> t = App f2 x)"
  by (cases f) (auto split: option.splits)

lemma step_Fst_cases:
  "step (Fst m) = Some t \<longleftrightarrow>
     (\<exists>b. m = Pair_t t b) \<or> (\<exists>m2. step m = Some m2 \<and> t = Fst m2)"
  by (cases m) (auto split: option.splits)

lemma step_Snd_cases:
  "step (Snd m) = Some t \<longleftrightarrow>
     (\<exists>a. m = Pair_t a t) \<or> (\<exists>m2. step m = Some m2 \<and> t = Snd m2)"
  by (cases m) (auto split: option.splits)

lemma step_Case_cases:
  "step (Case m l r) = Some t \<longleftrightarrow>
     (\<exists>\<phi> a. m = Inl_t \<phi> a \<and> t = subst l a) \<or> (\<exists>\<phi> a. m = Inr_t \<phi> a \<and> t = subst r a) \<or>
     (\<exists>m2. step m = Some m2 \<and> t = Case m2 l r)"
  by (cases m) (auto split: option.splits)

lemma step_LetTensor_cases:
  "step (LetTensor m c) = Some t \<longleftrightarrow>
     (\<exists>a b. m = TensorIntro a b \<and> t = subst (subst c (shift a 1 0)) b) \<or>
     (\<exists>m2. step m = Some m2 \<and> t = LetTensor m2 c)"
  by (cases m) (auto split: option.splits)

lemma step_SaysBind_cases:
  "step (SaysBind p m b) = Some t \<longleftrightarrow>
     (\<exists>a sg. m = Sign p a sg \<and> t = subst b a) \<or> (\<exists>m2. step m = Some m2 \<and> t = SaysBind p m2 b)"
  by (cases m) (auto split: option.splits)

lemma step_LetSays_cases:
  "step (LetSays p m b) = Some t \<longleftrightarrow>
     (\<exists>a sg. m = Sign p a sg \<and> t = subst b a) \<or> (\<exists>m2. step m = Some m2 \<and> t = LetSays p m2 b)"
  by (cases m) (auto split: option.splits)

lemma step_SfExtract_cases:
  "step (SfExtract m) = Some t \<longleftrightarrow>
     (\<exists>p sg. m = Sign p t sg) \<or> (\<exists>m2. step m = Some m2 \<and> t = SfExtract m2)"
  by (cases m) (auto split: option.splits)

lemma step_Discharge_cases:
  "step (Discharge m x) = Some t \<longleftrightarrow>
     (\<exists>ob e. m = Boxed_t ob t e) \<or> (\<exists>m2. step m = Some m2 \<and> t = Discharge m2 x)"
  by (cases m) (auto split: option.splits)

lemma step_RunCmd_cases:
  "step (RunCmd m x) = Some t \<longleftrightarrow>
     (\<exists>a c l. m = Command a c l \<and> t = LiftLabel l (App a x)) \<or>
     (\<exists>m2. step m = Some m2 \<and> t = RunCmd m2 x)"
  by (cases m) (auto split: option.splits)

lemma step_Delegate_cases:
  "step (Delegate m x) = Some t \<longleftrightarrow>
     (\<exists>p a sg q b sh. m = Sign p a sg \<and> x = Sign q b sh \<and> t = Sign (Acting p q) b sh) \<or>
     (\<exists>p a sg x2. m = Sign p a sg \<and> step x = Some x2 \<and> t = Delegate m x2) \<or>
     (\<exists>m2. step m = Some m2 \<and> t = Delegate m2 x)"
proof (cases m)
  case (Sign p a sg)
  then show ?thesis by (cases x) (auto split: option.splits)
qed (auto split: option.splits)

lemmas step_cases = step_App_cases step_Fst_cases step_Snd_cases step_Case_cases step_SaysBind_cases
  step_LetSays_cases step_SfExtract_cases step_Discharge_cases step_RunCmd_cases
  step_LetTensor_cases step_Delegate_cases

text \<open>The reduction rules of the calculus, head rules first.\<close>

inductive red :: "trm \<Rightarrow> trm \<Rightarrow> bool" where
  beta: "red (App (Lam \<phi> b) x) (subst b x)"
| fst_pair: "red (Fst (Pair_t a b)) a"
| snd_pair: "red (Snd (Pair_t a b)) b"
| case_inl: "red (Case (Inl_t \<phi> a) l r) (subst l a)"
| case_inr: "red (Case (Inr_t \<phi> a) l r) (subst r a)"
| let_tensor: "red (LetTensor (TensorIntro a b) c) (subst (subst c (shift a 1 0)) b)"
| says_bind: "red (SaysBind p (Sign p a sg) b) (subst b a)"
| let_says: "red (LetSays p (Sign p a sg) b) (subst b a)"
| sf_extract: "red (SfExtract (Sign p a sg)) a"
| delegate: "red (Delegate (Sign p a sg) (Sign q b sh)) (Sign (Acting p q) b sh)"
| discharge: "red (Discharge (Boxed_t ob a e) x) a"
| run_cmd: "red (RunCmd (Command a c l) x) (LiftLabel l (App a x))"
| xi_app: "red f f' \<Longrightarrow> red (App f x) (App f' x)"
| xi_fst: "red m m' \<Longrightarrow> red (Fst m) (Fst m')"
| xi_snd: "red m m' \<Longrightarrow> red (Snd m) (Snd m')"
| xi_case: "red m m' \<Longrightarrow> red (Case m l r) (Case m' l r)"
| xi_let_tensor: "red m m' \<Longrightarrow> red (LetTensor m c) (LetTensor m' c)"
| xi_says_bind: "red m m' \<Longrightarrow> red (SaysBind p m b) (SaysBind p m' b)"
| xi_let_says: "red m m' \<Longrightarrow> red (LetSays p m b) (LetSays p m' b)"
| xi_sf_extract: "red m m' \<Longrightarrow> red (SfExtract m) (SfExtract m')"
| xi_delegate1: "red m m' \<Longrightarrow> red (Delegate m x) (Delegate m' x)"
| xi_delegate2: "red x x' \<Longrightarrow> red (Delegate (Sign p a sg) x) (Delegate (Sign p a sg) x')"
| xi_discharge: "red m m' \<Longrightarrow> red (Discharge m x) (Discharge m' x)"
| xi_run_cmd: "red m m' \<Longrightarrow> red (RunCmd m x) (RunCmd m' x)"

lemma red_step: "red t u \<Longrightarrow> step t = Some u"
  by (induction rule: red.induct) (simp_all only: step_cases, auto)

lemma step_red: "step t = Some u \<Longrightarrow> red t u"
proof (induction t arbitrary: u)
  case (App f x)
  then show ?case unfolding step_cases by (auto intro: red.intros)
next
  case (Fst m)
  then show ?case unfolding step_cases by (auto intro: red.intros)
next
  case (Snd m)
  then show ?case unfolding step_cases by (auto intro: red.intros)
next
  case (Case m l r)
  then show ?case unfolding step_cases by (auto intro: red.intros)
next
  case (LetTensor m c)
  then show ?case unfolding step_cases by (auto intro: red.intros)
next
  case (SaysBind p m b)
  then show ?case unfolding step_cases by (auto intro: red.intros)
next
  case (LetSays p m b)
  then show ?case unfolding step_cases by (auto intro: red.intros)
next
  case (SfExtract m)
  then show ?case unfolding step_cases by (auto intro: red.intros)
next
  case (Delegate m x)
  then show ?case unfolding step_cases by (auto intro: red.intros)
next
  case (Discharge m x)
  then show ?case unfolding step_cases by (auto intro: red.intros)
next
  case (RunCmd m x)
  then show ?case unfolding step_cases by (auto intro: red.intros)
qed simp_all

section \<open>Subject reduction\<close>

lemma bdepth_subst: "bdepth (subst t v) \<le> bdepth t + bdepth v"
  by (simp add: subst_def bdepth_subst_at)

lemma free_subst:
  "letTensor_free t \<Longrightarrow> letTensor_free v \<Longrightarrow> letTensor_free (subst t v)"
  "saysBind_free t \<Longrightarrow> saysBind_free v \<Longrightarrow> saysBind_free (subst t v)"
  "attenuate_free t \<Longrightarrow> attenuate_free v \<Longrightarrow> attenuate_free (subst t v)"
  by (simp_all add: subst_def letTensor_free_subst_at saysBind_free_subst_at
      attenuate_free_subst_at)

lemma red_free:
  "red t u \<Longrightarrow> letTensor_free t \<Longrightarrow> letTensor_free u"
  "red t u \<Longrightarrow> saysBind_free t \<Longrightarrow> saysBind_free u"
  "red t u \<Longrightarrow> attenuate_free t \<Longrightarrow> attenuate_free u"
  by (induction rule: red.induct) (auto intro!: free_subst)

lemma red_bdepth: "red t u \<Longrightarrow> letTensor_free t \<Longrightarrow> bdepth u \<le> 2 * bdepth t"
proof (induction rule: red.induct)
  case (beta \<phi> b x)
  show ?case using bdepth_subst [of b x] by (simp add: max_def)
next
  case (case_inl \<phi> a l r)
  show ?case using bdepth_subst [of l a] by (simp add: max_def)
next
  case (case_inr \<phi> a l r)
  show ?case using bdepth_subst [of r a] by (simp add: max_def)
next
  case (says_bind p a sg b)
  show ?case using bdepth_subst [of b a] by (simp add: max_def)
next
  case (let_says p a sg b)
  show ?case using bdepth_subst [of b a] by (simp add: max_def)
qed (simp_all add: max_def)

text \<open>A head step substitutes within the bounds of the substitution lemma.\<close>

lemma subst_typing_bound:
  assumes "infer (cons_a \<Gamma> \<psi>) b = Some \<phi>" "infer \<Gamma> x = Some \<psi>" "letTensor_free b" "letTensor_free x"
    "length (linear \<Gamma>) \<noteq> 1" "length (additive \<Gamma>) + 2 * n < 2 ^ 31"
    "Suc (bdepth b) \<le> n" "bdepth x \<le> n"
  shows "infer \<Gamma> (subst b x) = Some \<phi>"
proof (rule subst_typing [OF assms(1-5)])
  have "length (additive \<Gamma>) + (Suc (bdepth b) + bdepth x) < 2 ^ 31"
    using assms(6-8) by linarith
  then show "fits (Suc (length (additive \<Gamma>)) + bdepth x) b" by (simp add: fits_def)
qed

lemma red_typing:
  assumes "red t u" "infer \<Gamma> t = Some \<phi>" "letTensor_free t" "saysBind_free t"
    "length (linear \<Gamma>) \<noteq> 1" "length (additive \<Gamma>) + 2 * bdepth t < 2 ^ 31"
  shows "infer \<Gamma> u = Some \<phi>"
  using assms(1-4,6)
proof (induction arbitrary: \<phi> rule: red.induct)
  case (beta \<psi> b x)
  show ?case
    by (rule subst_typing_bound [where n = "bdepth (App (Lam \<psi> b) x)"])
      (use beta assms(5) in \<open>auto simp: infer_elims\<close>)
next
  case (case_inl \<psi> a l r)
  then obtain \<chi> where c: "infer \<Gamma> a = Some \<chi>" "infer (cons_a \<Gamma> \<chi>) l = Some \<phi>"
    by (auto simp: infer_elims split: prod.splits)
  show ?case
    by (rule subst_typing_bound [OF c(2,1), where n = "bdepth (Case (Inl_t \<psi> a) l r)"])
      (use case_inl assms(5) in auto)
next
  case (case_inr \<psi> a l r)
  then obtain \<chi> where c: "infer \<Gamma> a = Some \<chi>" "infer (cons_a \<Gamma> \<chi>) r = Some \<phi>"
    by (auto simp: infer_elims split: prod.splits)
  show ?case
    by (rule subst_typing_bound [OF c(2,1), where n = "bdepth (Case (Inr_t \<psi> a) l r)"])
      (use case_inr assms(5) in auto)
next
  case (let_says p a sg b)
  then obtain \<chi> where c: "infer \<Gamma> a = Some \<chi>" "infer (cons_a \<Gamma> \<chi>) b = Some \<phi>"
    by (auto simp: infer_elims)
  show ?case
    by (rule subst_typing_bound [OF c(2,1), where n = "bdepth (LetSays p (Sign p a sg) b)"])
      (use let_says assms(5) in auto)
qed (fastforce simp: infer_elims max_def split: prod.splits if_splits)+

section \<open>Normal forms\<close>

definition is_value :: "trm \<Rightarrow> bool" where
  "is_value t = (case t of
     Lam \<phi> b \<Rightarrow> True | Sign p m sg \<Rightarrow> True | Boxed_t ob m n \<Rightarrow> True | LiftLabel l m \<Rightarrow> True
   | Now tau \<Rightarrow> True | WithinIntro tau m \<Rightarrow> True | Pair_t a b \<Rightarrow> True | Inl_t \<phi> a \<Rightarrow> True
   | Inr_t \<phi> a \<Rightarrow> True | TensorIntro a b \<Rightarrow> True | Command m c l \<Rightarrow> True
   | _ \<Rightarrow> False)"

text \<open>
  Evaluation is blocked when its next redex is one of the eliminations that the
  verifier layers check and reduction leaves alone.
\<close>

primrec blocked :: "trm \<Rightarrow> bool" where
  "blocked (Verify p m sg) \<longleftrightarrow> True"
| "blocked (Attenuate m \<psi>) \<longleftrightarrow> True"
| "blocked (Declassify l m p) \<longleftrightarrow> True"
| "blocked (App f x) \<longleftrightarrow> blocked f"
| "blocked (Fst m) \<longleftrightarrow> blocked m"
| "blocked (Snd m) \<longleftrightarrow> blocked m"
| "blocked (Case s l r) \<longleftrightarrow> blocked s"
| "blocked (LetTensor s b) \<longleftrightarrow> blocked s"
| "blocked (SaysBind p s b) \<longleftrightarrow> blocked s"
| "blocked (LetSays p s b) \<longleftrightarrow> blocked s"
| "blocked (SfExtract m) \<longleftrightarrow> blocked m"
| "blocked (Delegate m n) \<longleftrightarrow>
     blocked m \<or> (case m of Sign p a sg \<Rightarrow> blocked n | _ \<Rightarrow> False)"
| "blocked (Discharge m p) \<longleftrightarrow> blocked m"
| "blocked (RunCmd v s) \<longleftrightarrow> blocked v"
| "blocked (Var i) \<longleftrightarrow> False"
| "blocked (Lam \<phi> b) \<longleftrightarrow> False"
| "blocked (Sign p m sg) \<longleftrightarrow> False"
| "blocked (Boxed_t ob m n) \<longleftrightarrow> False"
| "blocked (LiftLabel l m) \<longleftrightarrow> False"
| "blocked (Now t) \<longleftrightarrow> False"
| "blocked (WithinIntro t m) \<longleftrightarrow> False"
| "blocked (Pair_t a b) \<longleftrightarrow> False"
| "blocked (Inl_t \<phi> a) \<longleftrightarrow> False"
| "blocked (Inr_t \<phi> a) \<longleftrightarrow> False"
| "blocked (TensorIntro a b) \<longleftrightarrow> False"
| "blocked (Command m c l) \<longleftrightarrow> False"

lemma red_not_value: "red t u \<Longrightarrow> \<not> is_value t"
  by (induction rule: red.induct) (simp_all add: is_value_def)

lemma red_not_blocked: "red t u \<Longrightarrow> \<not> blocked t"
proof (induction rule: red.induct)
  case (xi_delegate1 m m' x)
  from red_not_value [OF xi_delegate1.hyps] xi_delegate1.IH show ?case
    by (cases m) (simp_all add: is_value_def)
qed simp_all

lemma step_None_iff: "step t = None \<longleftrightarrow> (\<nexists>u. red t u)"
  by (metis not_None_eq red_step step_red option.distinct(1))

lemma infer_var_empty [simp]: "infer_var ctx_empty i = None"
  by (simp add: infer_var_def ctx_empty_def)

text \<open>The closed values of each type an elimination form inspects.\<close>

lemma canonical_forms:
  assumes "is_value t"
  shows "infer ctx_empty t = Some (Imp a b) \<Longrightarrow> \<exists>c. t = Lam a c"
    "infer ctx_empty t = Some (And a b) \<Longrightarrow> \<exists>c d. t = Pair_t c d"
    "infer ctx_empty t = Some (Or a b) \<Longrightarrow> (\<exists>\<phi> c. t = Inl_t \<phi> c) \<or> (\<exists>\<phi> c. t = Inr_t \<phi> c)"
    "infer ctx_empty t = Some (Tensor a b) \<Longrightarrow> \<exists>c d. t = TensorIntro c d"
    "infer ctx_empty t = Some (Says p a) \<Longrightarrow> \<exists>c sg. t = Sign p c sg"
    "infer ctx_empty t = Some (Boxed ob a) \<Longrightarrow> \<exists>c d. t = Boxed_t ob c d"
    "infer ctx_empty t = Some (Replicated a l) \<Longrightarrow> \<exists>m c. t = Command m c l"
  using assms by (cases t; auto simp: is_value_def infer_elims)+

lemma progress_red:
  assumes "infer ctx_empty t = Some \<phi>"
  shows "is_value t \<or> blocked t \<or> (\<exists>u. red t u)"
  using assms
proof (induction t arbitrary: \<phi>)
  case (App f x)
  then obtain a where f: "infer ctx_empty f = Some (Imp a \<phi>)" by (auto simp: infer_elims)
  from App.IH(1) [OF f] canonical_forms(1) [OF _ f] show ?case
    by (auto intro: red.intros)
next
  case (Fst m)
  then obtain b where m: "infer ctx_empty m = Some (And \<phi> b)" by (auto simp: infer_elims)
  from Fst.IH [OF m] canonical_forms(2) [OF _ m] show ?case by (auto intro: red.intros)
next
  case (Snd m)
  then obtain a where m: "infer ctx_empty m = Some (And a \<phi>)" by (auto simp: infer_elims)
  from Snd.IH [OF m] canonical_forms(2) [OF _ m] show ?case by (auto intro: red.intros)
next
  case (Case m l r)
  then obtain a b where m: "infer ctx_empty m = Some (Or a b)"
    by (auto simp: infer_elims split: prod.splits)
  from Case.IH(1) [OF m] canonical_forms(3) [OF _ m] show ?case by (auto intro: red.intros)
next
  case (LetTensor m c)
  then obtain a b where m: "infer ctx_empty m = Some (Tensor a b)"
    by (auto simp: infer_elims split: prod.splits)
  from LetTensor.IH(1) [OF m] canonical_forms(4) [OF _ m] show ?case by (auto intro: red.intros)
next
  case (SaysBind p m b)
  then obtain a where m: "infer ctx_empty m = Some (Says p a)" by (auto simp: infer_elims)
  from SaysBind.IH(1) [OF m] canonical_forms(5) [OF _ m] show ?case by (auto intro: red.intros)
next
  case (LetSays p m b)
  then obtain a where m: "infer ctx_empty m = Some (Says p a)" by (auto simp: infer_elims)
  from LetSays.IH(1) [OF m] canonical_forms(5) [OF _ m] show ?case by (auto intro: red.intros)
next
  case (SfExtract m)
  then obtain p a where m: "infer ctx_empty m = Some (Says p a)" by (auto simp: infer_elims)
  from SfExtract.IH [OF m] canonical_forms(5) [OF _ m] show ?case by (auto intro: red.intros)
next
  case (Delegate m n)
  then obtain p q a where m: "infer ctx_empty m = Some (Says p (SpeaksFor q p))"
    and n: "infer ctx_empty n = Some (Says q a)" by (auto simp: infer_elims)
  from Delegate.IH(1) [OF m] Delegate.IH(2) [OF n] canonical_forms(5) [OF _ m]
    canonical_forms(5) [OF _ n] show ?case by (auto intro: red.intros)
next
  case (Discharge m x)
  then obtain ob where m: "infer ctx_empty m = Some (Boxed ob \<phi>)" by (auto simp: infer_elims)
  from Discharge.IH(1) [OF m] canonical_forms(6) [OF _ m] show ?case by (auto intro: red.intros)
next
  case (RunCmd v s)
  then obtain a l where v: "infer ctx_empty v = Some (Replicated a l)"
    by (auto simp: infer_elims split: prod.splits)
  from RunCmd.IH(1) [OF v] canonical_forms(7) [OF _ v] show ?case by (auto intro: red.intros)
qed (simp_all add: is_value_def)

section \<open>The loop\<close>

lemma red_deterministic: "red t u \<Longrightarrow> red t u' \<Longrightarrow> u = u'"
  by (metis red_step option.inject)

lemma red_pow_deterministic: "(red ^^ k) t u \<Longrightarrow> (red ^^ k) t u' \<Longrightarrow> u = u'"
proof (induction k arbitrary: u u')
  case (Suc k)
  then obtain v v' where "(red ^^ k) t v" "red v u" "(red ^^ k) t v'" "red v' u'" by auto
  with Suc.IH show ?case by (metis red_deterministic)
qed simp

text \<open>A reduction that ends in a normal form is the longest one.\<close>

lemma red_pow_normal:
  assumes "(red ^^ k) t u" "step u = None" "(red ^^ j) t w"
  shows "j \<le> k"
proof (rule ccontr)
  assume "\<not> j \<le> k"
  then obtain d where "j = k + Suc d" by (metis add_Suc_right less_iff_Suc_add not_le)
  with assms(3) obtain v w' where "(red ^^ k) t v" "red v w'"
    by (metis relpowp_add relcomppE relpowp_Suc_E2)
  with assms(1,2) show False by (metis red_pow_deterministic red_step option.distinct(1))
qed

lemma reduce_loop_steps:
  "\<exists>j u. reduce_loop k n (n + of_nat k) t = (u, n + of_nat j) \<and> j \<le> k \<and> (red ^^ j) t u \<and>
     (j = k \<or> step u = None)"
proof (induction k arbitrary: n t)
  case 0
  then show ?case by simp
next
  case (Suc k)
  show ?case
  proof (cases "step t")
    case None
    then have "reduce_loop (Suc k) n (n + of_nat (Suc k)) t = (t, n + of_nat 0)" by simp
    with None show ?thesis by (metis relpowp_0_I le0)
  next
    case (Some v)
    from Suc.IH [of "n + 1" v] obtain j u where
      "reduce_loop k (n + 1) (n + 1 + of_nat k) v = (u, n + 1 + of_nat j)" "j \<le> k"
      "(red ^^ j) v u" "j = k \<or> step u = None" by blast
    moreover from calculation(3) Some have "(red ^^ Suc j) t u"
      by (intro relpowp_Suc_I2 step_red)
    ultimately show ?thesis using Some
      by (intro exI [of _ "Suc j"] exI [of _ u]) (auto simp: add.assoc simp del: relpowp.simps)
  qed
qed

lemma reduce_with_fuel_steps:
  obtains j u where "reduce_with_fuel t fuel = (u, of_nat j)" "j \<le> unat fuel" "(red ^^ j) t u"
    "j = unat fuel \<or> step u = None"
  using reduce_loop_steps [of "unat fuel" 0 t] by (auto simp: reduce_with_fuel_def)

lemma red_pow_typing:
  assumes "(red ^^ k) t u" "infer \<Gamma> t = Some \<phi>" "letTensor_free t" "saysBind_free t"
    "length (linear \<Gamma>) \<noteq> 1" "length (additive \<Gamma>) + 2 ^ k * bdepth t < 2 ^ 31"
  shows "infer \<Gamma> u = Some \<phi> \<and> letTensor_free u \<and> saysBind_free u \<and> bdepth u \<le> 2 ^ k * bdepth t"
  using assms(1,6)
proof (induction k arbitrary: u)
  case 0
  with assms show ?case by simp
next
  case (Suc k)
  from Suc.prems(1) obtain v where v: "(red ^^ k) t v" "red v u" by auto
  from Suc.prems(2) have b: "length (additive \<Gamma>) + 2 * (2 ^ k * bdepth t) < 2 ^ 31"
    by (simp add: mult.assoc)
  then have "length (additive \<Gamma>) + 2 ^ k * bdepth t < 2 ^ 31" by linarith
  with Suc.IH [OF v(1)] have IH: "infer \<Gamma> v = Some \<phi>" "letTensor_free v" "saysBind_free v"
    "bdepth v \<le> 2 ^ k * bdepth t" by auto
  with b have "length (additive \<Gamma>) + 2 * bdepth v < 2 ^ 31" by linarith
  with red_typing [OF v(2) IH(1-3) assms(5)] red_free(1,2) [OF v(2)] red_bdepth [OF v(2) IH(2)] IH
  show ?case by (auto simp: mult.assoc)
qed

lemma reduce_with_fuel_char:
  "reduce_with_fuel t fuel = (u, n) \<longleftrightarrow>
     (red ^^ unat n) t u \<and> (n = fuel \<or> n < fuel \<and> step u = None)"
proof -
  obtain j v where j: "reduce_with_fuel t fuel = (v, of_nat j)" "j \<le> unat fuel" "(red ^^ j) t v"
    "j = unat fuel \<or> step v = None" by (rule reduce_with_fuel_steps)
  from j(2) have unat_j: "unat (of_nat j :: u32) = j"
    using unsigned_less [of fuel, where ?'a = nat]
    by (simp add: unat_of_nat take_bit_nat_eq_self)
  have "j = unat n" "v = u" if n: "(red ^^ unat n) t u" "n = fuel \<or> n < fuel \<and> step u = None"
  proof -
    have "unat n \<le> j" using j(3,4) n red_pow_normal [OF j(3) _ n(1)]
      by (auto simp: word_less_nat_alt)
    moreover have "j \<le> unat n" using j(2) n(2) red_pow_normal [OF n(1) _ j(3)] by auto
    ultimately show "j = unat n" by simp
    with j(3) n(1) show "v = u" by (auto dest: red_pow_deterministic)
  qed
  with j unat_j show ?thesis
    by (auto simp: word_eq_unat word_less_nat_alt)
qed

section \<open>Properties\<close>

text \<open>C40: \<open>step\<close> computes exactly the reduction relation: it takes the one step the rules
  allow, and it returns \<open>None\<close> exactly on terms that no rule reduces.\<close>

theorem step_iff_red:
  "(step t = Some u \<longleftrightarrow> red t u) \<and> (step t = None \<longleftrightarrow> (\<nexists>u. red t u))"
  using red_step step_red step_None_iff by blast

text \<open>C4: subject reduction.  Outside \<open>LetTensor\<close> and \<open>SaysBind\<close>, in a context that does not hold
  exactly one linear hypothesis, a step keeps the inferred proposition, as long as the indices the
  step computes fit in 31 bits.  (With exactly one, a step that removes a binder can bring it into
  reach or put it out of reach.)\<close>

theorem step_preserves_type:
  assumes "infer \<Gamma> t = Some \<phi>" "step t = Some u" "letTensor_free t" "saysBind_free t"
    "length (linear \<Gamma>) \<noteq> 1" "length (additive \<Gamma>) + 2 * bdepth t < 2 ^ 31"
  shows "infer \<Gamma> u = Some \<phi>"
  using red_typing [OF step_red [OF assms(2)] assms(1,3-6)] .

theorem step_preserves_type_witness:
  "step (App (Lam Top (Pair_t (Var 0) (Var 0))) (Now \<lparr>epoch_ms = 5\<rparr>)) =
     Some (Pair_t (Now \<lparr>epoch_ms = 5\<rparr>) (Now \<lparr>epoch_ms = 5\<rparr>)) \<and>
   infer ctx_empty (Pair_t (Now \<lparr>epoch_ms = 5\<rparr>) (Now \<lparr>epoch_ms = 5\<rparr>)) = Some (And Top Top)"
  using step_preserves_type [of ctx_empty
      "App (Lam Top (Pair_t (Var 0) (Var 0))) (Now \<lparr>epoch_ms = 5\<rparr>)" "And Top Top"
      "Pair_t (Now \<lparr>epoch_ms = 5\<rparr>) (Now \<lparr>epoch_ms = 5\<rparr>)"]
  by (simp add: imp_elim_def infer_var_def subst_def ctx_empty_def)

text \<open>C9: progress.  A closed well-typed term is a value, is blocked on a form that only the
  verifier checks, or steps.\<close>

theorem progress:
  assumes "infer ctx_empty t = Some \<phi>"
  shows "is_value t \<or> blocked t \<or> (\<exists>u. step t = Some u)"
  using progress_red [OF assms] red_step by blast

theorem progress_witness:
  "\<exists>u. step (Fst (Pair_t (Now \<lparr>epoch_ms = 5\<rparr>) (Now \<lparr>epoch_ms = 6\<rparr>))) = Some u"
  using progress [of "Fst (Pair_t (Now \<lparr>epoch_ms = 5\<rparr>) (Now \<lparr>epoch_ms = 6\<rparr>))" Top]
  by (simp add: and_elim1_def is_value_def)

text \<open>\<open>reduce_with_fuel\<close> returns the term reached and the number of steps taken: it stops
  before the fuel is used up exactly when it has reached a normal form.\<close>

theorem reduce_with_fuel_iff:
  "reduce_with_fuel t fuel = (u, n) \<longleftrightarrow>
     (red ^^ unat n) t u \<and> (n = fuel \<or> n < fuel \<and> step u = None)"
  by (rule reduce_with_fuel_char)

text \<open>Evaluation keeps the type: whatever \<open>reduce_with_fuel\<close> returns after \<open>n\<close> steps has
  the inferred proposition of the term it started from.\<close>

theorem reduce_with_fuel_preserves_type:
  assumes "reduce_with_fuel t fuel = (u, n)" "infer \<Gamma> t = Some \<phi>" "letTensor_free t"
    "saysBind_free t" "length (linear \<Gamma>) \<noteq> 1"
    "length (additive \<Gamma>) + 2 ^ unat n * bdepth t < 2 ^ 31"
  shows "infer \<Gamma> u = Some \<phi>"
proof -
  from assms(1) have "(red ^^ unat n) t u" unfolding reduce_with_fuel_char by (rule conjunct1)
  from red_pow_typing [OF this assms(2-6)] show ?thesis by (rule conjunct1)
qed

theorem reduce_with_fuel_preserves_type_witness:
  "reduce_with_fuel (Fst (Fst (Pair_t (Pair_t (Now \<lparr>epoch_ms = 5\<rparr>) (Now \<lparr>epoch_ms = 6\<rparr>)) (Now \<lparr>epoch_ms = 7\<rparr>)))) 9
     = (Now \<lparr>epoch_ms = 5\<rparr>, 2) \<and>
   infer ctx_empty (Now \<lparr>epoch_ms = 5\<rparr>) = Some Top"
proof -
  let ?t = "Fst (Fst (Pair_t (Pair_t (Now \<lparr>epoch_ms = 5\<rparr>) (Now \<lparr>epoch_ms = 6\<rparr>)) (Now \<lparr>epoch_ms = 7\<rparr>)))"
  have r: "reduce_with_fuel ?t 9 = (Now \<lparr>epoch_ms = 5\<rparr>, 2)"
    by (simp add: reduce_with_fuel_def) (simp add: numeral_eq_Suc)
  with reduce_with_fuel_preserves_type [OF r, of ctx_empty Top] show ?thesis
    by (simp add: and_elim1_def ctx_empty_def)
qed

text \<open>Subject reduction fails for \<open>LetTensor\<close>: the body's index 0 is checked as the first
  additive hypothesis, and the step puts a component of the pair in its place.\<close>

theorem letTensor_breaks_preservation:
  "\<exists>u. infer \<lparr>additive = [\<phi>], linear = []\<rparr>
         (LetTensor (TensorIntro (Now tau) (Now tau)) (Var 0)) = Some \<phi> \<and>
       step (LetTensor (TensorIntro (Now tau) (Now tau)) (Var 0)) = Some u \<and>
       infer \<lparr>additive = [\<phi>], linear = []\<rparr> u = Some Top"
  by (simp add: infer_var_def tensor_parts_def cons_l_def subst_def)

text \<open>Subject reduction fails for \<open>SaysBind\<close>: it is typed as keeping the modality and
  reduces as \<open>LetSays\<close>, which drops it.\<close>

theorem saysBind_breaks_preservation:
  assumes "infer ctx_empty m = Some \<phi>" "closed_at 0 m" "fits 0 m"
  shows "infer ctx_empty (SaysBind p (Sign p m sg) (Var 0)) = Some (Says p \<phi>) \<and>
    step (SaysBind p (Sign p m sg) (Var 0)) = Some m \<and> infer ctx_empty m \<noteq> Some (Says p \<phi>)"
proof -
  have "shift m 0 0 = m" using shift_closed [of 0 m 0] assms(2,3) by simp
  moreover have "\<phi> \<noteq> Says p \<phi>" by (metis add_cancel_right_right dprop.size(21) nat.distinct(1) add.commute plus_1_eq_Suc)
  ultimately show ?thesis using assms(1)
    by (simp add: says_elim_def subst_def infer_var_def ctx_empty_def cons_a_def)
qed

theorem saysBind_breaks_preservation_witness:
  "\<exists>p sg. infer ctx_empty (SaysBind p (Sign p (Now \<lparr>epoch_ms = 1\<rparr>) sg) (Var 0)) = Some (Says p Top) \<and>
     step (SaysBind p (Sign p (Now \<lparr>epoch_ms = 1\<rparr>) sg) (Var 0)) = Some (Now \<lparr>epoch_ms = 1\<rparr>)"
proof -
  have "infer ctx_empty (Now \<lparr>epoch_ms = 1\<rparr>) = Some Top" "closed_at 0 (Now \<lparr>epoch_ms = 1\<rparr>)"
    "fits 0 (Now \<lparr>epoch_ms = 1\<rparr>)" by simp_all
  from saysBind_breaks_preservation [OF this] show ?thesis by blast
qed

text \<open>The truncation \<open>shifted as u32\<close> captures: a value whose free index is the largest
  \<open>u32\<close> becomes the innermost bound variable when it is substituted under a binder.\<close>

theorem shift_truncation_captures:
  "step (App (Lam \<phi> (Lam \<psi> (Var 1))) (Var 0xFFFFFFFF)) = Some (Lam \<psi> (Var 0))"
  by (simp add: subst_def)

end
