(* ===== verification/Wire.thy ===== *)
theory Wire
  imports Cbor_Instance Reduce
begin

text \<open>
  The wire format of proof terms, propositions and keyrings
  (\<open>crates/dlc-protocol/src/wire.rs\<close>): the encoders to CBOR items, the decoders with
  the panics of their unchecked indexing, and the byte-level interface on top of a
  CBOR writer and reader.
\<close>

section \<open>Encoders\<close>

definition u32_int :: "u32 \<Rightarrow> cbor" where
  "u32_int n = CInt (uint n)"

definition u64_int :: "u64 \<Rightarrow> cbor" where
  "u64_int n = CInt (uint n)"

definition enc_principal_id :: "principal_id \<Rightarrow> cbor" where
  "enc_principal_id p = CBytes (pid_bytes p)"

primrec enc_principal :: "principal \<Rightarrow> cbor" where
  "enc_principal (Atom_p i) = CArr [CInt 0, enc_principal_id i]"
| "enc_principal (And_p a b) = CArr [CInt 1, enc_principal a, enc_principal b]"
| "enc_principal (Or_p a b) = CArr [CInt 2, enc_principal a, enc_principal b]"
| "enc_principal (Acting a b) = CArr [CInt 3, enc_principal a, enc_principal b]"

definition enc_label :: "label \<Rightarrow> cbor" where
  "enc_label l = CArr (map u32_int (caps l))"

definition enc_time :: "time_bound \<Rightarrow> cbor" where
  "enc_time t = u64_int (epoch_ms t)"

definition enc_dp_budget :: "dp_budget \<Rightarrow> cbor" where
  "enc_dp_budget b = CArr [u64_int (epsilon_micros b), u64_int (delta_micros b)]"

primrec enc_obligation :: "obligation \<Rightarrow> cbor" where
  "enc_obligation Top_o = CArr [CInt 0]"
| "enc_obligation Bot_o = CArr [CInt 1]"
| "enc_obligation (ActOf p a) = CArr [CInt 2, enc_principal p, CBytes (action_bytes a)]"
| "enc_obligation (Within_o t) = CArr [CInt 3, enc_time t]"
| "enc_obligation (Tensor_o a b) = CArr [CInt 4, enc_obligation a, enc_obligation b]"
| "enc_obligation (Lolli_o a b) = CArr [CInt 5, enc_obligation a, enc_obligation b]"
| "enc_obligation (DpBudget_o b) = CArr [CInt 6, enc_dp_budget b]"

primrec enc_prop :: "dprop \<Rightarrow> cbor" where
  "enc_prop Top = CArr [CInt 0]"
| "enc_prop Bot = CArr [CInt 1]"
| "enc_prop (Atom n) = CArr [CInt 2, u32_int n]"
| "enc_prop (Imp a b) = CArr [CInt 3, enc_prop a, enc_prop b]"
| "enc_prop (And a b) = CArr [CInt 4, enc_prop a, enc_prop b]"
| "enc_prop (Or a b) = CArr [CInt 5, enc_prop a, enc_prop b]"
| "enc_prop (Says p q) = CArr [CInt 6, enc_principal p, enc_prop q]"
| "enc_prop (SpeaksFor p q) = CArr [CInt 7, enc_principal p, enc_principal q]"
| "enc_prop (At a l) = CArr [CInt 8, enc_prop a, enc_label l]"
| "enc_prop (Boxed ob a) = CArr [CInt 9, enc_obligation ob, enc_prop a]"
| "enc_prop (Within t a) = CArr [CInt 10, enc_time t, enc_prop a]"
| "enc_prop (Tensor a b) = CArr [CInt 11, enc_prop a, enc_prop b]"
| "enc_prop (Lolli a b) = CArr [CInt 12, enc_prop a, enc_prop b]"
| "enc_prop (Replicated a l) = CArr [CInt 13, enc_prop a, enc_label l]"

definition enc_signature :: "signature \<Rightarrow> cbor" where
  "enc_signature s = CArr [CInt (uint (sig_alg s)), CBytes (sig_bytes s)]"

primrec enc_term :: "trm \<Rightarrow> cbor" where
  "enc_term (Var i) = CArr [CInt 0, u32_int i]"
| "enc_term (Lam p b) = CArr [CInt 1, enc_prop p, enc_term b]"
| "enc_term (App f x) = CArr [CInt 2, enc_term f, enc_term x]"
| "enc_term (Sign p m s) = CArr [CInt 3, enc_principal p, enc_term m, enc_signature s]"
| "enc_term (Verify p m s) = CArr [CInt 4, enc_principal p, enc_term m, enc_signature s]"
| "enc_term (Delegate m n) = CArr [CInt 5, enc_term m, enc_term n]"
| "enc_term (Attenuate m p) = CArr [CInt 6, enc_term m, enc_prop p]"
| "enc_term (Discharge m n) = CArr [CInt 7, enc_term m, enc_term n]"
| "enc_term (LiftLabel l m) = CArr [CInt 8, enc_label l, enc_term m]"
| "enc_term (Declassify l m p) = CArr [CInt 9, enc_label l, enc_term m, enc_term p]"
| "enc_term (Now t) = CArr [CInt 10, enc_time t]"
| "enc_term (WithinIntro t m) = CArr [CInt 11, enc_time t, enc_term m]"
| "enc_term (Pair_t a b) = CArr [CInt 12, enc_term a, enc_term b]"
| "enc_term (Fst a) = CArr [CInt 13, enc_term a]"
| "enc_term (Snd a) = CArr [CInt 14, enc_term a]"
| "enc_term (Inl_t p a) = CArr [CInt 15, enc_prop p, enc_term a]"
| "enc_term (Inr_t p a) = CArr [CInt 16, enc_prop p, enc_term a]"
| "enc_term (Case s l r) = CArr [CInt 17, enc_term s, enc_term l, enc_term r]"
| "enc_term (TensorIntro a b) = CArr [CInt 18, enc_term a, enc_term b]"
| "enc_term (LetTensor s b) = CArr [CInt 19, enc_term s, enc_term b]"
| "enc_term (LetSays p s b) = CArr [CInt 20, enc_principal p, enc_term s, enc_term b]"
| "enc_term (SfExtract m) = CArr [CInt 21, enc_term m]"
| "enc_term (SaysBind p s b) = CArr [CInt 23, enc_principal p, enc_term s, enc_term b]"
| "enc_term (Boxed_t ob m n) = CArr [CInt 22, enc_obligation ob, enc_term m, enc_term n]"
| "enc_term (Command m c l) = CArr [CInt 24, enc_term m, enc_term c, enc_label l]"
| "enc_term (RunCmd v s) = CArr [CInt 25, enc_term v, enc_term s]"

section \<open>Decoders\<close>

definition dec_principal_id :: "cbor \<Rightarrow> protocol_error + principal_id" where
  "dec_principal_id v = and_then (bytes_of v) (\<lambda>b.
     if length b = 32 then Inr (PrincipalId b)
     else Inl (Cbor ''principal id must be 32 bytes''))"

text \<open>An array whose first element is the tag of a constructor.\<close>

lemma arr_size: "arr v = Inr a \<Longrightarrow> x \<in> set a \<Longrightarrow> size x < size v"
  by (auto simp: ok_elim dest: size_list_estimation' [where f = size and y = "size x"])

function dec_principal :: "cbor \<Rightarrow> protocol_error + principal" where
  "dec_principal v = and_then (arr v) (\<lambda>a. and_then (field a 0 tag) (\<lambda>t.
     if t = 0 then build1 Atom_p (field a 1 dec_principal_id)
     else if t = 1 then build2 And_p (field a 1 dec_principal) (field a 2 dec_principal)
     else if t = 2 then build2 Or_p (field a 1 dec_principal) (field a 2 dec_principal)
     else if t = 3 then build2 Acting (field a 1 dec_principal) (field a 2 dec_principal)
     else Inl (Cbor (''bad principal tag '' @ show_nat (unat t)))))"
  by pat_completeness auto
termination by (relation "measure size") (auto intro: arr_size)

declare dec_principal.simps [simp del]

definition dec_label :: "cbor \<Rightarrow> protocol_error + label" where
  "dec_label v = and_then (arr v) (\<lambda>a. build1 Label (collect_results u32_of a))"

definition dec_time :: "cbor \<Rightarrow> protocol_error + time_bound" where
  "dec_time v = and_then (u64_of v) (\<lambda>n. Inr \<lparr>epoch_ms = n\<rparr>)"

definition dec_dp_budget :: "cbor \<Rightarrow> protocol_error + dp_budget" where
  "dec_dp_budget v = and_then (arr v) (\<lambda>a.
     and_then (field a 0 u64_of) (\<lambda>e. and_then (field a 1 u64_of) (\<lambda>d.
       Inr \<lparr>epsilon_micros = e, delta_micros = d\<rparr>)))"

function dec_obligation :: "cbor \<Rightarrow> protocol_error + obligation" where
  "dec_obligation v = and_then (arr v) (\<lambda>a. and_then (field a 0 tag) (\<lambda>t.
     if t = 0 then Inr Top_o
     else if t = 1 then Inr Bot_o
     else if t = 2 then build2 ActOf (field a 1 dec_principal) (field a 2 (\<lambda>v. build1 ActionId (bytes_of v)))
     else if t = 3 then build1 Within_o (field a 1 dec_time)
     else if t = 4 then build2 Tensor_o (field a 1 dec_obligation) (field a 2 dec_obligation)
     else if t = 5 then build2 Lolli_o (field a 1 dec_obligation) (field a 2 dec_obligation)
     else if t = 6 then build1 DpBudget_o (field a 1 dec_dp_budget)
     else Inl (Cbor (''bad obligation tag '' @ show_nat (unat t)))))"
  by pat_completeness auto
termination by (relation "measure size") (auto intro: arr_size)

declare dec_obligation.simps [simp del]

function dec_prop :: "cbor \<Rightarrow> protocol_error + dprop" where
  "dec_prop v = and_then (arr v) (\<lambda>a. and_then (field a 0 tag) (\<lambda>t.
     if t = 0 then Inr Top
     else if t = 1 then Inr Bot
     else if t = 2 then build1 Atom (field a 1 u32_of)
     else if t = 3 then build2 Imp (field a 1 dec_prop) (field a 2 dec_prop)
     else if t = 4 then build2 And (field a 1 dec_prop) (field a 2 dec_prop)
     else if t = 5 then build2 Or (field a 1 dec_prop) (field a 2 dec_prop)
     else if t = 6 then build2 Says (field a 1 dec_principal) (field a 2 dec_prop)
     else if t = 7 then build2 SpeaksFor (field a 1 dec_principal) (field a 2 dec_principal)
     else if t = 8 then build2 At (field a 1 dec_prop) (field a 2 dec_label)
     else if t = 9 then build2 Boxed (field a 1 dec_obligation) (field a 2 dec_prop)
     else if t = 10 then build2 Within (field a 1 dec_time) (field a 2 dec_prop)
     else if t = 11 then build2 Tensor (field a 1 dec_prop) (field a 2 dec_prop)
     else if t = 12 then build2 Lolli (field a 1 dec_prop) (field a 2 dec_prop)
     else if t = 13 then build2 Replicated (field a 1 dec_prop) (field a 2 dec_label)
     else Inl (Cbor (''bad prop tag '' @ show_nat (unat t)))))"
  by pat_completeness auto
termination by (relation "measure size") (auto intro: arr_size)

declare dec_prop.simps [simp del]

definition dec_signature :: "cbor \<Rightarrow> protocol_error + signature" where
  "dec_signature v = and_then (arr v) (\<lambda>a.
     and_then (field a 0 u32_of) (\<lambda>g. and_then (field a 1 bytes_of) (\<lambda>b.
       Inr \<lparr>sig_alg = ucast g, sig_bytes = b\<rparr>)))"

function dec_term :: "cbor \<Rightarrow> protocol_error + trm" where
  "dec_term v = and_then (arr v) (\<lambda>a. and_then (field a 0 tag) (\<lambda>t.
     if t = 0 then build1 Var (field a 1 u32_of)
     else if t = 1 then build2 Lam (field a 1 dec_prop) (field a 2 dec_term)
     else if t = 2 then build2 App (field a 1 dec_term) (field a 2 dec_term)
     else if t = 3 then build3 Sign (field a 1 dec_principal) (field a 2 dec_term) (field a 3 dec_signature)
     else if t = 4 then build3 Verify (field a 1 dec_principal) (field a 2 dec_term) (field a 3 dec_signature)
     else if t = 5 then build2 Delegate (field a 1 dec_term) (field a 2 dec_term)
     else if t = 6 then build2 Attenuate (field a 1 dec_term) (field a 2 dec_prop)
     else if t = 7 then build2 Discharge (field a 1 dec_term) (field a 2 dec_term)
     else if t = 8 then build2 LiftLabel (field a 1 dec_label) (field a 2 dec_term)
     else if t = 9 then build3 Declassify (field a 1 dec_label) (field a 2 dec_term) (field a 3 dec_term)
     else if t = 10 then build1 Now (field a 1 dec_time)
     else if t = 11 then build2 WithinIntro (field a 1 dec_time) (field a 2 dec_term)
     else if t = 12 then build2 Pair_t (field a 1 dec_term) (field a 2 dec_term)
     else if t = 13 then build1 Fst (field a 1 dec_term)
     else if t = 14 then build1 Snd (field a 1 dec_term)
     else if t = 15 then build2 Inl_t (field a 1 dec_prop) (field a 2 dec_term)
     else if t = 16 then build2 Inr_t (field a 1 dec_prop) (field a 2 dec_term)
     else if t = 17 then build3 Case (field a 1 dec_term) (field a 2 dec_term) (field a 3 dec_term)
     else if t = 18 then build2 TensorIntro (field a 1 dec_term) (field a 2 dec_term)
     else if t = 19 then build2 LetTensor (field a 1 dec_term) (field a 2 dec_term)
     else if t = 20 then build3 LetSays (field a 1 dec_principal) (field a 2 dec_term) (field a 3 dec_term)
     else if t = 21 then build1 SfExtract (field a 1 dec_term)
     else if t = 23 then build3 SaysBind (field a 1 dec_principal) (field a 2 dec_term) (field a 3 dec_term)
     else if t = 22 then build3 Boxed_t (field a 1 dec_obligation) (field a 2 dec_term) (field a 3 dec_term)
     else if t = 24 then build3 Command (field a 1 dec_term) (field a 2 dec_term) (field a 3 dec_label)
     else if t = 25 then build2 RunCmd (field a 1 dec_term) (field a 2 dec_term)
     else Inl (Cbor (''bad term tag '' @ show_nat (unat t)))))"
  by pat_completeness auto
termination by (relation "measure size") (auto intro: arr_size)

declare dec_term.simps [simp del]

section \<open>Round trips of items\<close>

lemma u32_int_back [simp]: "u32_of (u32_int n) = Inr n"
  by (simp add: u32_int_def)

lemma u64_int_back [simp]: "u64_of (u64_int n) = Inr n"
  by (simp add: u64_int_def)

lemma dec_principal_id_enc [roundtrip]: "wf_pid p \<Longrightarrow> dec_principal_id (enc_principal_id p) = Inr p"
  by (simp add: dec_principal_id_def enc_principal_id_def wf_pid_def)

lemma dec_principal_enc [roundtrip]: "wf_principal p \<Longrightarrow> dec_principal (enc_principal p) = Inr p"
  by (induction p) (simp_all add: dec_principal.simps roundtrip)

lemma dec_label_enc [roundtrip]: "dec_label (enc_label l) = Inr l"
  by (simp add: dec_label_def enc_label_def collect_results_id)

lemma dec_time_enc [roundtrip]: "dec_time (enc_time t) = Inr t"
  by (simp add: dec_time_def enc_time_def)

lemma dec_dp_budget_enc [roundtrip]: "dec_dp_budget (enc_dp_budget b) = Inr b"
  by (simp add: dec_dp_budget_def enc_dp_budget_def)

lemma dec_obligation_enc [roundtrip]: "wf_obligation ob \<Longrightarrow> dec_obligation (enc_obligation ob) = Inr ob"
  by (induction ob) (simp_all add: dec_obligation.simps roundtrip)

lemma dec_prop_enc [roundtrip]: "wf_prop p \<Longrightarrow> dec_prop (enc_prop p) = Inr p"
  by (induction p) (simp_all add: dec_prop.simps roundtrip)

lemma ucast_alg [simp]: "ucast (ucast (g :: u8) :: u32) = g"
  using unsigned_less [of g, where ?'a = nat]
  by (simp add: word_eq_unat unsigned_ucast_eq take_bit_nat_eq_self take_bit_word_eq_self)

lemma dec_signature_enc [roundtrip]: "dec_signature (enc_signature s) = Inr s"
  by (simp add: dec_signature_def enc_signature_def)

lemma dec_term_enc [roundtrip]: "wf_trm t \<Longrightarrow> dec_term (enc_term t) = Inr t"
  by (induction t) (simp_all add: dec_term.simps roundtrip)

interpretation principal_codec: codec enc_principal dec_principal wf_principal
  by unfold_locales (rule dec_principal_enc)

interpretation label_codec: codec enc_label dec_label "\<lambda>_. True"
  by unfold_locales (rule dec_label_enc)

interpretation obligation_codec: codec enc_obligation dec_obligation wf_obligation
  by unfold_locales (rule dec_obligation_enc)

interpretation prop_codec: codec enc_prop dec_prop wf_prop
  by unfold_locales (rule dec_prop_enc)

interpretation term_codec: codec enc_term dec_term wf_trm
  by unfold_locales (rule dec_term_enc)

section \<open>Bytes\<close>

text \<open>
  The first argument is the CBOR writer (for the encoders) or reader (for the
  decoders).
\<close>

definition encode :: "(cbor \<Rightarrow> bytes) \<Rightarrow> trm \<Rightarrow> bytes" where
  "encode cw t = cw (enc_term t)"

definition decode :: "(bytes \<Rightarrow> string + cbor) \<Rightarrow> bytes \<Rightarrow> protocol_error + trm" where
  "decode cr bs = (case cr bs of Inl e \<Rightarrow> Inl (Cbor e) | Inr v \<Rightarrow> dec_term v)"

definition canonical_bytes :: "(cbor \<Rightarrow> bytes) \<Rightarrow> trm \<Rightarrow> bytes" where
  "canonical_bytes cw t = encode cw t"

definition encode_prop :: "(cbor \<Rightarrow> bytes) \<Rightarrow> dprop \<Rightarrow> bytes" where
  "encode_prop cw p = cw (enc_prop p)"

definition decode_prop :: "(bytes \<Rightarrow> string + cbor) \<Rightarrow> bytes \<Rightarrow> protocol_error + dprop" where
  "decode_prop cr bs = (case cr bs of Inl e \<Rightarrow> Inl (Cbor e) | Inr v \<Rightarrow> dec_prop v)"

definition enc_key_record :: "key_record \<Rightarrow> cbor" where
  "enc_key_record r = CArr [CBytes (pid_bytes (kr_principal r)), CInt (uint (kr_alg r)),
     CBytes (public_key r)]"

definition encode_keyring :: "(cbor \<Rightarrow> bytes) \<Rightarrow> key_ring \<Rightarrow> bytes" where
  "encode_keyring cw k = cw (CArr (map enc_key_record (entries k)))"

text \<open>One row: three fields, a 32-byte id, an algorithm that fits a \<open>u8\<close>, key bytes.\<close>

definition as_array :: "string \<Rightarrow> cbor \<Rightarrow> protocol_error + cbor list" where
  "as_array msg v = (case v of CArr a \<Rightarrow> Inr a | _ \<Rightarrow> Inl (Cbor msg))"

definition as_bytes :: "string \<Rightarrow> cbor \<Rightarrow> protocol_error + bytes" where
  "as_bytes msg v = (case v of CBytes b \<Rightarrow> Inr b | _ \<Rightarrow> Inl (Cbor msg))"

definition as_u8 :: "string \<Rightarrow> cbor \<Rightarrow> protocol_error + u8" where
  "as_u8 msg v = (case v of
     CInt i \<Rightarrow> if 0 \<le> i \<and> i < 256 then Inr (word_of_int i) else Inl (Cbor msg)
   | _ \<Rightarrow> Inl (Cbor msg))"

definition dec_key_record :: "cbor \<Rightarrow> protocol_error + key_record" where
  "dec_key_record row = and_then (as_array ''keyring row: expected array'' row) (\<lambda>a.
     if length a \<noteq> 3 then Inl (Cbor ''keyring row: expected 3 fields'')
     else and_then (as_bytes ''keyring pid: expected bytes'' (a ! 0)) (\<lambda>pid.
       if length pid \<noteq> 32 then Inl (Cbor ''keyring pid: expected 32 bytes'')
       else and_then (as_u8 ''keyring alg: expected u8'' (a ! 1)) (\<lambda>alg.
         and_then (as_bytes ''keyring pk: expected bytes'' (a ! 2)) (\<lambda>pk.
           Inr \<lparr>kr_principal = PrincipalId pid, kr_alg = alg, public_key = pk\<rparr>))))"

definition decode_keyring :: "(bytes \<Rightarrow> string + cbor) \<Rightarrow> bytes \<Rightarrow> protocol_error + key_ring" where
  "decode_keyring cr bs = (case cr bs of
     Inl e \<Rightarrow> Inl (Cbor e)
   | Inr v \<Rightarrow> and_then (as_array ''keyring: expected array'' v) (\<lambda>rows.
       and_then (collect_results dec_key_record rows) (\<lambda>es. Inr \<lparr>entries = es\<rparr>)))"

definition wf_keyring :: "key_ring \<Rightarrow> bool" where
  "wf_keyring k \<longleftrightarrow> (\<forall>r \<in> set (entries k). wf_pid (kr_principal r))"

lemma uint_u8_bounds: "0 \<le> uint (g :: u8)" "uint (g :: u8) < 256"
  using uint_bounded [of g] by simp_all

lemma dec_key_record_enc [roundtrip]:
  "wf_pid (kr_principal r) \<Longrightarrow> dec_key_record (enc_key_record r) = Inr r"
  using uint_u8_bounds [of "kr_alg r"]
  by (simp add: dec_key_record_def enc_key_record_def as_array_def as_bytes_def as_u8_def wf_pid_def)

interpretation key_record_codec:
  codec enc_key_record dec_key_record "\<lambda>r. wf_pid (kr_principal r)"
  by unfold_locales (rule dec_key_record_enc)

section \<open>What the encoders build\<close>

lemma uint_lt_64:
  "uint (n :: u32) < 2 ^ 64" "uint (m :: u64) < 2 ^ 64" "uint (g :: u8) < 2 ^ 64"
  using uint_bounded [of n] uint_bounded [of m] uint_bounded [of g] by simp_all

lemma uint_ge_64: "- (2 ^ 64) \<le> uint (w :: 'a::len word)"
  by (rule order_trans [of _ 0]) simp_all

lemma plain_word [simp]: "plain (u32_int n)" "plain (u64_int m)" "plain (CInt (uint (g :: u8)))"
  using uint_lt_64 uint_ge_64 by (simp_all add: u32_int_def u64_int_def)

lemma plain_small [simp]: "plain (enc_principal_id i)" "plain (enc_label l)" "plain (enc_time t)"
  "plain (enc_dp_budget b)" "plain (enc_signature s)"
  by (auto simp: enc_principal_id_def enc_label_def enc_time_def enc_dp_budget_def
      enc_signature_def simp del: plain.simps(1))

lemma plain_principal [simp]: "plain (enc_principal p)"
  by (induction p) simp_all

lemma plain_obligation [simp]: "plain (enc_obligation ob)"
  by (induction ob) simp_all

lemma plain_prop [simp]: "plain (enc_prop p)"
  by (induction p) simp_all

lemma plain_term [simp]: "plain (enc_term t)"
  by (induction t) simp_all

lemma plain_keyring: "plain (CArr (map enc_key_record (entries (k :: key_ring))))"
  by (auto simp: enc_key_record_def simp del: plain.simps(1))

lemma cbor_codecD: "cbor_codec cw cr n \<Longrightarrow> plain v \<Longrightarrow> cdepth v \<le> n \<Longrightarrow> cr (cw v) = Inr v"
  by (simp add: cbor_codec_def)

lemma cdepth_keyring: "cdepth (CArr (map enc_key_record (entries (k :: key_ring)))) \<le> 2"
proof -
  have "cdepth (CArr (map enc_key_record (entries k))) \<le> Suc 1"
    unfolding cdepth_arr by (auto simp: enc_key_record_def)
  then show ?thesis by simp
qed

lemma decode_encode:
  "cbor_codec cw cr n \<Longrightarrow> wf_trm t \<Longrightarrow> cdepth (enc_term t) \<le> n \<Longrightarrow> decode cr (encode cw t) = Inr t"
  by (simp add: decode_def encode_def cbor_codecD roundtrip)

lemma decode_encode_prop:
  "cbor_codec cw cr n \<Longrightarrow> wf_prop p \<Longrightarrow> cdepth (enc_prop p) \<le> n \<Longrightarrow>
     decode_prop cr (encode_prop cw p) = Inr p"
  by (simp add: decode_prop_def encode_prop_def cbor_codecD roundtrip)

lemma decode_encode_keyring:
  assumes "cbor_codec cw cr n" "2 \<le> n" "wf_keyring k"
  shows "decode_keyring cr (encode_keyring cw k) = Inr k"
  using assms(3) cbor_codecD [OF assms(1) plain_keyring order_trans [OF cdepth_keyring assms(2)]]
  by (simp add: decode_keyring_def encode_keyring_def as_array_def wf_keyring_def
      key_record_codec.dec_enc_list)

section \<open>What the decoders accept\<close>

lemma dec_principal_id_wf: "dec_principal_id v = Inr p \<Longrightarrow> wf_pid p"
  by (auto simp: dec_principal_id_def wf_pid_def ok_elim split: if_splits)

lemma item_size: "i < length a \<Longrightarrow> size (a ! i) < size (CArr a)"
  by (rule arr_size [of "CArr a" a]) simp_all

lemma field_dec_size:
  "field a i dec = Inr r \<longleftrightarrow> i < length a \<and> size (a ! i) < size (CArr a) \<and> dec (a ! i) = Inr r"
  using item_size [of i a] by (auto simp: field_Inr_iff)

lemma dec_principal_wf: "dec_principal v = Inr p \<Longrightarrow> wf_principal p"
proof (induction v arbitrary: p rule: measure_induct_rule [of size])
  case (less v)
  from less.prems show ?case
    by (subst (asm) dec_principal.simps)
      (auto simp: and_then_Inr_iff build_Inr_iff accessor_Inr_iff field_dec_size simp del: cbor.size split: if_splits
        intro: less.IH dec_principal_id_wf)
qed

lemmas dec_wf_simps = and_then_Inr_iff build_Inr_iff accessor_Inr_iff field_dec_size

lemma dec_obligation_wf: "dec_obligation v = Inr ob \<Longrightarrow> wf_obligation ob"
proof (induction v arbitrary: ob rule: measure_induct_rule [of size])
  case (less v)
  from less.prems show ?case
    by (subst (asm) dec_obligation.simps)
      (auto simp: dec_wf_simps simp del: cbor.size split: if_splits
        intro: less.IH dec_principal_wf)
qed

lemma dec_prop_wf: "dec_prop v = Inr p \<Longrightarrow> wf_prop p"
proof (induction v arbitrary: p rule: measure_induct_rule [of size])
  case (less v)
  from less.prems show ?case
    by (subst (asm) dec_prop.simps)
      (auto simp: dec_wf_simps simp del: cbor.size split: if_splits
        intro: less.IH dec_principal_wf dec_obligation_wf)
qed

lemma dec_term_wf: "dec_term v = Inr t \<Longrightarrow> wf_trm t"
proof (induction v arbitrary: t rule: measure_induct_rule [of size])
  case (less v)
  from less.prems show ?case
    by (subst (asm) dec_term.simps)
      (auto simp: dec_wf_simps simp del: cbor.size split: if_splits
        intro: less.IH dec_principal_wf dec_obligation_wf dec_prop_wf)
qed

section \<open>Properties\<close>

text \<open>C8: the wire format loses nothing: decoding the bytes of a term gives the term back, for
  every term whose encoding nests no deeper than the CBOR reader allows.\<close>

theorem term_roundtrip:
  assumes "cbor_codec cw cr limit" "wf_trm t" "cdepth (enc_term t) \<le> limit"
  shows "decode cr (encode cw t) = Inr t"
  using assms by (rule decode_encode)

theorem term_roundtrip_witness:
  "decode (toy_read 256) (encode put (Lam (Atom 7) (App (Var 0) (Now \<lparr>epoch_ms = 5\<rparr>)))) =
     Inr (Lam (Atom 7) (App (Var 0) (Now \<lparr>epoch_ms = 5\<rparr>)))"
  by (rule term_roundtrip [OF toy_codec]) (simp_all add: u32_int_def u64_int_def enc_time_def)

text \<open>C12: the bytes that signatures cover determine the term: two terms within the reader's nesting
  limit have the same canonical bytes only if they are equal.\<close>

theorem canonical_bytes_injective:
  assumes "cbor_codec cw cr limit" "wf_trm t" "wf_trm u"
    "cdepth (enc_term t) \<le> limit" "cdepth (enc_term u) \<le> limit"
  shows "canonical_bytes cw t = canonical_bytes cw u \<longleftrightarrow> t = u"
proof
  assume "canonical_bytes cw t = canonical_bytes cw u"
  then have "decode cr (encode cw t) = decode cr (encode cw u)" by (simp only: canonical_bytes_def)
  then show "t = u"
    unfolding decode_encode [OF assms(1,2,4)] decode_encode [OF assms(1,3,5)] by simp
qed simp

theorem canonical_bytes_injective_witness:
  "canonical_bytes put (Fst (Var 1)) \<noteq> canonical_bytes put (Snd (Var 1))"
  by (subst canonical_bytes_injective [OF toy_codec [of 256]]) (simp_all add: u32_int_def)

text \<open>What \<open>decode\<close> accepts is a term of the Rust type: every principal it mentions has a
  32-byte identifier.\<close>

theorem decode_well_formed:
  assumes "decode cr bs = Inr t"
  shows "wf_trm t"
  using assms by (auto simp: decode_def split: sum.splits intro: dec_term_wf)

theorem decode_well_formed_witness:
  "decode (\<lambda>bs. Inr (enc_term (Var 3))) [] = Inr (Var 3) \<and> wf_trm (Var 3)"
proof -
  have "decode (\<lambda>bs. Inr (enc_term (Var 3))) [] = Inr (Var 3)"
    by (simp add: decode_def roundtrip del: enc_term.simps)
  with decode_well_formed [OF this] show ?thesis by simp
qed

text \<open>A keyring survives its encoding.\<close>

theorem keyring_roundtrip:
  assumes "cbor_codec cw cr limit" "2 \<le> limit" "wf_keyring k"
  shows "decode_keyring cr (encode_keyring cw k) = Inr k"
  using assms by (rule decode_encode_keyring)

theorem keyring_roundtrip_witness:
  "decode_keyring (toy_read 2) (encode_keyring put
     \<lparr>entries = [\<lparr>kr_principal = PrincipalId (replicate 32 9), kr_alg = 0, public_key = [1, 2]\<rparr>]\<rparr>) =
   Inr \<lparr>entries = [\<lparr>kr_principal = PrincipalId (replicate 32 9), kr_alg = 0, public_key = [1, 2]\<rparr>]\<rparr>"
  by (rule keyring_roundtrip [OF toy_codec]) (simp_all add: wf_keyring_def wf_pid_def)

text \<open>The decoders index arrays unchecked: a CBOR array that is too short for its tag makes
  them panic instead of returning an error.\<close>

theorem short_arrays_panic:
  "decode (\<lambda>bs. Inr (CArr [])) bs = Inl Panicked \<and>
   decode (\<lambda>bs. Inr (CArr [CInt 2, enc_term (Var 0)])) bs = Inl Panicked \<and>
   decode_prop (\<lambda>bs. Inr (CArr [])) bs = Inl Panicked \<and>
   decode_prop (\<lambda>bs. Inr (CArr [CInt 6])) bs = Inl Panicked"
  by (simp add: decode_def decode_prop_def dec_term.simps dec_prop.simps build2_def u32_int_def)

text \<open>Decoding is not canonical: tags and indices are truncated to their width and elements
  after the last field are ignored, so one term has arbitrarily many encodings.\<close>

theorem decode_not_canonical:
  "dec_term (CArr (CInt (2 ^ 64 * a) # CInt (uint i + 2 ^ 32 * b) # extra)) = Inr (Var i)"
proof -
  have "(word_of_int (2 ^ 64 * a) :: u64) = 0"
    by (simp only: word_uint_eq_iff uint_word_of_int) simp
  moreover have "(word_of_int (uint i + 2 ^ 32 * b) :: u32) = i"
    using uint_bounded [of i] by (simp only: word_uint_eq_iff uint_word_of_int) simp
  ultimately show ?thesis by (simp add: dec_term.simps del: of_int_mult of_int_add of_int_power)
qed

end
