(* ===== verification/Crypto.thy ===== *)
theory Crypto
  imports Syntax
begin

text \<open>
  Cryptographic realisation (\<open>crates/dlc-crypto/src\<close>): Ed25519 with its length
  checks, the keyring policy, principal identifiers, time anchors and the stubs that
  reject.  The primitives of \<open>ed25519-dalek\<close> and \<open>sha2\<close> are parameters.
\<close>

section \<open>Errors and primitives\<close>

datatype crypto_error =
    SignatureInvalid
  | UnsupportedAlgorithm u8
  | PrincipalUnknown
  | AnchorInvalid
  | TransparencyInvalid

text \<open>
  The functions of the \<open>ed25519-dalek\<close> crate that the code calls: the public key of
  a signing key, its signatures, whether bytes are a verifying key, and the check of
  a signature.
\<close>

record ed25519_lib =
  dalek_public :: "bytes \<Rightarrow> bytes"
  dalek_sign :: "bytes \<Rightarrow> bytes \<Rightarrow> bytes"
  dalek_key_ok :: "bytes \<Rightarrow> bool"
  dalek_verify :: "bytes \<Rightarrow> bytes \<Rightarrow> bytes \<Rightarrow> bool"

text \<open>Its documented behaviour: a signature verifies under the signer's public key.\<close>

definition ed25519_ok :: "ed25519_lib \<Rightarrow> bool" where
  "ed25519_ok L \<longleftrightarrow> (\<forall>seed msg. length seed = 32 \<longrightarrow>
     length (dalek_public L seed) = 32 \<and> dalek_key_ok L (dalek_public L seed) \<and>
     length (dalek_sign L seed msg) = 64 \<and>
     dalek_verify L (dalek_public L seed) msg (dalek_sign L seed msg))"

section \<open>Ed25519\<close>

definition ALG_ED25519 :: u8 where
  "ALG_ED25519 = 0"

definition ed25519_verify :: "ed25519_lib \<Rightarrow> bytes \<Rightarrow> bytes \<Rightarrow> bytes \<Rightarrow> crypto_error + unit" where
  "ed25519_verify L pk message sig =
     (if length pk \<noteq> 32 then Inl SignatureInvalid
      else if \<not> dalek_key_ok L pk then Inl SignatureInvalid
      else if length sig \<noteq> 64 then Inl SignatureInvalid
      else if dalek_verify L pk message sig then Inr () else Inl SignatureInvalid)"

definition ed25519_sign :: "ed25519_lib \<Rightarrow> bytes \<Rightarrow> bytes \<Rightarrow> bytes" where
  "ed25519_sign L seed message = dalek_sign L seed message"

definition ed25519_public_key :: "ed25519_lib \<Rightarrow> bytes \<Rightarrow> bytes" where
  "ed25519_public_key L seed = dalek_public L seed"

definition principal_id_of :: "(bytes \<Rightarrow> bytes) \<Rightarrow> bytes \<Rightarrow> bytes" where
  "principal_id_of sha256 pk = sha256 pk"

section \<open>The keyring policy\<close>

definition verify_in_keyring ::
    "ed25519_lib \<Rightarrow> key_ring \<Rightarrow> principal \<Rightarrow> bytes \<Rightarrow> signature \<Rightarrow> crypto_error + unit" where
  "verify_in_keyring L keyring p canonical sig = (case p of
     Atom_p pid \<Rightarrow>
       (case find (\<lambda>r. kr_principal r = pid) (entries keyring) of
          None \<Rightarrow> Inl PrincipalUnknown
        | Some r \<Rightarrow>
            if sig_alg sig \<noteq> ALG_ED25519 \<or> kr_alg r \<noteq> ALG_ED25519
            then Inl (UnsupportedAlgorithm (sig_alg sig))
            else ed25519_verify L (public_key r) canonical (sig_bytes sig))
   | _ \<Rightarrow> Inl PrincipalUnknown)"

section \<open>Time anchors and transparency\<close>

datatype anchor_source = Drand | NistBeacon | Test

record anchor_time =
  at_epoch_ms :: u64
  at_source :: anchor_source

definition verify_drand :: "u64 \<Rightarrow> bytes \<Rightarrow> bytes \<Rightarrow> crypto_error + anchor_time" where
  "verify_drand round commitment group_public_key = Inl AnchorInvalid"

definition verify_nist_beacon :: "u64 \<Rightarrow> bytes \<Rightarrow> bytes \<Rightarrow> crypto_error + anchor_time" where
  "verify_nist_beacon pulse_index commitment certificate = Inl AnchorInvalid"

definition within_bound :: "anchor_time \<Rightarrow> u64 \<Rightarrow> bool" where
  "within_bound anchor bound_epoch_ms \<longleftrightarrow> at_epoch_ms anchor < bound_epoch_ms"

definition verify_non_inclusion :: "bytes \<Rightarrow> bytes \<Rightarrow> bytes \<Rightarrow> crypto_error + unit" where
  "verify_non_inclusion content_hash witnessed_root proof = Inl TransparencyInvalid"

section \<open>What acceptance means\<close>

lemma ed25519_verify_ok [ok_elim]:
  "ed25519_verify L pk msg sg = Inr u \<longleftrightarrow>
     length pk = 32 \<and> dalek_key_ok L pk \<and> length sg = 64 \<and> dalek_verify L pk msg sg"
  by (auto simp: ed25519_verify_def)

lemma ed25519_sign_verify:
  "ed25519_ok L \<Longrightarrow> length seed = 32 \<Longrightarrow>
     ed25519_verify L (ed25519_public_key L seed) msg (ed25519_sign L seed msg) = Inr ()"
  by (simp add: ed25519_ok_def ed25519_verify_def ed25519_public_key_def ed25519_sign_def)

text \<open>Only an atomic principal signs, and only under the first row that names it.\<close>

lemma verify_in_keyring_ok [ok_elim]:
  "verify_in_keyring L k p canonical sg = Inr u \<longleftrightarrow>
     (\<exists>pid r. p = Atom_p pid \<and> find (\<lambda>r. kr_principal r = pid) (entries k) = Some r \<and>
        sig_alg sg = ALG_ED25519 \<and> kr_alg r = ALG_ED25519 \<and>
        ed25519_verify L (public_key r) canonical (sig_bytes sg) = Inr ())"
  by (cases p) (auto simp: verify_in_keyring_def split: option.splits if_splits)

text \<open>A toy scheme on which the hypothesis is seen to hold: the key is the seed.\<close>

definition toy_ed25519 :: ed25519_lib where
  "toy_ed25519 =
     \<lparr>dalek_public = (\<lambda>seed. seed),
      dalek_sign = (\<lambda>seed msg. take 64 (seed @ msg @ replicate 64 0)),
      dalek_key_ok = (\<lambda>pk. True),
      dalek_verify = (\<lambda>pk msg sg. sg = take 64 (pk @ msg @ replicate 64 0))\<rparr>"

lemma toy_ed25519_ok: "ed25519_ok toy_ed25519"
  by (auto simp: ed25519_ok_def toy_ed25519_def)

end
