(* ===== verification/Verifier.thy ===== *)
theory Verifier
  imports Wire Crypto
begin

text \<open>
  The reference verifier (\<open>crates/dlc-verifier/src/check.rs\<close>, \<open>replay.rs\<close>): decode, infer, compare
  with the claim, and check every embedded signature.  The theory characterises
  acceptance and says what an accepted claim is worth.
\<close>

section \<open>Results\<close>

text \<open>
  The reasons keep the values that the code's messages interpolate.  A call returns
  a result or unwinds: \<open>None\<close> is a panic of the decoder.
\<close>

datatype fail_reason =
    DecodeFailed protocol_error
  | TypingMismatch dprop
  | TypingFailed
  | SignatureCheck crypto_error
  | NotImplemented

datatype verify_result =
    VOk
  | VFail nat fail_reason

section \<open>The check\<close>

primrec all_sigs_verify ::
    "ed25519_lib \<Rightarrow> (cbor \<Rightarrow> bytes) \<Rightarrow> key_ring \<Rightarrow> trm \<Rightarrow> crypto_error + unit" where
  "all_sigs_verify L cw k (Sign p m sg) =
     and_then (verify_in_keyring L k p (canonical_bytes cw m) sg) (\<lambda>_. all_sigs_verify L cw k m)"
| "all_sigs_verify L cw k (Var i) = Inr ()"
| "all_sigs_verify L cw k (Now t) = Inr ()"
| "all_sigs_verify L cw k (Lam \<phi> body) = all_sigs_verify L cw k body"
| "all_sigs_verify L cw k (App f x) =
     and_then (all_sigs_verify L cw k f) (\<lambda>_. all_sigs_verify L cw k x)"
| "all_sigs_verify L cw k (Verify p m sg) = all_sigs_verify L cw k m"
| "all_sigs_verify L cw k (Delegate m n) =
     and_then (all_sigs_verify L cw k m) (\<lambda>_. all_sigs_verify L cw k n)"
| "all_sigs_verify L cw k (Discharge m n) =
     and_then (all_sigs_verify L cw k m) (\<lambda>_. all_sigs_verify L cw k n)"
| "all_sigs_verify L cw k (Boxed_t ob m n) =
     and_then (all_sigs_verify L cw k m) (\<lambda>_. all_sigs_verify L cw k n)"
| "all_sigs_verify L cw k (Attenuate m \<psi>) = all_sigs_verify L cw k m"
| "all_sigs_verify L cw k (LiftLabel l m) = all_sigs_verify L cw k m"
| "all_sigs_verify L cw k (Declassify l m policy) =
     and_then (all_sigs_verify L cw k m) (\<lambda>_. all_sigs_verify L cw k policy)"
| "all_sigs_verify L cw k (WithinIntro t m) = all_sigs_verify L cw k m"
| "all_sigs_verify L cw k (Pair_t a b) =
     and_then (all_sigs_verify L cw k a) (\<lambda>_. all_sigs_verify L cw k b)"
| "all_sigs_verify L cw k (TensorIntro a b) =
     and_then (all_sigs_verify L cw k a) (\<lambda>_. all_sigs_verify L cw k b)"
| "all_sigs_verify L cw k (LetTensor a b) =
     and_then (all_sigs_verify L cw k a) (\<lambda>_. all_sigs_verify L cw k b)"
| "all_sigs_verify L cw k (Fst a) = all_sigs_verify L cw k a"
| "all_sigs_verify L cw k (Snd a) = all_sigs_verify L cw k a"
| "all_sigs_verify L cw k (Inl_t \<phi> a) = all_sigs_verify L cw k a"
| "all_sigs_verify L cw k (Inr_t \<phi> a) = all_sigs_verify L cw k a"
| "all_sigs_verify L cw k (SfExtract a) = all_sigs_verify L cw k a"
| "all_sigs_verify L cw k (Case s l r) =
     and_then (all_sigs_verify L cw k s) (\<lambda>_.
       and_then (all_sigs_verify L cw k l) (\<lambda>_. all_sigs_verify L cw k r))"
| "all_sigs_verify L cw k (SaysBind p s b) =
     and_then (all_sigs_verify L cw k s) (\<lambda>_. all_sigs_verify L cw k b)"
| "all_sigs_verify L cw k (LetSays p s b) =
     and_then (all_sigs_verify L cw k s) (\<lambda>_. all_sigs_verify L cw k b)"
| "all_sigs_verify L cw k (Command m c l) =
     and_then (all_sigs_verify L cw k m) (\<lambda>_. all_sigs_verify L cw k c)"
| "all_sigs_verify L cw k (RunCmd v s) =
     and_then (all_sigs_verify L cw k v) (\<lambda>_. all_sigs_verify L cw k s)"

definition verify_with_assumptions ::
    "ed25519_lib \<Rightarrow> (cbor \<Rightarrow> bytes) \<Rightarrow> (bytes \<Rightarrow> string + cbor) \<Rightarrow>
     bytes \<Rightarrow> dprop \<Rightarrow> key_ring \<Rightarrow> dprop list \<Rightarrow> verify_result option" where
  "verify_with_assumptions L cw cr wire claimed keyring assumptions =
     (case decode cr wire of
        Inl Panicked \<Rightarrow> None
      | Inl e \<Rightarrow> Some (VFail 0 (DecodeFailed e))
      | Inr t \<Rightarrow>
          (case infer \<lparr>additive = assumptions, linear = []\<rparr> t of
             Some inferred \<Rightarrow>
               if inferred = claimed then
                 (case all_sigs_verify L cw keyring t of
                    Inr u \<Rightarrow> Some VOk
                  | Inl e \<Rightarrow> Some (VFail 0 (SignatureCheck e)))
               else Some (VFail 0 (TypingMismatch inferred))
           | None \<Rightarrow> Some (VFail 0 TypingFailed)))"

definition verify ::
    "ed25519_lib \<Rightarrow> (cbor \<Rightarrow> bytes) \<Rightarrow> (bytes \<Rightarrow> string + cbor) \<Rightarrow>
     bytes \<Rightarrow> dprop \<Rightarrow> key_ring \<Rightarrow> verify_result option" where
  "verify L cw cr wire claimed keyring = verify_with_assumptions L cw cr wire claimed keyring []"

definition replay :: "bytes \<Rightarrow> verify_result" where
  "replay trace = VFail 0 NotImplemented"

section \<open>The signature walk\<close>

text \<open>A \<open>Sign\<close> node that the keyring vouches for; any other node is fine.\<close>

definition sig_ok :: "ed25519_lib \<Rightarrow> (cbor \<Rightarrow> bytes) \<Rightarrow> key_ring \<Rightarrow> trm \<Rightarrow> bool" where
  "sig_ok L cw k t = (case t of
     Sign p m sg \<Rightarrow> verify_in_keyring L k p (canonical_bytes cw m) sg = Inr ()
   | _ \<Rightarrow> True)"

lemma all_sigs_verify_iff:
  "all_sigs_verify L cw k t = Inr () \<longleftrightarrow> (\<forall>s \<in> set (subterms t). sig_ok L cw k s)"
  by (induction t) (auto simp: sig_ok_def ok_elim(1))

lemma verify_accepts:
  "verify_with_assumptions L cw cr wire claimed k as = Some VOk \<longleftrightarrow>
    (\<exists>t. decode cr wire = Inr t \<and> infer \<lparr>additive = as, linear = []\<rparr> t = Some claimed \<and>
       (\<forall>s \<in> set (subterms t). sig_ok L cw k s))"
proof -
  have u: "(\<exists>u. all_sigs_verify L cw k t = Inr u) \<longleftrightarrow> (\<forall>s \<in> set (subterms t). sig_ok L cw k s)" for t
    using all_sigs_verify_iff [of L cw k t] by auto
  show ?thesis
    by (auto simp: verify_with_assumptions_def simp flip: u
        split: sum.splits option.splits protocol_error.splits if_splits)
qed

lemma in_case_Sign:
  "i \<in> (case s of Sign p m sg \<Rightarrow> atoms p | _ \<Rightarrow> {}) \<longleftrightarrow> (\<exists>p m sg. s = Sign p m sg \<and> i \<in> atoms p)"
  by (cases s) auto

lemma signers_atoms:
  "i \<in> signers t \<longleftrightarrow> (\<exists>p m sg. Sign p m sg \<in> set (subterms t) \<and> i \<in> atoms p)"
  unfolding signers_def UN_iff in_case_Sign by blast

lemma signers_vouched:
  assumes "\<forall>s \<in> set (subterms t). sig_ok L cw k s" "i \<in> signers t"
  shows "\<exists>m sg r. Sign (Atom_p i) m sg \<in> set (subterms t) \<and>
    find (\<lambda>r. kr_principal r = i) (entries k) = Some r \<and>
    dalek_verify L (public_key r) (canonical_bytes cw m) (sig_bytes sg)"
proof -
  from assms(2) obtain q m sg where s: "Sign q m sg \<in> set (subterms t)" "i \<in> atoms q"
    by (auto simp: signers_atoms)
  with assms(1) have "verify_in_keyring L k q (canonical_bytes cw m) sg = Inr ()"
    by (auto simp: sig_ok_def)
  with s show ?thesis unfolding verify_in_keyring_ok ed25519_verify_ok by auto blast
qed

text \<open>A keyring in which the first row of \<open>i\<close> holds the key of \<open>seed\<close>.\<close>

definition holds_key :: "ed25519_lib \<Rightarrow> key_ring \<Rightarrow> principal_id \<Rightarrow> bytes \<Rightarrow> bool" where
  "holds_key L k i seed \<longleftrightarrow> length seed = 32 \<and>
     find (\<lambda>r. kr_principal r = i) (entries k) =
       Some \<lparr>kr_principal = i, kr_alg = ALG_ED25519, public_key = ed25519_public_key L seed\<rparr>"

definition sign_as :: "ed25519_lib \<Rightarrow> (cbor \<Rightarrow> bytes) \<Rightarrow> principal_id \<Rightarrow> bytes \<Rightarrow> trm \<Rightarrow> trm" where
  "sign_as L cw i seed m = Sign (Atom_p i) m
     \<lparr>sig_alg = ALG_ED25519, sig_bytes = ed25519_sign L seed (canonical_bytes cw m)\<rparr>"

lemma sign_as_ok:
  "ed25519_ok L \<Longrightarrow> holds_key L k i seed \<Longrightarrow> sig_ok L cw k (sign_as L cw i seed m)"
  by (simp add: sig_ok_def sign_as_def holds_key_def verify_in_keyring_ok ed25519_sign_verify)

lemma sign_as_accepted:
  assumes "ed25519_ok L" "cbor_codec cw cr limit" "holds_key L k i seed" "wf_pid i" "wf_trm m"
    "cdepth (enc_term (sign_as L cw i seed m)) \<le> limit"
    "infer ctx_empty m = Some \<phi>" "all_sigs_verify L cw k m = Inr ()"
  shows "verify L cw cr (encode cw (sign_as L cw i seed m)) (Says (Atom_p i) \<phi>) k = Some VOk"
proof -
  from assms(4,5) have "wf_trm (sign_as L cw i seed m)" by (simp add: sign_as_def)
  from decode_encode [OF assms(2) this assms(6)] assms(7,8) sign_as_ok [OF assms(1,3)]
  show ?thesis
    by (auto simp: verify_def verify_accepts all_sigs_verify_iff sign_as_def ctx_empty_def)
qed

definition demo_id :: principal_id where
  "demo_id = PrincipalId (replicate 32 2)"

definition demo_ring :: key_ring where
  "demo_ring = \<lparr>entries = [\<lparr>kr_principal = demo_id, kr_alg = ALG_ED25519,
     public_key = ed25519_public_key toy_ed25519 (replicate 32 1)\<rparr>]\<rparr>"

lemma demo_holds: "holds_key toy_ed25519 demo_ring demo_id (replicate 32 1)"
  by (simp add: holds_key_def demo_ring_def)

lemma demo_wf: "wf_pid demo_id"
  by (simp add: demo_id_def wf_pid_def)

lemma cdepth_leaf [simp]: "cdepth (enc_time t) = 0" "cdepth (enc_principal_id i) = 0"
  "cdepth (enc_signature sg) = 1"
  by (simp_all add: enc_time_def enc_principal_id_def enc_signature_def u64_int_def)

section \<open>Properties\<close>

text \<open>C1: the verifier accepts exactly the decodable terms whose inferred proposition is the claim
  and all of whose \<open>Sign\<close> nodes carry a signature that the keyring verifies over the
  canonical bytes of the signed subterm.\<close>

theorem verify_accepts_iff:
  "verify_with_assumptions L cw cr wire claimed k as = Some VOk \<longleftrightarrow>
    (\<exists>t. decode cr wire = Inr t \<and> infer \<lparr>additive = as, linear = []\<rparr> t = Some claimed \<and>
       (\<forall>p m sg. Sign p m sg \<in> set (subterms t) \<longrightarrow>
          verify_in_keyring L k p (canonical_bytes cw m) sg = Inr ()))"
proof -
  have "(\<forall>s \<in> set (subterms t). sig_ok L cw k s) \<longleftrightarrow>
      (\<forall>p m sg. Sign p m sg \<in> set (subterms t) \<longrightarrow>
         verify_in_keyring L k p (canonical_bytes cw m) sg = Inr ())" for t
    by (auto simp: sig_ok_def split: trm.splits)
  then show ?thesis by (simp add: verify_accepts)
qed

theorem verify_accepts_iff_witness:
  "verify_with_assumptions toy_ed25519 put (toy_read 16)
     (encode put (sign_as toy_ed25519 put demo_id (replicate 32 1) (Now \<lparr>epoch_ms = 9\<rparr>)))
     (Says (Atom_p demo_id) Top) demo_ring [] = Some VOk"
proof -
  let ?t = "sign_as toy_ed25519 put demo_id (replicate 32 1) (Now \<lparr>epoch_ms = 9\<rparr>)"
  have "decode (toy_read 16) (encode put ?t) = Inr ?t"
    by (rule decode_encode [OF toy_codec]) (simp_all add: sign_as_def demo_wf)
  moreover have "verify_in_keyring toy_ed25519 demo_ring (Atom_p demo_id)
      (canonical_bytes put (Now \<lparr>epoch_ms = 9\<rparr>))
      \<lparr>sig_alg = ALG_ED25519, sig_bytes = ed25519_sign toy_ed25519 (replicate 32 1)
         (canonical_bytes put (Now \<lparr>epoch_ms = 9\<rparr>))\<rparr> = Inr ()"
    using ed25519_sign_verify [OF toy_ed25519_ok, of "replicate 32 1"]
    by (simp add: verify_in_keyring_def demo_ring_def)
  ultimately show ?thesis
    unfolding verify_accepts_iff by (intro exI [of _ ?t]) (simp add: sign_as_def)
qed

text \<open>C2: an accepted claim \<open>p says \<phi>\<close>, when the token does not attenuate, rests on the keys of
  all atomic parties of \<open>p\<close>: for each of them the keyring's first row for it holds an
  Ed25519 key under which some subterm's canonical bytes are signed.\<close>

theorem accepted_quotes_are_signed:
  assumes "verify L cw cr wire (Says p \<phi>) k = Some VOk" "decode cr wire = Inr t"
    "attenuate_free t" "i \<in> atoms p"
  shows "\<exists>m sg r. Sign (Atom_p i) m sg \<in> set (subterms t) \<and>
    find (\<lambda>r. kr_principal r = i) (entries k) = Some r \<and>
    dalek_verify L (public_key r) (canonical_bytes cw m) (sig_bytes sg)"
proof -
  from assms(1,2) have ty: "infer ctx_empty t = Some (Says p \<phi>)"
    and sigs: "\<forall>s \<in> set (subterms t). sig_ok L cw k s"
    by (auto simp: verify_def verify_accepts ctx_empty_def)
  from infer_sound [OF ty assms(3), of "signers t" "\<lambda>_. True"] assms(4)
  have "i \<in> signers t" by auto
  with sigs show ?thesis by (rule signers_vouched)
qed

theorem accepted_quotes_are_signed_witness:
  "\<exists>m sg r. Sign (Atom_p demo_id) m sg \<in>
      set (subterms (sign_as toy_ed25519 put demo_id (replicate 32 1) (Now \<lparr>epoch_ms = 9\<rparr>))) \<and>
    find (\<lambda>r. kr_principal r = demo_id) (entries demo_ring) = Some r \<and>
    dalek_verify toy_ed25519 (public_key r) (canonical_bytes put m) (sig_bytes sg)"
proof -
  let ?t = "sign_as toy_ed25519 put demo_id (replicate 32 1) (Now \<lparr>epoch_ms = 9\<rparr>)"
  have "verify toy_ed25519 put (toy_read 16) (encode put ?t) (Says (Atom_p demo_id) Top) demo_ring
      = Some VOk"
    by (rule sign_as_accepted [OF toy_ed25519_ok toy_codec demo_holds demo_wf])
      (simp_all add: sign_as_def)
  moreover have "decode (toy_read 16) (encode put ?t) = Inr ?t"
    by (rule decode_encode [OF toy_codec]) (simp_all add: sign_as_def demo_wf)
  ultimately show ?thesis
    by (rule accepted_quotes_are_signed) (simp_all add: sign_as_def)
qed

text \<open>Completeness.  What the holder of a key in the ring signs, the verifier accepts, if the
  signed proof itself checks.\<close>

theorem honest_signature_accepted:
  assumes "ed25519_ok L" "cbor_codec cw cr limit" "holds_key L k i seed" "wf_pid i" "wf_trm m"
    "cdepth (enc_term (sign_as L cw i seed m)) \<le> limit"
    "infer ctx_empty m = Some \<phi>" "all_sigs_verify L cw k m = Inr ()"
  shows "verify L cw cr (encode cw (sign_as L cw i seed m)) (Says (Atom_p i) \<phi>) k = Some VOk"
  using assms by (rule sign_as_accepted)

theorem honest_signature_accepted_witness:
  "verify toy_ed25519 put (toy_read 16)
     (encode put (sign_as toy_ed25519 put demo_id (replicate 32 1) (Now \<lparr>epoch_ms = 9\<rparr>)))
     (Says (Atom_p demo_id) Top) demo_ring = Some VOk"
  by (rule honest_signature_accepted [OF toy_ed25519_ok toy_codec demo_holds demo_wf])
    (simp_all add: sign_as_def)

text \<open>C3: forgery.  From any one signature of \<open>i\<close>, on the most trivial of terms, a token can be
  made that the verifier accepts for every proposition \<open>\<phi>\<close>: falsity, or what another
  principal never said.\<close>

theorem attenuate_forges_any_claim:
  assumes "ed25519_ok L" "cbor_codec cw cr limit" "holds_key L k i seed" "wf_pid i" "wf_prop \<phi>"
    "cdepth (enc_term (Verify (Atom_p i) (Attenuate (sign_as L cw i seed (Now tau)) \<phi>) sg)) \<le> limit"
  shows "verify L cw cr
    (encode cw (Verify (Atom_p i) (Attenuate (sign_as L cw i seed (Now tau)) \<phi>) sg)) \<phi> k = Some VOk"
proof -
  let ?t = "Verify (Atom_p i) (Attenuate (sign_as L cw i seed (Now tau)) \<phi>) sg"
  from assms(4,5) have "wf_trm ?t" by (simp add: sign_as_def)
  from decode_encode [OF assms(2) this assms(6)] sign_as_ok [OF assms(1,3), of cw "Now tau"]
  show ?thesis
    by (auto simp: verify_def verify_accepts sign_as_def attenuate_says_def says_elim_def
        sig_ok_def [of _ _ _ "Verify _ _ _"] sig_ok_def [of _ _ _ "Attenuate _ _"]
        sig_ok_def [of _ _ _ "Now _"])
qed

theorem attenuate_forges_any_claim_witness:
  "verify toy_ed25519 put (toy_read 16)
     (encode put (Verify (Atom_p demo_id) (Attenuate (sign_as toy_ed25519 put demo_id (replicate 32 1)
        (Now \<lparr>epoch_ms = 9\<rparr>)) Bot) \<lparr>sig_alg = 0, sig_bytes = []\<rparr>)) Bot demo_ring = Some VOk"
  by (rule attenuate_forges_any_claim [OF toy_ed25519_ok toy_codec demo_holds demo_wf])
    (simp_all add: sign_as_def)

text \<open>The fields before the cut decode, the next one is indexed out of range.\<close>

lemma dec_term_cut:
  assumes "wf_trm t" "enc_term t = CArr xs" "m < length xs"
  shows "dec_term (CArr (take m xs)) = Inl Panicked"
proof (cases "m = 0")
  case False
  have "length xs \<le> 4" using assms(2) by (cases t) auto
  with assms(3) False have "m = 1 \<or> m = 2 \<or> m = 3" by linarith
  with assms show ?thesis
    by (elim disjE; hypsubst; cases t; simp)
      (subst dec_term.simps, force simp: roundtrip build1_def build2_def build3_def)+
qed (simp add: dec_term.simps)

text \<open>C33: the verifier panics on tokens that are cut short.  Take any term within the reader's
  nesting limit and the CBOR array \<open>xs\<close> that encodes it: on that array the verifier returns a result, and on
  every proper prefix of the array, the empty one included, it panics, whatever the keyring and
  the claim.\<close>

theorem verifier_panics:
  assumes "cbor_codec cw cr limit" "wf_trm t" "cdepth (enc_term t) \<le> limit" "enc_term t = CArr xs"
  shows "verify L cw cr (cw (CArr xs)) claimed k \<noteq> None \<and>
    (m < length xs \<longrightarrow> verify L cw cr (cw (CArr (take m xs))) claimed k = None)"
proof
  from assms have "decode cr (cw (CArr xs)) = Inr t"
    using decode_encode [OF assms(1-3)] by (simp add: encode_def)
  then show "verify L cw cr (cw (CArr xs)) claimed k \<noteq> None"
    by (simp add: verify_def verify_with_assumptions_def split: option.split sum.split)
  show "m < length xs \<longrightarrow> verify L cw cr (cw (CArr (take m xs))) claimed k = None"
  proof
    assume "m < length xs"
    have "plain (CArr xs)" "cdepth (CArr xs) \<le> limit"
      using plain_term [of t] assms(3,4) by simp_all
    moreover from this(2) obtain n where "limit = Suc n" by (cases limit) simp_all
    ultimately have "plain (CArr (take m xs))" "cdepth (CArr (take m xs)) \<le> limit"
      by (auto simp del: cdepth.simps dest: in_set_takeD)
    then have "cr (cw (CArr (take m xs))) = Inr (CArr (take m xs))" by (rule cbor_codecD [OF assms(1)])
    with dec_term_cut [OF assms(2,4) \<open>m < length xs\<close>]
    show "verify L cw cr (cw (CArr (take m xs))) claimed k = None"
      by (simp add: verify_def verify_with_assumptions_def decode_def)
  qed
qed

theorem verifier_panics_witness:
  "verify toy_ed25519 put (toy_read 16) (put (CArr [])) Top demo_ring = None \<and>
   verify toy_ed25519 put (toy_read 16) (put (CArr [CInt 10])) Top demo_ring = None \<and>
   verify toy_ed25519 put (toy_read 16) (put (CArr [CInt 10, CInt 9])) Top demo_ring \<noteq> None"
  using verifier_panics [OF toy_codec, of "Now \<lparr>epoch_ms = 9\<rparr>" 16 "[CInt 10, CInt 9]" toy_ed25519 Top demo_ring 0]
    verifier_panics [OF toy_codec, of "Now \<lparr>epoch_ms = 9\<rparr>" 16 "[CInt 10, CInt 9]" toy_ed25519 Top demo_ring 1]
  by (simp add: enc_time_def u64_int_def)

end
