(* ===== verification/Rules.thy ===== *)
theory Rules
  imports Verifier
begin

text \<open>
  The typing rules as the documentation states them (\<open>spec/typing-rules.md\<close>, named
  by \<open>RuleName\<close> of \<open>crates/dlc-core/src/judgment.rs\<close>) as a relation of their own, with linear
  contexts that split, signatures that verify and the premises that other layers decide; the
  fragment on which the checker implements them exactly, and where it goes beyond them; what the
  two contexts are worth to the checker; and what follows from an accepted token under
  assumptions.
\<close>

section \<open>The contexts\<close>


text \<open>Under one additive hypothesis, and so under every binder, the linear ones are out of reach.\<close>

lemma linear_hidden: "as \<noteq> [] \<Longrightarrow> infer (mk_ctx as (l # ls)) t = infer (mk_ctx as []) t"
proof (induction t arbitrary: as l ls)
  case (Var i)
  then show ?case by (auto simp: infer_var_def Let_def get_nth_def)
next
  case (LetTensor m b)
  then have "infer (mk_ctx as (l # ls)) m = infer (mk_ctx as []) m" by blast
  then show ?case by (simp add: linear_unused)
qed simp_all

lemma weaken_A_fails:
  "infer (mk_ctx [] [\<phi>]) (Var 0) = Some \<phi>" "infer (mk_ctx [\<psi>] [\<phi>]) (Var 0) = Some \<psi>"
  by (simp_all add: infer_var_def)

lemma linear_reused:
  "infer (mk_ctx [] [\<phi>]) (TensorIntro (Var 0) (Var 0)) = Some (Tensor \<phi> \<phi>)"
  "infer (mk_ctx [] [\<phi>]) (Now tau) = Some Top"
  by (simp_all add: infer_var_def)

section \<open>The documented rules\<close>

text \<open>
  A context has one entry per de Bruijn index: an additive hypothesis, a linear one, or the place of
  a linear one that another premise has taken.  \<open>splits\<close> is the document's \<open>\<Gamma>\<^sub>L\<^sup>1, \<Gamma>\<^sub>L\<^sup>2\<close>: the
  additive hypotheses go to both premises, each linear one to one of them.
\<close>

datatype hyp = Add dprop | Lin dprop | Taken

primrec share :: "hyp \<Rightarrow> hyp \<times> hyp \<Rightarrow> bool" where
  "share (Add \<phi>) ab \<longleftrightarrow> ab = (Add \<phi>, Add \<phi>)"
| "share (Lin \<phi>) ab \<longleftrightarrow> ab = (Lin \<phi>, Taken) \<or> ab = (Taken, Lin \<phi>)"
| "share Taken ab \<longleftrightarrow> ab = (Taken, Taken)"

definition splits :: "hyp list \<Rightarrow> hyp list \<Rightarrow> hyp list \<Rightarrow> bool" where
  "splits \<Gamma> \<Gamma>1 \<Gamma>2 \<longleftrightarrow> length \<Gamma>1 = length \<Gamma>2 \<and> list_all2 share \<Gamma> (zip \<Gamma>1 \<Gamma>2)"

definition spent :: "hyp list \<Rightarrow> bool" where
  "spent \<Gamma> \<longleftrightarrow> list_all (\<lambda>h. case h of Lin \<phi> \<Rightarrow> False | _ \<Rightarrow> True) \<Gamma>"

text \<open>
  What the document leaves to other layers: the order \<open>\<psi> \<le>\<^sub>L \<phi>\<close> on propositions, that a term is
  evidence of an obligation or of a policy, that a verifiable anchor precedes a time, and the
  label \<open>fresh\<close>.
\<close>

record doc_layers =
  leq_L :: "dprop \<Rightarrow> dprop \<Rightarrow> bool"
  discharges :: "hyp list \<Rightarrow> trm \<Rightarrow> obligation \<Rightarrow> bool"
  lowers :: "hyp list \<Rightarrow> trm \<Rightarrow> label \<Rightarrow> label \<Rightarrow> bool"
  anchored :: "time_bound \<Rightarrow> bool"
  fresh :: label

text \<open>A signature over the canonical bytes of a term under the key of a party: composite ones have none.\<close>

definition signed_by :: "ed25519_lib \<Rightarrow> (cbor \<Rightarrow> bytes) \<Rightarrow> key_ring \<Rightarrow> principal \<Rightarrow> trm \<Rightarrow> signature \<Rightarrow> bool" where
  "signed_by L cw K p m sg \<longleftrightarrow> (case p of
     Atom_p i \<Rightarrow> (case find (\<lambda>r. kr_principal r = i) (entries K) of
        None \<Rightarrow> False
      | Some r \<Rightarrow> sig_alg sg = ALG_ED25519 \<and> kr_alg r = ALG_ED25519 \<and>
          ed25519_verify L (public_key r) (canonical_bytes cw m) (sig_bytes sg) = Inr ())
   | _ \<Rightarrow> False)"

text \<open>
  \<open>doc_derives L cw K D R \<Gamma> t \<phi>\<close>: \<open>\<Gamma> \<turnstile>\<^sub>K t : \<phi>\<close> by the rules in \<open>R\<close>, as sections 1 to 9 and 13 of
  \<open>typing-rules.md\<close> state them; \<open>says-I\<close> is the rule \<open>verify\<close> of section 10.  Where the document
  gives one context to two premises and nothing to the linear part, that part is empty.
  \<open>verify_p(M, \<sigma>)\<close> and the elimination that drops the modality have no rule, \<open>within-E\<close> has no
  term.
\<close>

inductive doc_derives ::
    "ed25519_lib \<Rightarrow> (cbor \<Rightarrow> bytes) \<Rightarrow> key_ring \<Rightarrow> doc_layers \<Rightarrow> rule_name set \<Rightarrow> hyp list \<Rightarrow> trm \<Rightarrow> dprop \<Rightarrow> bool"
  for L cw K D R where
  var_A: "\<lbrakk>VarA_r \<in> R; spent \<Gamma>; unat i < length \<Gamma>; \<Gamma> ! unat i = Add \<phi>\<rbrakk> \<Longrightarrow> doc_derives L cw K D R \<Gamma> (Var i) \<phi>"
| var_L: "\<lbrakk>VarL_r \<in> R; unat i < length \<Gamma>; \<Gamma> ! unat i = Lin \<phi>; spent (\<Gamma>[unat i := Taken])\<rbrakk>
    \<Longrightarrow> doc_derives L cw K D R \<Gamma> (Var i) \<phi>"
| weaken_A: "\<lbrakk>WeakenA_r \<in> R; doc_derives L cw K D R \<Gamma> t \<phi>\<rbrakk> \<Longrightarrow> doc_derives L cw K D R (\<Gamma> @ [Add \<psi>]) t \<phi>"
| imp_I: "\<lbrakk>ImpI_r \<in> R; doc_derives L cw K D R (Add \<phi> # \<Gamma>) m \<psi>\<rbrakk> \<Longrightarrow> doc_derives L cw K D R \<Gamma> (Lam \<phi> m) (Imp \<phi> \<psi>)"
| imp_E: "\<lbrakk>ImpE_r \<in> R; splits \<Gamma> \<Gamma>1 \<Gamma>2; doc_derives L cw K D R \<Gamma>1 m (Imp \<phi> \<psi>); doc_derives L cw K D R \<Gamma>2 n \<phi>\<rbrakk>
    \<Longrightarrow> doc_derives L cw K D R \<Gamma> (App m n) \<psi>"
| and_I: "\<lbrakk>AndI_r \<in> R; spent \<Gamma>; doc_derives L cw K D R \<Gamma> m \<phi>; doc_derives L cw K D R \<Gamma> n \<psi>\<rbrakk>
    \<Longrightarrow> doc_derives L cw K D R \<Gamma> (Pair_t m n) (And \<phi> \<psi>)"
| and_EL: "\<lbrakk>AndEL_r \<in> R; doc_derives L cw K D R \<Gamma> m (And \<phi> \<psi>)\<rbrakk> \<Longrightarrow> doc_derives L cw K D R \<Gamma> (Fst m) \<phi>"
| and_ER: "\<lbrakk>AndER_r \<in> R; doc_derives L cw K D R \<Gamma> m (And \<phi> \<psi>)\<rbrakk> \<Longrightarrow> doc_derives L cw K D R \<Gamma> (Snd m) \<psi>"
| or_I1: "\<lbrakk>OrI_r \<in> R; doc_derives L cw K D R \<Gamma> m \<phi>\<rbrakk> \<Longrightarrow> doc_derives L cw K D R \<Gamma> (Inl_t \<psi> m) (Or \<phi> \<psi>)"
| or_I2: "\<lbrakk>OrI_r \<in> R; doc_derives L cw K D R \<Gamma> m \<psi>\<rbrakk> \<Longrightarrow> doc_derives L cw K D R \<Gamma> (Inr_t \<phi> m) (Or \<phi> \<psi>)"
| or_E: "\<lbrakk>OrE_r \<in> R; splits \<Gamma> \<Gamma>1 \<Gamma>2; doc_derives L cw K D R \<Gamma>1 m (Or \<phi> \<psi>);
      doc_derives L cw K D R (Add \<phi> # \<Gamma>2) a \<chi>; doc_derives L cw K D R (Add \<psi> # \<Gamma>2) b \<chi>\<rbrakk>
    \<Longrightarrow> doc_derives L cw K D R \<Gamma> (Case m a b) \<chi>"
| tensor_I: "\<lbrakk>TensorI_r \<in> R; splits \<Gamma> \<Gamma>1 \<Gamma>2; doc_derives L cw K D R \<Gamma>1 m \<phi>; doc_derives L cw K D R \<Gamma>2 n \<psi>\<rbrakk>
    \<Longrightarrow> doc_derives L cw K D R \<Gamma> (TensorIntro m n) (Tensor \<phi> \<psi>)"
| tensor_E: "\<lbrakk>TensorE_r \<in> R; splits \<Gamma> \<Gamma>1 \<Gamma>2; doc_derives L cw K D R \<Gamma>1 m (Tensor \<phi> \<psi>);
      doc_derives L cw K D R (Lin \<psi> # Lin \<phi> # \<Gamma>2) n \<chi>\<rbrakk>
    \<Longrightarrow> doc_derives L cw K D R \<Gamma> (LetTensor m n) \<chi>"
| lolli_I: "\<lbrakk>LolliI_r \<in> R; doc_derives L cw K D R (Lin \<phi> # \<Gamma>) m \<psi>\<rbrakk> \<Longrightarrow> doc_derives L cw K D R \<Gamma> (Lam \<phi> m) (Lolli \<phi> \<psi>)"
| lolli_E: "\<lbrakk>LolliE_r \<in> R; splits \<Gamma> \<Gamma>1 \<Gamma>2; doc_derives L cw K D R \<Gamma>1 m (Lolli \<phi> \<psi>); doc_derives L cw K D R \<Gamma>2 n \<phi>\<rbrakk>
    \<Longrightarrow> doc_derives L cw K D R \<Gamma> (App m n) \<psi>"
| says_I: "\<lbrakk>SaysI_r \<in> R; doc_derives L cw K D R \<Gamma> m \<phi>; signed_by L cw K p m sg\<rbrakk>
    \<Longrightarrow> doc_derives L cw K D R \<Gamma> (Sign p m sg) (Says p \<phi>)"
| says_E: "\<lbrakk>SaysE_r \<in> R; splits \<Gamma> \<Gamma>1 \<Gamma>2; doc_derives L cw K D R \<Gamma>1 m (Says p \<phi>);
      doc_derives L cw K D R (Add \<phi> # \<Gamma>2) n \<psi>\<rbrakk>
    \<Longrightarrow> doc_derives L cw K D R \<Gamma> (SaysBind p m n) (Says p \<psi>)"
| sf_extract: "\<lbrakk>SfExtract_r \<in> R; doc_derives L cw K D R \<Gamma> m (Says p (SpeaksFor q p))\<rbrakk>
    \<Longrightarrow> doc_derives L cw K D R \<Gamma> (SfExtract m) (SpeaksFor q p)"
| delegate: "\<lbrakk>Delegate_r \<in> R; spent \<Gamma>; doc_derives L cw K D R \<Gamma> m (Says p (SpeaksFor q p));
      doc_derives L cw K D R \<Gamma> n (Says q \<phi>)\<rbrakk>
    \<Longrightarrow> doc_derives L cw K D R \<Gamma> (Delegate m n) (Says (Acting p q) \<phi>)"
| attenuate: "\<lbrakk>Attenuate_r \<in> R; doc_derives L cw K D R \<Gamma> m (Says p \<phi>); doc_derives L cw K D R [] n (Imp \<phi> \<psi>);
      leq_L D \<psi> \<phi>\<rbrakk>
    \<Longrightarrow> doc_derives L cw K D R \<Gamma> (Attenuate m \<psi>) (Says p \<psi>)"
| lift: "\<lbrakk>Lift_r \<in> R; doc_derives L cw K D R \<Gamma> m \<phi>\<rbrakk> \<Longrightarrow> doc_derives L cw K D R \<Gamma> (LiftLabel l m) (At \<phi> l)"
| app_IFC: "\<lbrakk>AppIFC_r \<in> R; spent \<Gamma>; doc_derives L cw K D R \<Gamma> m (At \<phi> l); doc_derives L cw K D R \<Gamma> n (At (Imp \<phi> \<psi>) l')\<rbrakk>
    \<Longrightarrow> doc_derives L cw K D R \<Gamma> (App m n) (At \<psi> (label_join l l'))"
| declassify: "\<lbrakk>Declassify_r \<in> R; spent \<Gamma>; doc_derives L cw K D R \<Gamma> m (At \<phi> l); lowers D \<Gamma> w l l'\<rbrakk>
    \<Longrightarrow> doc_derives L cw K D R \<Gamma> (Declassify l' m w) (At \<phi> l')"
| box_I: "\<lbrakk>BoxI_r \<in> R; spent \<Gamma>; doc_derives L cw K D R \<Gamma> m \<phi>; discharges D \<Gamma> n ob\<rbrakk>
    \<Longrightarrow> doc_derives L cw K D R \<Gamma> (Boxed_t ob m n) (Boxed ob \<phi>)"
| discharge: "\<lbrakk>Discharge_r \<in> R; spent \<Gamma>; doc_derives L cw K D R \<Gamma> m (Boxed ob \<phi>); discharges D \<Gamma> n ob\<rbrakk>
    \<Longrightarrow> doc_derives L cw K D R \<Gamma> (Discharge m n) \<phi>"
| now: "\<lbrakk>Now_r \<in> R; spent \<Gamma>; anchored D tau\<rbrakk> \<Longrightarrow> doc_derives L cw K D R \<Gamma> (Now tau) (At Top (fresh D))"
| within_I: "\<lbrakk>WithinI_r \<in> R; spent \<Gamma>; doc_derives L cw K D R \<Gamma> m \<phi>; doc_derives L cw K D R \<Gamma> n (At Top (fresh D))\<rbrakk>
    \<Longrightarrow> doc_derives L cw K D R \<Gamma> (WithinIntro tau m) (Within tau \<phi>)"
| commit_I: "\<lbrakk>CommitI_r \<in> R; spent \<Gamma>; doc_derives L cw K D R \<Gamma> c (Says p \<psi>); doc_derives L cw K D R \<Gamma> m (Imp \<phi> \<phi>)\<rbrakk>
    \<Longrightarrow> doc_derives L cw K D R \<Gamma> (Command m c l) (Replicated (Imp \<phi> \<phi>) l)"
| run_cmd: "\<lbrakk>RunCmd_r \<in> R; spent \<Gamma>; doc_derives L cw K D R \<Gamma> v (Replicated (Imp \<phi> \<phi>) l); doc_derives L cw K D R \<Gamma> s \<phi>\<rbrakk>
    \<Longrightarrow> doc_derives L cw K D R \<Gamma> (RunCmd v s) (At \<phi> l)"



text \<open>A context without linear hypotheses splits only into itself.\<close>

lemma splits_additive [simp]: "splits (map Add as) \<Gamma>1 \<Gamma>2 \<longleftrightarrow> \<Gamma>1 = map Add as \<and> \<Gamma>2 = map Add as"
proof -
  have "list_all2 share (map Add as) (zip (map Add as) (map Add as))"
    by (induction as) simp_all
  moreover have "length \<Gamma>1 = length \<Gamma>2 \<Longrightarrow> list_all2 share (map Add as) (zip \<Gamma>1 \<Gamma>2) \<Longrightarrow>
      \<Gamma>1 = map Add as \<and> \<Gamma>2 = map Add as"
    by (induction \<Gamma>1 \<Gamma>2 arbitrary: as rule: list_induct2) (auto simp: list_all2_Cons2)
  ultimately show ?thesis by (auto simp: splits_def)
qed

lemma spent_additive [simp]: "spent (map Add as)"
  by (simp add: spent_def list_all_iff)





lemma doc_derives_mono: "doc_derives L cw K D R \<Gamma> t \<phi> \<Longrightarrow> R \<subseteq> R' \<Longrightarrow> doc_derives L cw K D R' \<Gamma> t \<phi>"
  by (induction rule: doc_derives.induct) (blast intro: doc_derives.intros)+

text \<open>
  Outside the fragment the checker goes its own way, whatever the other layers decide: it types
  forms that have no rule, gives \<open>Now\<close> another proposition, and lets a linear hypothesis be used
  twice or not at all.
\<close>

lemma doc_no_rule:
  "\<not> doc_derives L cw K D R \<Gamma> (Verify p m sg) \<phi>" "\<not> doc_derives L cw K D R \<Gamma> (LetSays p m n) \<phi>"
proof -
  have "(\<forall>p m sg. t \<noteq> Verify p m sg) \<and> (\<forall>p m n. t \<noteq> LetSays p m n)"
    if "doc_derives L cw K D R \<Gamma> t \<phi>" for t
    using that by (induction rule: doc_derives.induct) simp_all
  then show "\<not> doc_derives L cw K D R \<Gamma> (Verify p m sg) \<phi>" "\<not> doc_derives L cw K D R \<Gamma> (LetSays p m n) \<phi>"
    by blast+
qed

lemma doc_now:
  assumes "doc_derives L cw K D R \<Gamma> (Now tau) \<phi>"
  shows "\<phi> = At Top (fresh D) \<and> spent \<Gamma>"
  using assms by (induction \<Gamma> "Now tau" \<phi> rule: doc_derives.induct) (simp_all add: spent_def)

lemma doc_linear_once: "\<not> doc_derives L cw K D R [Lin \<phi>] (TensorIntro (Var 0) (Var 0)) \<psi>"
proof
  have taken: "\<not> doc_derives L cw K D R [Taken] (Var 0) \<chi>" for \<chi>
    by (auto elim: doc_derives.cases)
  assume "doc_derives L cw K D R [Lin \<phi>] (TensorIntro (Var 0) (Var 0)) \<psi>"
  then obtain \<Gamma>1 \<Gamma>2 \<chi> \<chi>' where "splits [Lin \<phi>] \<Gamma>1 \<Gamma>2" "doc_derives L cw K D R \<Gamma>1 (Var 0) \<chi>"
    "doc_derives L cw K D R \<Gamma>2 (Var 0) \<chi>'"
    by (rule doc_derives.cases) auto
  with taken show False
    by (cases \<Gamma>1; cases \<Gamma>2) (auto simp: splits_def list_all2_Cons1)
qed

section \<open>Delegation needs a delegation\<close>

primrec speaks_for_free :: "dprop \<Rightarrow> bool" where
  "speaks_for_free Top \<longleftrightarrow> True"
| "speaks_for_free Bot \<longleftrightarrow> True"
| "speaks_for_free (Atom n) \<longleftrightarrow> True"
| "speaks_for_free (Imp a b) \<longleftrightarrow> speaks_for_free a \<and> speaks_for_free b"
| "speaks_for_free (And a b) \<longleftrightarrow> speaks_for_free a \<and> speaks_for_free b"
| "speaks_for_free (Or a b) \<longleftrightarrow> speaks_for_free a \<and> speaks_for_free b"
| "speaks_for_free (Says p a) \<longleftrightarrow> speaks_for_free a"
| "speaks_for_free (SpeaksFor p q) \<longleftrightarrow> False"
| "speaks_for_free (At a l) \<longleftrightarrow> speaks_for_free a"
| "speaks_for_free (Boxed ob a) \<longleftrightarrow> speaks_for_free a"
| "speaks_for_free (Within t a) \<longleftrightarrow> speaks_for_free a"
| "speaks_for_free (Tensor a b) \<longleftrightarrow> speaks_for_free a \<and> speaks_for_free b"
| "speaks_for_free (Lolli a b) \<longleftrightarrow> speaks_for_free a \<and> speaks_for_free b"
| "speaks_for_free (Replicated a l) \<longleftrightarrow> speaks_for_free a"

text \<open>The reading in which everything is true but that one party speaks for another.\<close>

definition no_delegation :: "dprop \<Rightarrow> bool" where
  "no_delegation \<phi> = (case \<phi> of SpeaksFor p q \<Rightarrow> False | _ \<Rightarrow> True)"

lemma speaks_for_free_holds: "speaks_for_free \<phi> \<Longrightarrow> holds no_delegation UNIV \<phi>"
  by (induction \<phi>) (simp_all add: no_delegation_def)

text \<open>The parties one of whose own signatures in \<open>t\<close> verifies under their first row of the keyring.\<close>

definition vouched :: "ed25519_lib \<Rightarrow> (cbor \<Rightarrow> bytes) \<Rightarrow> key_ring \<Rightarrow> trm \<Rightarrow> principal_id set" where
  "vouched L cw k t = {i. \<exists>m sg r. Sign (Atom_p i) m sg \<in> set (subterms t) \<and>
     find (\<lambda>r. kr_principal r = i) (entries k) = Some r \<and>
     dalek_verify L (public_key r) (canonical_bytes cw m) (sig_bytes sg)}"

lemma accepted_holds:
  assumes "verify_with_assumptions L cw cr wire claimed k as = Some VOk" "decode cr wire = Inr t"
    "attenuate_free t" "vouched L cw k t \<subseteq> S" "\<forall>\<phi> \<in> set as. holds I S \<phi>"
  shows "holds I S claimed"
proof -
  from assms(1,2) have ty: "infer \<lparr>additive = as, linear = []\<rparr> t = Some claimed"
    and "\<forall>s \<in> set (subterms t). sig_ok L cw k s" by (simp_all add: verify_accepts)
  then have "signers t \<subseteq> S" using signers_vouched assms(4) by (fastforce simp: vouched_def)
  from infer_sound [OF ty assms(3) this] assms(5) show ?thesis by (simp add: ctx_holds_def)
qed

text \<open>A delegation to the signer of a token, assumed.\<close>

definition demo_says :: dprop where
  "demo_says = Says (Atom_p demo_id) (SpeaksFor (Atom_p demo_id) (Atom_p demo_id))"


definition demo_token :: trm where
  "demo_token = Delegate (Var 0)
     (sign_as toy_ed25519 put demo_id (replicate 32 1) (Now \<lparr>epoch_ms = 9\<rparr>))"

definition demo_claim :: dprop where
  "demo_claim = Says (Acting (Atom_p demo_id) (Atom_p demo_id)) Top"

lemma cdepth_index [simp]: "cdepth (u32_int i) = 0"
  by (simp add: u32_int_def)

lemma demo_delegated:
  "decode (toy_read 16) (encode put demo_token) = Inr demo_token"
  "verify_with_assumptions toy_ed25519 put (toy_read 16) (encode put demo_token) demo_claim
     demo_ring [demo_says] = Some VOk"
  "attenuate_free demo_token"
proof -
  show d: "decode (toy_read 16) (encode put demo_token) = Inr demo_token"
    by (rule decode_encode [OF toy_codec]) (simp_all add: demo_token_def sign_as_def demo_wf)
  show "verify_with_assumptions toy_ed25519 put (toy_read 16) (encode put demo_token) demo_claim
     demo_ring [demo_says] = Some VOk"
    using sign_as_ok [OF toy_ed25519_ok demo_holds, of put "Now \<lparr>epoch_ms = 9\<rparr>"]
    by (simp add: verify_accepts d)
      (simp add: demo_token_def demo_says_def demo_claim_def sign_as_def infer_var_def
        delegate_says_def sig_ok_def)
  show "attenuate_free demo_token" by (simp add: demo_token_def sign_as_def)
qed

section \<open>Properties\<close>



text \<open>C5: an accepted claim follows from the assumptions.  Read every atom, falsity, speaks-for
  and linear implication as one likes, and \<open>p says \<phi>\<close> as \<open>\<phi>\<close> with \<open>p\<close> among the parties whose
  keys vouch for the token: if the assumptions given to the verifier are true, so is the
  claim of any token it accepts that has no \<open>Attenuate\<close>.\<close>

theorem accepted_claims_follow:
  assumes "verify_with_assumptions L cw cr wire claimed k as = Some VOk" "decode cr wire = Inr t"
    "attenuate_free t" "\<forall>\<phi> \<in> set as. holds I (vouched L cw k t) \<phi>"
  shows "holds I (vouched L cw k t) claimed"
  using accepted_holds [OF assms(1-3) subset_refl assms(4)] .

theorem accepted_claims_follow_witness:
  "holds (\<lambda>_. True) (vouched toy_ed25519 put demo_ring (Var 0)) (Atom 7)"
proof -
  have d: "decode (toy_read 16) (encode put (Var 0)) = Inr (Var 0)"
    by (rule decode_encode [OF toy_codec]) simp_all
  show ?thesis
    by (rule accepted_claims_follow [of _ _ "toy_read 16" "encode put (Var 0)" _ _ "[Atom 7]"])
      (simp_all add: d verify_accepts infer_var_def sig_ok_def)
qed

text \<open>C11: delegation needs a delegation.  When the verifier accepts a token that ends in
  \<open>Delegate m n\<close>, where \<open>m\<close> has no \<open>Attenuate\<close>, one of its assumptions speaks of
  \<open>speaks-for\<close>.  Without assumptions no delegation is accepted but through \<open>Attenuate\<close>.\<close>

theorem delegation_rests_on_assumptions:
  assumes "verify_with_assumptions L cw cr wire claimed k as = Some VOk"
    "decode cr wire = Inr (Delegate m n)" "attenuate_free m"
  shows "\<exists>\<phi> \<in> set as. \<not> speaks_for_free \<phi>"
proof (rule ccontr)
  assume "\<not> ?thesis"
  then have free: "\<forall>\<phi> \<in> set as. holds no_delegation UNIV \<phi>" using speaks_for_free_holds by blast
  from assms(1,2) obtain p q where "infer \<lparr>additive = as, linear = []\<rparr> m = Some (Says p (SpeaksFor q p))"
    by (auto simp: verify_accepts infer_elims)
  from infer_sound [OF this assms(3), of UNIV no_delegation] free show False
    by (simp add: ctx_holds_def no_delegation_def)
qed

theorem delegation_rests_on_assumptions_witness: "\<not> speaks_for_free demo_says"
proof -
  have "decode (toy_read 16) (encode put demo_token) = Inr (Delegate (Var 0)
      (sign_as toy_ed25519 put demo_id (replicate 32 1) (Now \<lparr>epoch_ms = 9\<rparr>)))"
    by (simp add: demo_delegated(1)) (simp add: demo_token_def)
  from delegation_rests_on_assumptions [OF demo_delegated(2) this] show ?thesis by simp
qed

end
