(* ===== verification/Normal.thy ===== *)
theory Normal
  imports Reduce
begin

text \<open>
  Evaluation ends (\<open>crates/dlc-core/src/reduce.rs\<close>): a closed well-typed term without
  \<open>LetTensor\<close> and \<open>SaysBind\<close> reduces in finitely many steps to a value or to a form that
  only the verifier acts on.  The proof is by reducibility, a predicate on terms by
  recursion on their type.  With \<open>LetTensor\<close> it fails: there is a closed well-typed term
  that reduces for ever.
\<close>

section \<open>Terms that are too deep\<close>

text \<open>Terms whose reducts may compute indices beyond 31 bits; nothing is said of evaluation from there.\<close>

definition too_deep :: "trm \<Rightarrow> bool" where
  "too_deep t \<longleftrightarrow> 2 ^ 31 \<le> 2 * bdepth t"

lemma too_deep_mono: "bdepth t \<le> bdepth u \<Longrightarrow> too_deep t \<Longrightarrow> too_deep u"
  by (simp add: too_deep_def)

lemma not_too_deep_fits: "\<not> too_deep t \<Longrightarrow> fits 0 t"
  by (simp add: too_deep_def fits_def)

section \<open>Closing substitutions\<close>

text \<open>Below \<open>k\<close> binders the free indices of a term become the closed terms of \<open>es\<close>.\<close>

primrec close :: "trm list \<Rightarrow> nat \<Rightarrow> trm \<Rightarrow> trm" where
  "close es k (Var i) =
     (if k \<le> unat i \<and> unat i - k < length es then es ! (unat i - k) else Var i)"
| "close es k (Lam p b) = Lam p (close es (Suc k) b)"
| "close es k (App f x) = App (close es k f) (close es k x)"
| "close es k (Sign p m s) = Sign p (close es k m) s"
| "close es k (Verify p m s) = Verify p (close es k m) s"
| "close es k (Delegate m n) = Delegate (close es k m) (close es k n)"
| "close es k (Attenuate m \<psi>) = Attenuate (close es k m) \<psi>"
| "close es k (SaysBind p s b) = SaysBind p (close es k s) (close es (Suc k) b)"
| "close es k (Boxed_t ob m n) = Boxed_t ob (close es k m) (close es k n)"
| "close es k (Discharge m n) = Discharge (close es k m) (close es k n)"
| "close es k (LiftLabel l m) = LiftLabel l (close es k m)"
| "close es k (Declassify l m p) = Declassify l (close es k m) (close es k p)"
| "close es k (Now t) = Now t"
| "close es k (WithinIntro t m) = WithinIntro t (close es k m)"
| "close es k (Pair_t a b) = Pair_t (close es k a) (close es k b)"
| "close es k (Fst a) = Fst (close es k a)"
| "close es k (Snd a) = Snd (close es k a)"
| "close es k (Inl_t p a) = Inl_t p (close es k a)"
| "close es k (Inr_t p a) = Inr_t p (close es k a)"
| "close es k (Case s l r) = Case (close es k s) (close es (Suc k) l) (close es (Suc k) r)"
| "close es k (TensorIntro a b) = TensorIntro (close es k a) (close es k b)"
| "close es k (LetTensor s b) = LetTensor (close es k s) (close es (Suc (Suc k)) b)"
| "close es k (LetSays p s b) = LetSays p (close es k s) (close es (Suc k) b)"
| "close es k (SfExtract m) = SfExtract (close es k m)"
| "close es k (Command m cr l) = Command (close es k m) (close es k cr) l"
| "close es k (RunCmd v s) = RunCmd (close es k v) (close es k s)"

abbreviation closed_terms :: "trm list \<Rightarrow> bool" where
  "closed_terms es \<equiv> \<forall>e \<in> set es. closed_at 0 e"

lemma closed_at_mono: "closed_at k t \<Longrightarrow> k \<le> n \<Longrightarrow> closed_at n t"
  by (induction t arbitrary: k n) fastforce+

lemma close_nil: "close [] k t = t"
  by (induction t arbitrary: k) simp_all

lemma close_closed:
  "closed_at (k + length es) t \<Longrightarrow> closed_terms es \<Longrightarrow> closed_at k (close es k t)"
proof (induction t arbitrary: k)
  case (Var i)
  then show ?case
    by (auto intro: closed_at_mono [of 0])
qed simp_all

text \<open>Substituting for the innermost binder is closing with one term more.\<close>

lemma subst_close:
  assumes "closed_at 0 x" "closed_terms es"
  shows "closed_at (Suc k + length es) t \<Longrightarrow> fits k (close es (Suc k) t) \<Longrightarrow> fits 0 x \<Longrightarrow>
    subst_at (close es (Suc k) t) x (of_nat k) = close (x # es) k t"
proof (induction t arbitrary: k)
  case (Var i)
  have k: "k < 2 ^ 31" using fits_bound [OF Var.prems(2)] .
  consider "unat i < k" | "unat i = k" | "k < unat i" by linarith
  then show ?case
  proof cases
    case 1
    then show ?thesis by (simp add: subst_var_nat [OF k] del: subst_at.simps)
  next
    case 2
    then show ?thesis using shift_closed [of 0 x "of_nat k"] assms(1) Var.prems(3)
      by (simp add: subst_var_nat [OF k] del: subst_at.simps)
  next
    case 3
    then obtain j where j: "unat i = Suc (k + j)" by (metis less_iff_Suc_add add_Suc_right)
    with Var.prems(1) have "j < length es" by simp
    moreover from this assms(2) have "closed_at k (es ! j)" by (auto intro: closed_at_mono [of 0])
    ultimately show ?thesis using j Var.prems(2) subst_closed [of k "es ! j" x] by simp
  qed
qed (simp_all add: u32_step del: of_nat_Suc)

section \<open>Reducibility\<close>

text \<open>\<open>t\<close> reduces to a normal form of which \<open>P\<close> holds, or gets too deep.\<close>

definition evals :: "(trm \<Rightarrow> bool) \<Rightarrow> trm \<Rightarrow> bool" where
  "evals P t \<longleftrightarrow> (\<exists>v. red\<^sup>*\<^sup>* t v \<and> (too_deep v \<or> step v = None \<and> P v))"

lemma evals_normal: "step v = None \<Longrightarrow> P v \<Longrightarrow> evals P v"
  by (auto simp: evals_def)

lemma evals_deep: "too_deep v \<Longrightarrow> evals P v"
  by (auto simp: evals_def)

lemma evals_red: "red\<^sup>*\<^sup>* t u \<Longrightarrow> evals P u \<Longrightarrow> evals P t"
  unfolding evals_def by (meson rtranclp_trans)

lemma evals_step: "red t u \<Longrightarrow> evals P u \<Longrightarrow> evals P t"
  by (blast intro: evals_red)

lemma evals_mono: "evals P t \<Longrightarrow> (\<And>v. P v \<Longrightarrow> Q v) \<Longrightarrow> evals Q t"
  unfolding evals_def by blast

text \<open>An elimination evaluates what it eliminates, then acts on the value.\<close>

lemma evals_elim:
  assumes "evals P m" "\<And>m m'. red m m' \<Longrightarrow> red (E m) (E m')" "\<And>m. bdepth m \<le> bdepth (E m)"
    "\<And>v. step v = None \<Longrightarrow> P v \<Longrightarrow> evals Q (E v)"
  shows "evals Q (E m)"
proof -
  from assms(1) obtain v where v: "red\<^sup>*\<^sup>* m v" "too_deep v \<or> step v = None \<and> P v"
    by (auto simp: evals_def)
  from v(1) have "red\<^sup>*\<^sup>* (E m) (E v)"
    by (induction rule: rtranclp_induct) (auto intro: assms(2) rtranclp.rtrancl_into_rtrancl)
  moreover from v(2) have "evals Q (E v)"
    using assms(4) evals_deep too_deep_mono [OF assms(3)] by blast
  ultimately show ?thesis by (rule evals_red)
qed

text \<open>What a normal form of a type must be good for: its components, or its application, evaluate.\<close>

primrec reducible :: "dprop \<Rightarrow> trm \<Rightarrow> bool" where
  "reducible Top v \<longleftrightarrow> True"
| "reducible Bot v \<longleftrightarrow> True"
| "reducible (Atom n) v \<longleftrightarrow> True"
| "reducible (Imp a b) v \<longleftrightarrow>
     (\<forall>x. closed_at 0 x \<longrightarrow> evals (reducible a) x \<longrightarrow> evals (reducible b) (App v x))"
| "reducible (And a b) v \<longleftrightarrow>
     (\<forall>c d. v = Pair_t c d \<longrightarrow> evals (reducible a) c \<and> evals (reducible b) d)"
| "reducible (Or a b) v \<longleftrightarrow>
     (\<forall>\<psi> c. v = Inl_t \<psi> c \<longrightarrow> closed_at 0 c \<and> evals (reducible a) c) \<and>
     (\<forall>\<psi> c. v = Inr_t \<psi> c \<longrightarrow> closed_at 0 c \<and> evals (reducible b) c)"
| "reducible (Says p a) v \<longleftrightarrow>
     (\<forall>q c sg. v = Sign q c sg \<longrightarrow> closed_at 0 c \<and> evals (reducible a) c)"
| "reducible (SpeaksFor p q) v \<longleftrightarrow> True"
| "reducible (At a l) v \<longleftrightarrow> True"
| "reducible (Boxed ob a) v \<longleftrightarrow> (\<forall>ob' c e. v = Boxed_t ob' c e \<longrightarrow> evals (reducible a) c)"
| "reducible (Within t a) v \<longleftrightarrow> True"
| "reducible (Tensor a b) v \<longleftrightarrow> True"
| "reducible (Lolli a b) v \<longleftrightarrow> True"
| "reducible (Replicated a l) v \<longleftrightarrow> True"

text \<open>A normal form that is no value is good for anything: every elimination is stuck on it.\<close>

lemma stuck_App: "step v = None \<Longrightarrow> \<not> is_value v \<Longrightarrow> step (App v x) = None \<and> \<not> is_value (App v x)"
  by (cases v) (simp_all add: is_value_def)

lemma stuck_reducible: "step v = None \<Longrightarrow> \<not> is_value v \<Longrightarrow> reducible \<phi> v"
proof (induction \<phi> arbitrary: v)
  case (Imp a b)
  then show ?case using stuck_App by (auto intro!: evals_normal)
qed (auto simp: is_value_def)

lemma evals_stuck: "step v = None \<Longrightarrow> \<not> is_value v \<Longrightarrow> evals (reducible \<phi>) v"
  by (simp add: evals_normal stuck_reducible)

section \<open>Every typed term evaluates\<close>

lemma step_stuck:
  assumes "step v = None"
  shows "\<nexists>c d. v = Pair_t c d \<Longrightarrow> step (Fst v) = None \<and> step (Snd v) = None"
    "\<nexists>\<psi> c. v = Inl_t \<psi> c \<or> v = Inr_t \<psi> c \<Longrightarrow> step (Case v l r) = None"
    "\<nexists>c sg. v = Sign p c sg \<Longrightarrow> step (LetSays p v b) = None"
    "\<nexists>q c sg. v = Sign q c sg \<Longrightarrow> step (SfExtract v) = None"
    "\<nexists>q c sg. v = Sign q c sg \<Longrightarrow> step (Delegate v n) = None"
    "\<nexists>ob c e. v = Boxed_t ob c e \<Longrightarrow> step (Discharge v n) = None"
    "\<nexists>c k l. v = Command c k l \<Longrightarrow> step (RunCmd v n) = None"
  using assms by (cases v; auto)+

lemma evals_Fst:
  assumes "evals (reducible (And a b)) m"
  shows "evals (reducible a) (Fst m)"
proof (rule evals_elim [where E = "\<lambda>m. Fst m", OF assms])
  fix v assume v: "step v = None" "reducible (And a b) v"
  show "evals (reducible a) ((\<lambda>m. Fst m) v)"
  proof (cases "\<exists>c d. v = Pair_t c d")
    case True
    with v(2) show ?thesis by (auto intro: evals_step [OF fst_pair])
  next
    case False
    with step_stuck [OF v(1)] show ?thesis by (simp add: evals_stuck is_value_def del: step.simps)
  qed
qed (auto intro: red.intros)

lemma evals_Snd:
  assumes "evals (reducible (And a b)) m"
  shows "evals (reducible b) (Snd m)"
proof (rule evals_elim [where E = "\<lambda>m. Snd m", OF assms])
  fix v assume v: "step v = None" "reducible (And a b) v"
  show "evals (reducible b) ((\<lambda>m. Snd m) v)"
  proof (cases "\<exists>c d. v = Pair_t c d")
    case True
    with v(2) show ?thesis by (auto intro: evals_step [OF snd_pair])
  next
    case False
    with step_stuck [OF v(1)] show ?thesis by (simp add: evals_stuck is_value_def del: step.simps)
  qed
qed (auto intro: red.intros)

lemma evals_SfExtract:
  assumes "evals (reducible (Says p a)) m"
  shows "evals (reducible a) (SfExtract m)"
proof (rule evals_elim [where E = "\<lambda>m. SfExtract m", OF assms])
  fix v assume v: "step v = None" "reducible (Says p a) v"
  show "evals (reducible a) ((\<lambda>m. SfExtract m) v)"
  proof (cases "\<exists>q c sg. v = Sign q c sg")
    case True
    with v(2) show ?thesis by (auto intro: evals_step [OF sf_extract])
  next
    case False
    with step_stuck [OF v(1)] show ?thesis by (simp add: evals_stuck is_value_def del: step.simps)
  qed
qed (auto intro: red.intros)

lemma evals_Discharge:
  assumes "evals (reducible (Boxed ob a)) m"
  shows "evals (reducible a) (Discharge m x)"
proof (rule evals_elim [where E = "\<lambda>m. Discharge m x", OF assms])
  fix v assume v: "step v = None" "reducible (Boxed ob a) v"
  show "evals (reducible a) ((\<lambda>m. Discharge m x) v)"
  proof (cases "\<exists>ob c e. v = Boxed_t ob c e")
    case True
    with v(2) show ?thesis by (auto intro: evals_step [OF discharge])
  next
    case False
    with step_stuck [OF v(1)] show ?thesis by (simp add: evals_stuck is_value_def del: step.simps)
  qed
qed (auto intro: red.intros)

lemma evals_RunCmd: "evals P v \<Longrightarrow> evals (reducible (At a l)) (RunCmd v x)"
proof (rule evals_elim [where E = "\<lambda>v. RunCmd v x"])
  fix v assume v: "step v = None"
  show "evals (reducible (At a l)) ((\<lambda>v. RunCmd v x) v)"
  proof (cases "\<exists>c k l. v = Command c k l")
    case True
    then show ?thesis by (auto intro!: evals_step [OF run_cmd] evals_normal)
  next
    case False
    with step_stuck [OF v(1)] show ?thesis by (simp add: evals_stuck is_value_def del: step.simps)
  qed
qed (auto intro: red.intros)

lemma evals_App:
  assumes "evals (reducible (Imp a b)) f" "closed_at 0 x" "evals (reducible a) x"
  shows "evals (reducible b) (App f x)"
  by (rule evals_elim [where E = "\<lambda>f. App f x", OF assms(1)])
    (use assms(2,3) in \<open>auto intro: red.intros\<close>)

lemma evals_Delegate:
  assumes "evals (reducible (Says p a)) m" "evals (reducible (Says q b)) n"
  shows "evals (reducible (Says r b)) (Delegate m n)"
proof (rule evals_elim [where E = "\<lambda>m. Delegate m n", OF assms(1)])
  fix v assume v: "step v = None" "reducible (Says p a) v"
  show "evals (reducible (Says r b)) ((\<lambda>m. Delegate m n) v)"
  proof (cases "\<exists>q c sg. v = Sign q c sg")
    case True
    then obtain q1 c sg where c: "v = Sign q1 c sg" by blast
    have "evals (reducible (Says r b)) (Delegate v n)"
    proof (rule evals_elim [where E = "\<lambda>n. Delegate v n", OF assms(2)])
      fix w assume w: "step w = None" "reducible (Says q b) w"
      show "evals (reducible (Says r b)) (Delegate v w)"
      proof (cases "\<exists>q c sg. w = Sign q c sg")
        case True
        with w(2) show ?thesis unfolding c by (auto intro!: evals_step [OF delegate] evals_normal)
      next
        case False
        with w(1) have "step (Delegate v w) = None" unfolding c by (cases w) auto
        then show ?thesis by (rule evals_stuck) (simp add: is_value_def)
      qed
    qed (auto simp: c intro: red.intros)
    then show ?thesis by simp
  next
    case False
    with step_stuck [OF v(1)] show ?thesis by (simp add: evals_stuck is_value_def del: step.simps)
  qed
qed (auto intro: red.intros)

text \<open>A step that substitutes closes one binder more.\<close>

lemma evals_bind:
  assumes "red t (subst (close es (Suc 0) b) x)" "closed_at 0 x" "closed_terms es"
    "closed_at (Suc (length es)) b" "bdepth (close es (Suc 0) b) \<le> bdepth t" "bdepth x \<le> bdepth t"
    "evals P (close (x # es) 0 b)"
  shows "evals P t"
proof (cases "too_deep t")
  case False
  then have "fits 0 (close es (Suc 0) b)" "fits 0 x"
    using assms(5,6) by (auto simp: too_deep_def fits_def)
  with subst_close [OF assms(2,3), of 0 b] assms(1,4,7) show ?thesis
    by (auto simp: subst_def intro: evals_step)
qed (rule evals_deep)

lemma evals_Case:
  assumes "evals (reducible (Or a b)) m" "closed_terms es"
    "closed_at (Suc (length es)) l" "closed_at (Suc (length es)) r"
    "\<And>x. closed_at 0 x \<Longrightarrow> evals (reducible a) x \<Longrightarrow> evals (reducible c) (close (x # es) 0 l)"
    "\<And>x. closed_at 0 x \<Longrightarrow> evals (reducible b) x \<Longrightarrow> evals (reducible c) (close (x # es) 0 r)"
  shows "evals (reducible c) (Case m (close es (Suc 0) l) (close es (Suc 0) r))"
proof (rule evals_elim [where E = "\<lambda>m. Case m (close es (Suc 0) l) (close es (Suc 0) r)", OF assms(1)])
  fix v assume v: "step v = None" "reducible (Or a b) v"
  consider \<psi> x where "v = Inl_t \<psi> x" | \<psi> x where "v = Inr_t \<psi> x"
    | "\<nexists>\<psi> x. v = Inl_t \<psi> x \<or> v = Inr_t \<psi> x" by blast
  then show "evals (reducible c) ((\<lambda>m. Case m (close es (Suc 0) l) (close es (Suc 0) r)) v)"
  proof cases
    case 1
    with v(2) have "closed_at 0 x" "evals (reducible a) x" by auto
    with assms(5) evals_bind [OF case_inl [of \<psi> x] this(1) assms(2,3)] 1 show ?thesis by simp
  next
    case 2
    with v(2) have "closed_at 0 x" "evals (reducible b) x" by auto
    with assms(6) evals_bind [OF case_inr [of \<psi> x] this(1) assms(2,4)] 2 show ?thesis by simp
  next
    case 3
    with step_stuck [OF v(1)] show ?thesis by (simp add: evals_stuck is_value_def del: step.simps)
  qed
qed (auto intro: red.intros)

lemma evals_LetSays:
  assumes "evals (reducible (Says p a)) m" "closed_terms es" "closed_at (Suc (length es)) b"
    "\<And>x. closed_at 0 x \<Longrightarrow> evals (reducible a) x \<Longrightarrow> evals (reducible c) (close (x # es) 0 b)"
  shows "evals (reducible c) (LetSays p m (close es (Suc 0) b))"
proof (rule evals_elim [where E = "\<lambda>m. LetSays p m (close es (Suc 0) b)", OF assms(1)])
  fix v assume v: "step v = None" "reducible (Says p a) v"
  show "evals (reducible c) ((\<lambda>m. LetSays p m (close es (Suc 0) b)) v)"
  proof (cases "\<exists>x sg. v = Sign p x sg")
    case True
    then obtain x sg where x: "v = Sign p x sg" by blast
    with v(2) have "closed_at 0 x" "evals (reducible a) x" by auto
    with assms(4) evals_bind [OF let_says [of p x sg] this(1) assms(2,3)] x show ?thesis by simp
  next
    case False
    with step_stuck [OF v(1)] show ?thesis by (simp add: evals_stuck is_value_def del: step.simps)
  qed
qed (auto intro: red.intros)

lemma evals_Lam:
  assumes "closed_terms es" "closed_at (Suc (length es)) b"
    "\<And>x. closed_at 0 x \<Longrightarrow> evals (reducible a) x \<Longrightarrow> evals (reducible c) (close (x # es) 0 b)"
  shows "evals (reducible (Imp a c)) (Lam a (close es (Suc 0) b))"
proof (rule evals_normal)
  show "reducible (Imp a c) (Lam a (close es (Suc 0) b))"
    unfolding reducible.simps
  proof (intro allI impI)
    fix x assume x: "closed_at 0 x" "evals (reducible a) x"
    from evals_bind [OF beta x(1) assms(1,2)] assms(3) [OF x]
    show "evals (reducible c) (App (Lam a (close es (Suc 0) b)) x)" by simp
  qed
qed simp

text \<open>The terms of \<open>es\<close> stand for the hypotheses \<open>as\<close>.\<close>

definition stand_for :: "trm list \<Rightarrow> dprop list \<Rightarrow> bool" where
  "stand_for es as \<longleftrightarrow> closed_terms es \<and> list_all2 (\<lambda>e \<phi>. evals (reducible \<phi>) e) es as"

lemma stand_for_Cons [simp]:
  "stand_for (e # es) (\<phi> # as) \<longleftrightarrow> closed_at 0 e \<and> evals (reducible \<phi>) e \<and> stand_for es as"
  by (auto simp: stand_for_def)

lemma stand_for_simps:
  "stand_for es as \<Longrightarrow> length es = length as" "stand_for es as \<Longrightarrow> closed_terms es"
  by (auto simp: stand_for_def list_all2_lengthD)

lemma reducible_close:
  "infer (mk_ctx as []) t = Some \<phi> \<Longrightarrow> letTensor_free t \<Longrightarrow> saysBind_free t \<Longrightarrow>
    closed_at (length as) t \<Longrightarrow> stand_for es as \<Longrightarrow> evals (reducible \<phi>) (close es 0 t)"
proof (induction t arbitrary: as es \<phi>)
  case (Var i)
  then have "unat i < length as" "\<phi> = as ! unat i" by (auto simp: infer_var_additive get_nth_Some)
  with Var.prems(5) show ?case
    using list_all2_nthD2 [of "\<lambda>e \<phi>. evals (reducible \<phi>) e" es as "unat i"]
    by (auto simp: stand_for_def dest: list_all2_lengthD)
next
  case (Lam \<psi> b)
  then obtain \<chi> where b: "infer (mk_ctx (\<psi> # as) []) b = Some \<chi>" "\<phi> = Imp \<psi> \<chi>"
    by (auto simp: infer_elims)
  have "evals (reducible (Imp \<psi> \<chi>)) (Lam \<psi> (close es (Suc 0) b))"
    by (rule evals_Lam) (use b Lam in \<open>auto simp: stand_for_simps\<close>)
  with b(2) show ?case by (simp del: reducible.simps)
next
  case (App f x)
  then obtain \<psi> where f: "infer (mk_ctx as []) f = Some (Imp \<psi> \<phi>)" "infer (mk_ctx as []) x = Some \<psi>"
    by (auto simp: infer_elims)
  have "closed_at 0 (close es 0 x)" using App.prems by (auto simp: stand_for_simps intro: close_closed)
  from evals_App [OF App.IH(1) [OF f(1)] this App.IH(2) [OF f(2)]] App.prems show ?case by simp
next
  case (Sign p m sg)
  then obtain \<psi> where m: "infer (mk_ctx as []) m = Some \<psi>" "\<phi> = Says p \<psi>" by (auto simp: infer_elims)
  have "closed_at 0 (close es 0 m)" using Sign.prems by (auto simp: stand_for_simps intro: close_closed)
  with Sign.IH [OF m(1)] Sign.prems m(2) show ?case by (auto intro: evals_normal)
next
  case (Delegate m n)
  then obtain p q \<psi> where m: "infer (mk_ctx as []) m = Some (Says p (SpeaksFor q p))"
    "infer (mk_ctx as []) n = Some (Says q \<psi>)" "\<phi> = Says (Acting p q) \<psi>" by (auto simp: infer_elims)
  from evals_Delegate [OF Delegate.IH(1) [OF m(1)] Delegate.IH(2) [OF m(2)]] Delegate.prems m(3)
  show ?case by (simp del: reducible.simps)
next
  case (LetSays p m b)
  then obtain \<psi> where m: "infer (mk_ctx as []) m = Some (Says p \<psi>)"
    "infer (mk_ctx (\<psi> # as) []) b = Some \<phi>" by (auto simp: infer_elims)
  have "evals (reducible \<phi>) (LetSays p (close es 0 m) (close es (Suc 0) b))"
    by (rule evals_LetSays [OF LetSays.IH(1) [OF m(1)]])
      (use m LetSays in \<open>auto simp: stand_for_simps\<close>)
  then show ?case by simp
next
  case (Case m l r)
  then obtain a b where m: "infer (mk_ctx as []) m = Some (Or a b)"
    "infer (mk_ctx (a # as) []) l = Some \<phi>" "infer (mk_ctx (b # as) []) r = Some \<phi>"
    by (auto simp: infer_elims split: prod.splits)
  have "evals (reducible \<phi>) (Case (close es 0 m) (close es (Suc 0) l) (close es (Suc 0) r))"
    by (rule evals_Case [OF Case.IH(1) [OF m(1)]]) (use m Case in \<open>auto simp: stand_for_simps\<close>)
  then show ?case by simp
next
  case (Pair_t a b)
  then obtain \<psi> \<chi> where m: "infer (mk_ctx as []) a = Some \<psi>" "infer (mk_ctx as []) b = Some \<chi>"
    "\<phi> = And \<psi> \<chi>" by (auto simp: infer_elims)
  from Pair_t.IH(1) [OF m(1)] Pair_t.IH(2) [OF m(2)] Pair_t.prems m(3) show ?case
    by (auto intro: evals_normal)
next
  case (Fst m)
  then obtain \<psi> where m: "infer (mk_ctx as []) m = Some (And \<phi> \<psi>)" by (auto simp: infer_elims)
  from evals_Fst [OF Fst.IH [OF m]] Fst.prems show ?case by simp
next
  case (Snd m)
  then obtain \<psi> where m: "infer (mk_ctx as []) m = Some (And \<psi> \<phi>)" by (auto simp: infer_elims)
  from evals_Snd [OF Snd.IH [OF m]] Snd.prems show ?case by simp
next
  case (Inl_t \<psi> m)
  then obtain \<chi> where m: "infer (mk_ctx as []) m = Some \<chi>" "\<phi> = Or \<chi> \<psi>" by (auto simp: infer_elims)
  have "closed_at 0 (close es 0 m)" using Inl_t.prems by (auto simp: stand_for_simps intro: close_closed)
  with Inl_t.IH [OF m(1)] Inl_t.prems m(2) show ?case by (auto intro: evals_normal)
next
  case (Inr_t \<psi> m)
  then obtain \<chi> where m: "infer (mk_ctx as []) m = Some \<chi>" "\<phi> = Or \<psi> \<chi>" by (auto simp: infer_elims)
  have "closed_at 0 (close es 0 m)" using Inr_t.prems by (auto simp: stand_for_simps intro: close_closed)
  with Inr_t.IH [OF m(1)] Inr_t.prems m(2) show ?case by (auto intro: evals_normal)
next
  case (SfExtract m)
  then obtain p q where m: "infer (mk_ctx as []) m = Some (Says p (SpeaksFor q p))" "\<phi> = SpeaksFor q p"
    by (auto simp: infer_elims)
  from evals_SfExtract [OF SfExtract.IH [OF m(1)]] SfExtract.prems m(2) show ?case
    by (simp del: reducible.simps)
next
  case (Discharge m x)
  then obtain ob where m: "infer (mk_ctx as []) m = Some (Boxed ob \<phi>)" by (auto simp: infer_elims)
  from evals_Discharge [OF Discharge.IH(1) [OF m]] Discharge.prems show ?case by simp
next
  case (Boxed_t ob m x)
  then obtain \<psi> where m: "infer (mk_ctx as []) m = Some \<psi>" "\<phi> = Boxed ob \<psi>" by (auto simp: infer_elims)
  from Boxed_t.IH(1) [OF m(1)] Boxed_t.prems m(2) show ?case by (auto intro: evals_normal)
next
  case (RunCmd v s)
  then obtain a l where v: "infer (mk_ctx as []) v = Some (Replicated (Imp a a) l)" "\<phi> = At a l"
    by (auto simp: infer_elims split: prod.splits if_splits)
  from evals_RunCmd [OF RunCmd.IH(1) [OF v(1)]] RunCmd.prems v(2) show ?case
    by (simp del: reducible.simps)
next
  case (Verify p m sg)
  show ?case by (simp add: evals_stuck is_value_def)
next
  case (Attenuate m \<psi>)
  show ?case by (simp add: evals_stuck is_value_def)
next
  case (Declassify l m x)
  show ?case by (simp add: evals_stuck is_value_def)
qed (auto simp: infer_elims intro: evals_normal)

text \<open>Up to the first term that is too deep the type is kept.\<close>

lemma reach_typed:
  assumes "red\<^sup>*\<^sup>* t v" "infer ctx_empty t = Some \<phi>" "letTensor_free t" "saysBind_free t"
  shows "(\<exists>u. red\<^sup>*\<^sup>* t u \<and> too_deep u) \<or>
    infer ctx_empty v = Some \<phi> \<and> letTensor_free v \<and> saysBind_free v"
  using assms(1)
proof (induction rule: rtranclp_induct)
  case base
  with assms(2-4) show ?case by simp
next
  case (step v w)
  show ?case
  proof (cases "too_deep v")
    case False
    then have "length (additive ctx_empty) + 2 * bdepth v < 2 ^ 31"
      by (simp add: too_deep_def ctx_empty_def)
    with step.IH step.hyps(2) red_typing [OF step.hyps(2)] red_free [OF step.hyps(2)] show ?thesis
      by (auto simp: ctx_empty_def)
  qed (use step.hyps(1) in blast)
qed

lemma evaluation:
  assumes "infer ctx_empty t = Some \<phi>" "closed_at 0 t" "letTensor_free t" "saysBind_free t"
  shows "\<exists>u. red\<^sup>*\<^sup>* t u \<and>
    (too_deep u \<or> step u = None \<and> infer ctx_empty u = Some \<phi> \<and> (is_value u \<or> blocked u))"
proof -
  have "evals (reducible \<phi>) t"
    using reducible_close [of "[]" t \<phi> "[]"] assms by (simp add: stand_for_def close_nil ctx_empty_mk)
  then obtain v where v: "red\<^sup>*\<^sup>* t v" "too_deep v \<or> step v = None" by (auto simp: evals_def)
  from reach_typed [OF v(1) assms(1,3,4)] v progress_red [of v \<phi>] step_None_iff show ?thesis by metis
qed

section \<open>A term that reduces for ever\<close>

text \<open>
  The body of a \<open>LetTensor\<close> is checked with index 0 and 1 as the two innermost additive
  hypotheses and evaluated with the components of the tensor in their place.  With
  \<open>g :: Top \<supset> Top\<close> innermost, \<open>App (Var 0) (Var 1)\<close> is checked as an application
  of a hypothesis and evaluated as the application of any term to any other, such as of
  self-application to itself.
\<close>

definition self_apply :: trm where
  "self_apply = Lam (Imp (Imp Top Top) Top) (LetTensor (TensorIntro (Var 0) (Var 0)) (App (Var 0) (Var 1)))"

definition omega_body :: trm where
  "omega_body = LetTensor (TensorIntro self_apply self_apply) (App (Var 0) (Var 1))"

definition omega :: trm where
  "omega = App (App (Lam Top (Lam (Imp Top Top) omega_body)) (Now \<lparr>epoch_ms = 0\<rparr>)) (Lam Top (Var 0))"

lemma omega_typed: "infer ctx_empty omega = Some Top"
  by (simp add: omega_def omega_body_def self_apply_def infer_var_def imp_elim_def tensor_parts_def
      get_nth_def ctx_empty_def)

lemma omega_closed: "closed_at 0 omega"
  by (simp add: omega_def omega_body_def self_apply_def)

lemma self_apply_subst [simp]:
  "subst_at self_apply v 0 = self_apply" "subst_at self_apply v 1 = self_apply"
  "shift self_apply 0 0 = self_apply" "shift self_apply 1 0 = self_apply"
  by (simp_all add: self_apply_def)

lemma omega_steps:
  "step omega = Some (App (Lam (Imp Top Top) omega_body) (Lam Top (Var 0)))"
  "step (App (Lam (Imp Top Top) omega_body) (Lam Top (Var 0))) = Some omega_body"
  "step omega_body = Some (App self_apply self_apply)"
  "step (App self_apply self_apply) = Some omega_body"
proof -
  show "step omega = Some (App (Lam (Imp Top Top) omega_body) (Lam Top (Var 0)))"
    by (simp add: omega_def omega_body_def self_apply_def subst_def)
  show "step (App (Lam (Imp Top Top) omega_body) (Lam Top (Var 0))) = Some omega_body"
    by (simp add: omega_body_def subst_def)
  show "step omega_body = Some (App self_apply self_apply)"
    by (simp add: omega_body_def subst_def)
  have "step (App self_apply x) = Some (LetTensor (TensorIntro (shift x 0 0) (shift x 0 0)) (App (Var 0) (Var 1)))" for x
    by (simp add: self_apply_def subst_def)
  then show "step (App self_apply self_apply) = Some omega_body" by (simp add: omega_body_def)
qed

text \<open>The terms that \<open>omega\<close> goes through.\<close>

definition omega_orbit :: "trm set" where
  "omega_orbit = {omega, App (Lam (Imp Top Top) omega_body) (Lam Top (Var 0)), omega_body,
     App self_apply self_apply}"

lemma orbit_steps: "u \<in> omega_orbit \<Longrightarrow> \<exists>w. red u w \<and> w \<in> omega_orbit"
  using omega_steps [THEN step_red] unfolding omega_orbit_def by blast

lemma orbit_reached: "(red ^^ k) omega u \<Longrightarrow> u \<in> omega_orbit"
proof (induction k arbitrary: u)
  case 0
  then show ?case by (simp add: omega_orbit_def)
next
  case (Suc k)
  then obtain v where "(red ^^ k) omega v" "red v u" by auto
  with Suc.IH orbit_steps show ?case by (metis red_deterministic)
qed

lemma orbit_not_normal: "u \<in> omega_orbit \<Longrightarrow> step u \<noteq> None"
  using orbit_steps red_step by fastforce

section \<open>Properties\<close>

text \<open>C6: evaluation ends.  A closed term without \<open>LetTensor\<close> and \<open>SaysBind\<close> that the checker
  accepts reduces in finitely many steps to a term of the same type that is a value or is blocked on a
  form that only the verifier acts on, and \<open>reduce_with_fuel\<close> returns it on any fuel
  beyond that number; the one escape is a reduct with \<open>2 ^ 30\<close> nested binders.\<close>

theorem evaluation_ends:
  assumes "infer ctx_empty t = Some \<phi>" "closed_at 0 t" "letTensor_free t" "saysBind_free t"
  shows "\<exists>k u. (red ^^ k) t u \<and> (2 ^ 30 \<le> bdepth u \<or>
    infer ctx_empty u = Some \<phi> \<and> (is_value u \<or> blocked u) \<and>
    (\<forall>fuel. k < unat fuel \<longrightarrow> reduce_with_fuel t fuel = (u, of_nat k)))"
proof -
  obtain u where u: "red\<^sup>*\<^sup>* t u" "too_deep u \<or> step u = None \<and> infer ctx_empty u = Some \<phi> \<and> (is_value u \<or> blocked u)"
    using evaluation [OF assms] by blast
  then obtain k where k: "(red ^^ k) t u" by (auto simp: rtranclp_power)
  have "reduce_with_fuel t fuel = (u, of_nat k)" if "k < unat fuel" "step u = None" for fuel
  proof -
    have "unat (of_nat k :: u32) = k"
      using that(1) unsigned_less [of fuel, where ?'a = nat]
      by (simp add: unat_of_nat take_bit_nat_eq_self)
    with k that show ?thesis by (simp add: reduce_with_fuel_char word_less_nat_alt)
  qed
  with u(2) k show ?thesis by (auto simp: too_deep_def)
qed

theorem evaluation_ends_witness:
  "\<exists>k u. (red ^^ k) (App (Lam Top (Var 0)) (Now \<lparr>epoch_ms = 5\<rparr>)) u \<and> (2 ^ 30 \<le> bdepth u \<or>
    infer ctx_empty u = Some Top \<and> (is_value u \<or> blocked u) \<and>
    (\<forall>fuel. k < unat fuel \<longrightarrow>
      reduce_with_fuel (App (Lam Top (Var 0)) (Now \<lparr>epoch_ms = 5\<rparr>)) fuel = (u, of_nat k)))"
  by (rule evaluation_ends) (simp_all add: infer_var_def imp_elim_def ctx_empty_def)

text \<open>C10: with \<open>LetTensor\<close> it need not.  \<open>omega\<close> is closed and of type \<open>Top\<close>, yet each of
  its reducts steps again: every run of \<open>reduce_with_fuel\<close> uses up its fuel, whatever it is.\<close>

theorem letTensor_diverges:
  "infer ctx_empty omega = Some Top \<and> closed_at 0 omega \<and>
   (\<forall>k u. \<not> ((red ^^ k) omega u \<and> step u = None)) \<and>
   snd (reduce_with_fuel omega fuel) = fuel"
proof -
  obtain u n where r: "reduce_with_fuel omega fuel = (u, n)" by (cases "reduce_with_fuel omega fuel")
  with orbit_reached orbit_not_normal have "n = fuel" unfolding reduce_with_fuel_char by blast
  with r omega_typed omega_closed orbit_reached orbit_not_normal show ?thesis by auto
qed

end
