(* ===== verification/Graded.thy ===== *)
theory Graded
  imports Syntax
begin

text \<open>
  Differential-privacy budgets: \<open>DpBudget\<close> of \<open>crates/dlc-core/src/obligation.rs\<close>, the
  graded carrier of \<open>crates/dlc-core/src/graded.rs\<close>, and the grades \<open>Spend\<close> and
  \<open>Risk\<close> of \<open>crates/dlc-grade-quantale/src/lib.rs\<close>.  The laws that the traits
  \<open>Lattice\<close>, \<open>BoundedLattice\<close>, \<open>Quantale\<close> and \<open>ResiduatedQuantale\<close> promise are locales; the
  implementations are interpretations of them.
\<close>

section \<open>Budgets and the graded carrier\<close>

definition dp_zero :: dp_budget where
  "dp_zero = \<lparr>epsilon_micros = 0, delta_micros = 0\<rparr>"

definition dp_saturating_add :: "dp_budget \<Rightarrow> dp_budget \<Rightarrow> dp_budget" where
  "dp_saturating_add a b =
     \<lparr>epsilon_micros = sat_add (epsilon_micros a) (epsilon_micros b),
      delta_micros = sat_add (delta_micros a) (delta_micros b)\<rparr>"

definition dp_leq :: "dp_budget \<Rightarrow> dp_budget \<Rightarrow> bool" where
  "dp_leq a b \<longleftrightarrow> epsilon_micros a \<le> epsilon_micros b \<and> delta_micros a \<le> delta_micros b"

record 'a graded =
  gvalue :: 'a
  grade :: dp_budget

definition graded_pure :: "'a \<Rightarrow> 'a graded" where
  "graded_pure x = \<lparr>gvalue = x, grade = dp_zero\<rparr>"

definition counit :: "'a graded \<Rightarrow> 'a graded + 'a" where
  "counit g = (if grade g = dp_zero then Inr (gvalue g) else Inl g)"

definition graded_map :: "('a \<Rightarrow> 'b) \<Rightarrow> 'a graded \<Rightarrow> 'b graded" where
  "graded_map f g = \<lparr>gvalue = f (gvalue g), grade = grade g\<rparr>"

definition consume :: "'a graded \<Rightarrow> dp_budget \<Rightarrow> 'a graded" where
  "consume g additional =
     \<lparr>gvalue = gvalue g, grade = dp_saturating_add (grade g) additional\<rparr>"

definition within_budget :: "'a graded \<Rightarrow> dp_budget \<Rightarrow> bool" where
  "within_budget g ceiling = dp_leq (grade g) ceiling"

section \<open>The contracts of the grade traits\<close>

locale quantale =
  fixes leq :: "'a \<Rightarrow> 'a \<Rightarrow> bool" and meet join :: "'a \<Rightarrow> 'a \<Rightarrow> 'a" and top bottom unit :: 'a
    and tensor :: "'a \<Rightarrow> 'a \<Rightarrow> 'a"
  assumes leq_refl: "leq a a"
    and leq_trans: "leq a b \<Longrightarrow> leq b c \<Longrightarrow> leq a c"
    and leq_antisym: "leq a b \<Longrightarrow> leq b a \<Longrightarrow> a = b"
    and meet_greatest: "leq c (meet a b) \<longleftrightarrow> leq c a \<and> leq c b"
    and join_least: "leq (join a b) c \<longleftrightarrow> leq a c \<and> leq b c"
    and top_greatest: "leq a top"
    and bottom_least: "leq bottom a"
    and tensor_assoc: "tensor (tensor a b) c = tensor a (tensor b c)"
    and tensor_commute: "tensor a b = tensor b a"
    and tensor_unit: "tensor unit a = a"
    and tensor_bottom: "tensor bottom a = bottom"
    and tensor_join: "tensor a (join b c) = join (tensor a b) (tensor a c)"
begin

lemma leq_join: "leq a b \<longleftrightarrow> join a b = b"
  by (metis join_least leq_antisym leq_refl)

lemma tensor_mono: "leq a b \<Longrightarrow> leq (tensor c a) (tensor c b)"
  by (metis leq_join tensor_join)

text \<open>The grade of a pipeline, and what a longer one costs when the unit is the top.\<close>

lemma pipeline_append:
  "foldr tensor (xs @ ys) unit = tensor (foldr tensor xs unit) (foldr tensor ys unit)"
  by (induction xs) (simp_all add: tensor_unit tensor_assoc)

lemma pipeline_decreases:
  assumes "unit = top"
  shows "leq (foldr tensor (xs @ ys) unit) (foldr tensor xs unit)"
  unfolding pipeline_append
  by (metis assms tensor_commute tensor_mono tensor_unit top_greatest)

end

locale residuated_quantale = quantale +
  fixes residual :: "'a \<Rightarrow> 'a \<Rightarrow> 'a"
  assumes adjoint: "leq (tensor a b) c \<longleftrightarrow> leq b (residual a c)"
begin

lemma residual_reaches: "leq (tensor a (residual a c)) c"
  by (simp add: adjoint leq_refl)

lemma residual_curry: "residual (tensor a b) c = residual b (residual a c)"
  by (metis adjoint leq_antisym leq_refl tensor_assoc)

lemma residual_unit: "residual unit c = c"
  by (metis adjoint leq_antisym leq_refl tensor_unit)

end

locale quantale_hom =
  src: quantale leq1 meet1 join1 top1 bottom1 unit1 tensor1 +
  tgt: quantale leq2 meet2 join2 top2 bottom2 unit2 tensor2
  for leq1 :: "'a \<Rightarrow> 'a \<Rightarrow> bool" and meet1 join1 top1 bottom1 unit1 tensor1
    and leq2 :: "'b \<Rightarrow> 'b \<Rightarrow> bool" and meet2 join2 top2 bottom2 unit2 tensor2 +
  fixes h :: "'a \<Rightarrow> 'b"
  assumes hom_mono: "leq1 a b \<Longrightarrow> leq2 (h a) (h b)"
    and hom_unit: "h unit1 = unit2"
    and hom_tensor: "h (tensor1 a b) = tensor2 (h a) (h b)"
begin

lemma hom_pipeline: "h (foldr tensor1 xs unit1) = foldr tensor2 (map h xs) unit2"
  by (induction xs) (simp_all add: hom_unit hom_tensor)

end

section \<open>Spend\<close>

datatype spend = Spend (spent: dp_budget)

definition spend_exhausted :: spend where
  "spend_exhausted = Spend \<lparr>epsilon_micros = - 1, delta_micros = - 1\<rparr>"

definition spend_meet :: "spend \<Rightarrow> spend \<Rightarrow> spend" where
  "spend_meet a b = Spend
     \<lparr>epsilon_micros = max (epsilon_micros (spent a)) (epsilon_micros (spent b)),
      delta_micros = max (delta_micros (spent a)) (delta_micros (spent b))\<rparr>"

definition spend_join :: "spend \<Rightarrow> spend \<Rightarrow> spend" where
  "spend_join a b = Spend
     \<lparr>epsilon_micros = min (epsilon_micros (spent a)) (epsilon_micros (spent b)),
      delta_micros = min (delta_micros (spent a)) (delta_micros (spent b))\<rparr>"

definition spend_leq :: "spend \<Rightarrow> spend \<Rightarrow> bool" where
  "spend_leq a b \<longleftrightarrow> epsilon_micros (spent b) \<le> epsilon_micros (spent a) \<and>
     delta_micros (spent b) \<le> delta_micros (spent a)"

definition spend_top :: spend where
  "spend_top = Spend dp_zero"

definition spend_bottom :: spend where
  "spend_bottom = spend_exhausted"

definition spend_unit :: spend where
  "spend_unit = Spend dp_zero"

definition spend_tensor :: "spend \<Rightarrow> spend \<Rightarrow> spend" where
  "spend_tensor a b = Spend (dp_saturating_add (spent a) (spent b))"

definition spend_residual :: "spend \<Rightarrow> spend \<Rightarrow> spend" where
  "spend_residual a ceiling = Spend
     \<lparr>epsilon_micros = sat_sub (epsilon_micros (spent ceiling)) (epsilon_micros (spent a)),
      delta_micros = sat_sub (delta_micros (spent ceiling)) (delta_micros (spent a))\<rparr>"

definition remaining :: "spend \<Rightarrow> spend \<Rightarrow> spend" where
  "remaining a ceiling = spend_residual a ceiling"

section \<open>Risk and the change of base\<close>

datatype risk = Risk (risk_units: u64)

definition risk_meet :: "risk \<Rightarrow> risk \<Rightarrow> risk" where
  "risk_meet a b = Risk (max (risk_units a) (risk_units b))"

definition risk_join :: "risk \<Rightarrow> risk \<Rightarrow> risk" where
  "risk_join a b = Risk (min (risk_units a) (risk_units b))"

definition risk_leq :: "risk \<Rightarrow> risk \<Rightarrow> bool" where
  "risk_leq a b \<longleftrightarrow> risk_units b \<le> risk_units a"

definition risk_top :: risk where
  "risk_top = Risk 0"

definition risk_bottom :: risk where
  "risk_bottom = Risk (- 1)"

definition risk_unit :: risk where
  "risk_unit = Risk 0"

definition risk_tensor :: "risk \<Rightarrow> risk \<Rightarrow> risk" where
  "risk_tensor a b = Risk (sat_add (risk_units a) (risk_units b))"

definition tau_apply :: "risk \<Rightarrow> spend" where
  "tau_apply r = Spend \<lparr>epsilon_micros = risk_units r, delta_micros = 0\<rparr>"

lemmas spend_defs = spend_exhausted_def spend_meet_def spend_join_def spend_leq_def spend_top_def
  spend_bottom_def spend_unit_def spend_tensor_def spend_residual_def dp_zero_def
  dp_saturating_add_def

lemmas risk_defs = risk_meet_def risk_join_def risk_leq_def risk_top_def risk_bottom_def
  risk_unit_def risk_tensor_def

section \<open>Saturating arithmetic under the reversed order\<close>

lemma word_max_top: "a \<le> (- 1 :: 'a::len word)"
  by simp

lemma sat_add_min:
  "sat_add a (min b c) = min (sat_add a b) (sat_add a (c :: 'a::len word))"
  by (cases "b \<le> c") (auto simp: min_def word_eq_unat word_le_nat_alt sat_arith)

lemma sat_adjoint: "(c :: 'a::len word) \<le> sat_add a b \<longleftrightarrow> sat_sub c a \<le> b"
  using unat_le_max [of c] by (auto simp: word_le_nat_alt sat_arith)

lemma spend_eq_iff:
  "a = b \<longleftrightarrow> epsilon_micros (spent a) = epsilon_micros (spent b) \<and>
     delta_micros (spent a) = delta_micros (spent b)"
  by (cases a; cases b) (auto intro: dp_budget.equality)

interpretation spend: residuated_quantale spend_leq spend_meet spend_join spend_top spend_bottom
  spend_unit spend_tensor spend_residual
  by unfold_locales
    (auto simp: spend_defs spend_eq_iff sat_add_ac sat_add_min sat_adjoint)

interpretation risk: quantale risk_leq risk_meet risk_join risk_top risk_bottom risk_unit
  risk_tensor
  by unfold_locales
    (auto simp: risk_defs sat_add_ac sat_add_min intro: risk.expand)

interpretation tau: quantale_hom risk_leq risk_meet risk_join risk_top risk_bottom risk_unit
  risk_tensor spend_leq spend_meet spend_join spend_top spend_bottom spend_unit spend_tensor
  tau_apply
  by unfold_locales (auto simp: risk_defs spend_defs tau_apply_def)

section \<open>Budgets as a library lattice\<close>

instantiation spend :: bounded_lattice
begin

definition inf_spend :: "spend \<Rightarrow> spend \<Rightarrow> spend" where
  "inf_spend = spend_meet"

definition sup_spend :: "spend \<Rightarrow> spend \<Rightarrow> spend" where
  "sup_spend = spend_join"

definition less_eq_spend :: "spend \<Rightarrow> spend \<Rightarrow> bool" where
  "less_eq_spend = spend_leq"

definition less_spend :: "spend \<Rightarrow> spend \<Rightarrow> bool" where
  "less_spend a b \<longleftrightarrow> spend_leq a b \<and> \<not> spend_leq b a"

definition top_spend :: spend where
  "top_spend = spend_top"

definition bot_spend :: spend where
  "bot_spend = spend_bottom"

instance
  by intro_classes
    (auto simp: inf_spend_def sup_spend_def less_eq_spend_def less_spend_def top_spend_def
      bot_spend_def spend_defs spend_eq_iff)

end

section \<open>Properties\<close>

lemma consume_components:
  "epsilon_micros (grade (consume g b)) = sat_add (epsilon_micros (grade g)) (epsilon_micros b)"
  "delta_micros (grade (consume g b)) = sat_add (delta_micros (grade g)) (delta_micros b)"
  by (simp_all add: consume_def dp_saturating_add_def)

text \<open>What a pipeline of \<open>consume\<close> calls accumulates in one component.\<close>

lemma consume_accumulates:
  "unat (epsilon_micros (grade (foldl consume g bs))) =
     min (unat (epsilon_micros (grade g)) + (\<Sum>b\<leftarrow>bs. unat (epsilon_micros b))) (2 ^ 64 - 1)"
  "unat (delta_micros (grade (foldl consume g bs))) =
     min (unat (delta_micros (grade g)) + (\<Sum>b\<leftarrow>bs. unat (delta_micros b))) (2 ^ 64 - 1)"
proof (induction bs arbitrary: g)
  case Nil
  { case 1
    show ?case using unat_le_max [of "epsilon_micros (grade g)"] by simp }
  { case 2
    show ?case using unat_le_max [of "delta_micros (grade g)"] by simp }
next
  case (Cons b bs)
  { case 1
    show ?case by (simp add: Cons.IH(1) consume_components sat_arith) }
  { case 2
    show ?case by (simp add: Cons.IH(2) consume_components sat_arith) }
qed

text \<open>The budget spent by a pipeline is the sum of its parts, capped at the largest \<open>u64\<close>.\<close>

theorem consume_total:
  "grade (foldl consume (graded_pure x) bs) =
     \<lparr>epsilon_micros = of_nat (min (\<Sum>b\<leftarrow>bs. unat (epsilon_micros b)) (2 ^ 64 - 1)),
      delta_micros = of_nat (min (\<Sum>b\<leftarrow>bs. unat (delta_micros b)) (2 ^ 64 - 1))\<rparr>"
proof (rule dp_budget.equality)
  show "epsilon_micros (grade (foldl consume (graded_pure x) bs)) = epsilon_micros
     \<lparr>epsilon_micros = of_nat (min (\<Sum>b\<leftarrow>bs. unat (epsilon_micros b)) (2 ^ 64 - 1)),
      delta_micros = of_nat (min (\<Sum>b\<leftarrow>bs. unat (delta_micros b)) (2 ^ 64 - 1))\<rparr>"
    by (simp add: word_eq_unat consume_accumulates graded_pure_def dp_zero_def unat_of_nat
        take_bit_nat_eq_self)
  show "delta_micros (grade (foldl consume (graded_pure x) bs)) = delta_micros
     \<lparr>epsilon_micros = of_nat (min (\<Sum>b\<leftarrow>bs. unat (epsilon_micros b)) (2 ^ 64 - 1)),
      delta_micros = of_nat (min (\<Sum>b\<leftarrow>bs. unat (delta_micros b)) (2 ^ 64 - 1))\<rparr>"
    by (simp add: word_eq_unat consume_accumulates graded_pure_def dp_zero_def unat_of_nat
        take_bit_nat_eq_self)
qed simp

text \<open>When the kernel admits a further charge on one component.\<close>

lemma sat_add_admits:
  "(a :: u64) \<le> c \<Longrightarrow> sat_add a w \<le> c \<longleftrightarrow> w \<le> sat_sub c a \<or> c = - 1"
  using unat_le_max [of c] by (auto simp: word_le_nat_alt word_eq_unat sat_arith unat_max_word)

text \<open>C36: for a grade within the ceiling the kernel admits a charge exactly when the headroom
  \<open>remaining\<close> covers it, except that a component whose ceiling is the largest \<open>u64\<close> admits
  every charge: there the sum saturates and the overdraft is invisible.\<close>

theorem admission_iff_headroom:
  assumes "within_budget g (spent ceiling)"
  shows "within_budget (consume g want) (spent ceiling) \<longleftrightarrow>
    (epsilon_micros want \<le> epsilon_micros (spent (remaining (Spend (grade g)) ceiling)) \<or>
       epsilon_micros (spent ceiling) = - 1) \<and>
    (delta_micros want \<le> delta_micros (spent (remaining (Spend (grade g)) ceiling)) \<or>
       delta_micros (spent ceiling) = - 1)"
  using assms
  by (simp add: within_budget_def dp_leq_def consume_def dp_saturating_add_def remaining_def
      spend_residual_def sat_add_admits)

theorem admission_iff_headroom_witness:
  "within_budget (consume \<lparr>gvalue = (), grade = \<lparr>epsilon_micros = 3, delta_micros = 0\<rparr>\<rparr>
     \<lparr>epsilon_micros = 4, delta_micros = 0\<rparr>) \<lparr>epsilon_micros = 7, delta_micros = 0\<rparr>"
  using admission_iff_headroom [of "\<lparr>gvalue = (), grade = \<lparr>epsilon_micros = 3, delta_micros = 0\<rparr>\<rparr>"
      "Spend \<lparr>epsilon_micros = 7, delta_micros = 0\<rparr>" "\<lparr>epsilon_micros = 4, delta_micros = 0\<rparr>"]
  by (simp add: within_budget_def dp_leq_def remaining_def spend_residual_def sat_sub_def)

text \<open>The spend order is a residuated quantale: the headroom is the right adjoint of
  composition, it can be computed charge by charge, and a longer pipeline is never better.\<close>

theorem spend_headroom_laws:
  "(spend_leq (spend_tensor a b) c \<longleftrightarrow> spend_leq b (remaining a c)) \<and>
   remaining (spend_tensor a b) c = remaining b (remaining a c) \<and>
   spend_leq (foldr spend_tensor (xs @ ys) spend_unit) (foldr spend_tensor xs spend_unit)"
  using spend.adjoint spend.residual_curry spend.pipeline_decreases
  by (simp add: remaining_def spend_unit_def spend_top_def)

text \<open>Turning risk into budget commutes with composing a pipeline.\<close>

theorem tau_pipeline:
  "tau_apply (foldr risk_tensor rs risk_unit) = foldr spend_tensor (map tau_apply rs) spend_unit"
  by (rule tau.hom_pipeline)

end
