(* ===== verification/Export.thy ===== *)
theory Export
  imports Typing
begin

text \<open>
  The trace exporters (\<open>crates/dlc-protocol/src/export_tamarin.rs\<close>, \<open>export_proverif.rs\<close>): both
  walk the term and append a line per protocol event.  The theory gives the event
  list that both render, and ties it to what the checker requires of a token.
\<close>

section \<open>Rendering\<close>

definition newline :: string where
  "newline = [CHR 0x0A]"

definition hex_short :: "bytes \<Rightarrow> string" where
  "hex_short bs = concat (map hex2 (take 8 bs))"

definition show_u32 :: "u32 \<Rightarrow> string" where
  "show_u32 n = show_nat (unat n)"

primrec tamarin_principal :: "principal \<Rightarrow> string" where
  "tamarin_principal (Atom_p pid) = [CHR 0x27] @ hex_short (pid_bytes pid) @ [CHR 0x27]"
| "tamarin_principal (And_p a b) =
     ''and('' @ tamarin_principal a @ '', '' @ tamarin_principal b @ '')''"
| "tamarin_principal (Or_p a b) =
     ''or('' @ tamarin_principal a @ '', '' @ tamarin_principal b @ '')''"
| "tamarin_principal (Acting a b) =
     ''acting('' @ tamarin_principal a @ '', '' @ tamarin_principal b @ '')''"

definition tamarin_prop :: "dprop \<Rightarrow> string" where
  "tamarin_prop p = (case p of
     Top \<Rightarrow> ''top''
   | Bot \<Rightarrow> ''bot''
   | Atom n \<Rightarrow> ''atom('' @ show_u32 n @ '')''
   | Imp a b \<Rightarrow> ''imp(...)''
   | And a b \<Rightarrow> ''and(...)''
   | Or a b \<Rightarrow> ''or(...)''
   | Says pp a \<Rightarrow> ''says('' @ tamarin_principal pp @ '', ...)''
   | SpeaksFor pp qq \<Rightarrow>
       ''speaks_for('' @ tamarin_principal pp @ '', '' @ tamarin_principal qq @ '')''
   | At a l \<Rightarrow> ''at(...)''
   | Boxed ob a \<Rightarrow> ''boxed(...)''
   | Within t a \<Rightarrow> ''within(...)''
   | Tensor a b \<Rightarrow> ''tensor(...)''
   | Lolli a b \<Rightarrow> ''lolli(...)''
   | Replicated a l \<Rightarrow> ''replicated(...)'')"

primrec proverif_principal :: "principal \<Rightarrow> string" where
  "proverif_principal (Atom_p pid) = ''pk_'' @ hex_short (pid_bytes pid)"
| "proverif_principal (And_p a b) =
     ''and('' @ proverif_principal a @ '', '' @ proverif_principal b @ '')''"
| "proverif_principal (Or_p a b) =
     ''or('' @ proverif_principal a @ '', '' @ proverif_principal b @ '')''"
| "proverif_principal (Acting a b) =
     ''acting('' @ proverif_principal a @ '', '' @ proverif_principal b @ '')''"

definition proverif_prop :: "dprop \<Rightarrow> string" where
  "proverif_prop p = (case p of
     Top \<Rightarrow> ''top''
   | Atom n \<Rightarrow> ''atom_'' @ show_u32 n
   | _ \<Rightarrow> ''complex_prop'')"

section \<open>The walks\<close>

primrec walk_tamarin :: "trm \<Rightarrow> string \<Rightarrow> string" where
  "walk_tamarin (Var i) out = out"
| "walk_tamarin (Lam p body) out = walk_tamarin body out"
| "walk_tamarin (App f x) out = walk_tamarin x (walk_tamarin f out)"
| "walk_tamarin (Sign p m sg) out = walk_tamarin m out @ ''Says('' @ tamarin_principal p @ '', ?)'' @ newline"
| "walk_tamarin (Verify p m sg) out = walk_tamarin m out @ ''Verify('' @ tamarin_principal p @ '', ?)'' @ newline"
| "walk_tamarin (Delegate m n) out = (let out2 = walk_tamarin n (walk_tamarin m out) in
     case (m, n) of
       (Sign p m2 s2, Sign q n2 s3) \<Rightarrow> out2 @ ''DelegateAccept('' @ tamarin_principal p @ '', '' @ tamarin_principal q @ '', ?)'' @ newline
     | _ \<Rightarrow> out2)"
| "walk_tamarin (Attenuate m \<psi>) out = walk_tamarin m out @ ''Attenuate('' @ tamarin_prop \<psi> @ '')'' @ newline"
| "walk_tamarin (SaysBind p s b) out = walk_tamarin b (walk_tamarin s out)"
| "walk_tamarin (Boxed_t ob m n) out = walk_tamarin n (walk_tamarin m out)"
| "walk_tamarin (Discharge m n) out = walk_tamarin n (walk_tamarin m out)"
| "walk_tamarin (LiftLabel l m) out = walk_tamarin m out"
| "walk_tamarin (Declassify l m pi) out = walk_tamarin pi (walk_tamarin m out)"
| "walk_tamarin (Now tau) out = out"
| "walk_tamarin (WithinIntro tau m) out = walk_tamarin m out"
| "walk_tamarin (Pair_t a b) out = walk_tamarin b (walk_tamarin a out)"
| "walk_tamarin (Fst a) out = walk_tamarin a out"
| "walk_tamarin (Snd a) out = walk_tamarin a out"
| "walk_tamarin (Inl_t p a) out = walk_tamarin a out"
| "walk_tamarin (Inr_t p a) out = walk_tamarin a out"
| "walk_tamarin (Case s l r) out = walk_tamarin r (walk_tamarin l (walk_tamarin s out))"
| "walk_tamarin (TensorIntro a b) out = walk_tamarin b (walk_tamarin a out)"
| "walk_tamarin (LetTensor a b) out = walk_tamarin b (walk_tamarin a out)"
| "walk_tamarin (LetSays p s b) out = walk_tamarin b (walk_tamarin s out)"
| "walk_tamarin (SfExtract m) out = walk_tamarin m out"
| "walk_tamarin (Command m c l) out = walk_tamarin c (walk_tamarin m out)"
| "walk_tamarin (RunCmd v s) out = walk_tamarin s (walk_tamarin v out)"

definition term_to_tamarin :: "trm \<Rightarrow> string" where
  "term_to_tamarin t = walk_tamarin t []"

primrec walk_proverif :: "trm \<Rightarrow> string \<Rightarrow> string" where
  "walk_proverif (Var i) out = out"
| "walk_proverif (Lam p body) out = walk_proverif body out"
| "walk_proverif (App f x) out = walk_proverif x (walk_proverif f out)"
| "walk_proverif (Sign p m sg) out = walk_proverif m out @ ''Says('' @ proverif_principal p @ '', prop).'' @ newline"
| "walk_proverif (Verify p m sg) out = walk_proverif m out @ ''Verify('' @ proverif_principal p @ '', prop).'' @ newline"
| "walk_proverif (Delegate m n) out = (let out2 = walk_proverif n (walk_proverif m out) in
     case (m, n) of
       (Sign p m2 s2, Sign q n2 s3) \<Rightarrow> out2 @ ''DelegateAccept('' @ proverif_principal p @ '', '' @ proverif_principal q @ '', prop).'' @ newline
     | _ \<Rightarrow> out2)"
| "walk_proverif (Attenuate m \<psi>) out = walk_proverif m out @ ''Attenuate('' @ proverif_prop \<psi> @ '').'' @ newline"
| "walk_proverif (SaysBind p s b) out = walk_proverif b (walk_proverif s out)"
| "walk_proverif (Boxed_t ob m n) out = walk_proverif n (walk_proverif m out)"
| "walk_proverif (Discharge m n) out = walk_proverif n (walk_proverif m out)"
| "walk_proverif (LiftLabel l m) out = walk_proverif m out"
| "walk_proverif (Declassify l m pi) out = walk_proverif pi (walk_proverif m out)"
| "walk_proverif (Now tau) out = out"
| "walk_proverif (WithinIntro tau m) out = walk_proverif m out"
| "walk_proverif (Pair_t a b) out = walk_proverif b (walk_proverif a out)"
| "walk_proverif (Fst a) out = walk_proverif a out"
| "walk_proverif (Snd a) out = walk_proverif a out"
| "walk_proverif (Inl_t p a) out = walk_proverif a out"
| "walk_proverif (Inr_t p a) out = walk_proverif a out"
| "walk_proverif (Case s l r) out = walk_proverif r (walk_proverif l (walk_proverif s out))"
| "walk_proverif (TensorIntro a b) out = walk_proverif b (walk_proverif a out)"
| "walk_proverif (LetTensor a b) out = walk_proverif b (walk_proverif a out)"
| "walk_proverif (LetSays p s b) out = walk_proverif b (walk_proverif s out)"
| "walk_proverif (SfExtract m) out = walk_proverif m out"
| "walk_proverif (Command m c l) out = walk_proverif c (walk_proverif m out)"
| "walk_proverif (RunCmd v s) out = walk_proverif s (walk_proverif v out)"

definition term_to_proverif :: "trm \<Rightarrow> string" where
  "term_to_proverif t = walk_proverif t []"

section \<open>The events of a term\<close>

datatype event =
    Says_e principal
  | Verify_e principal
  | DelegateAccept_e principal principal
  | Attenuate_e dprop

definition delegate_events :: "trm \<Rightarrow> trm \<Rightarrow> event list" where
  "delegate_events m n = (case (m, n) of
     (Sign p m2 s2, Sign q n2 s3) \<Rightarrow> [DelegateAccept_e p q]
   | _ \<Rightarrow> [])"

primrec events :: "trm \<Rightarrow> event list" where
  "events (Var i) = []"
| "events (Lam p b) = events b"
| "events (App f x) = events f @ events x"
| "events (Sign p m sg) = events m @ [Says_e p]"
| "events (Verify p m sg) = events m @ [Verify_e p]"
| "events (Delegate m n) = events m @ events n @ delegate_events m n"
| "events (Attenuate m \<psi>) = events m @ [Attenuate_e \<psi>]"
| "events (SaysBind p s b) = events s @ events b"
| "events (Boxed_t ob m n) = events m @ events n"
| "events (Discharge m n) = events m @ events n"
| "events (LiftLabel l m) = events m"
| "events (Declassify l m pi) = events m @ events pi"
| "events (Now tau) = []"
| "events (WithinIntro tau m) = events m"
| "events (Pair_t a b) = events a @ events b"
| "events (Fst a) = events a"
| "events (Snd a) = events a"
| "events (Inl_t p a) = events a"
| "events (Inr_t p a) = events a"
| "events (Case s l r) = events s @ events l @ events r"
| "events (TensorIntro a b) = events a @ events b"
| "events (LetTensor a b) = events a @ events b"
| "events (LetSays p s b) = events s @ events b"
| "events (SfExtract m) = events m"
| "events (Command m c l) = events m @ events c"
| "events (RunCmd v s) = events v @ events s"

definition tamarin_line :: "event \<Rightarrow> string" where
  "tamarin_line e = (case e of
     Says_e p \<Rightarrow> ''Says('' @ tamarin_principal p @ '', ?)'' @ newline
   | Verify_e p \<Rightarrow> ''Verify('' @ tamarin_principal p @ '', ?)'' @ newline
   | DelegateAccept_e p q \<Rightarrow>
       ''DelegateAccept('' @ tamarin_principal p @ '', '' @ tamarin_principal q @ '', ?)'' @ newline
   | Attenuate_e \<psi> \<Rightarrow> ''Attenuate('' @ tamarin_prop \<psi> @ '')'' @ newline)"

definition proverif_line :: "event \<Rightarrow> string" where
  "proverif_line e = (case e of
     Says_e p \<Rightarrow> ''Says('' @ proverif_principal p @ '', prop).'' @ newline
   | Verify_e p \<Rightarrow> ''Verify('' @ proverif_principal p @ '', prop).'' @ newline
   | DelegateAccept_e p q \<Rightarrow>
       ''DelegateAccept('' @ proverif_principal p @ '', '' @ proverif_principal q @ '', prop).'' @ newline
   | Attenuate_e \<psi> \<Rightarrow> ''Attenuate('' @ proverif_prop \<psi> @ '').'' @ newline)"

lemma delegate_case:
  "(case (m, n) of (Sign p m2 s2, Sign q n2 s3) \<Rightarrow> out @ f p q | _ \<Rightarrow> out) =
   out @ concat (map (\<lambda>e. case e of DelegateAccept_e p q \<Rightarrow> f p q | _ \<Rightarrow> g e) (delegate_events m n))"
proof (cases "\<exists>p m2 s2 q n2 s3. m = Sign p m2 s2 \<and> n = Sign q n2 s3")
  case True
  then show ?thesis by (auto simp: delegate_events_def)
next
  case False
  then show ?thesis by (cases m) (simp_all add: delegate_events_def split: trm.splits)
qed

lemma walk_tamarin_events: "walk_tamarin t out = out @ concat (map tamarin_line (events t))"
proof (induction t arbitrary: out)
  case (Delegate m n)
  have "tamarin_line = (\<lambda>e. case e of
      DelegateAccept_e p q \<Rightarrow> ''DelegateAccept('' @ tamarin_principal p @ '', '' @ tamarin_principal q @ '', ?)'' @ newline
    | _ \<Rightarrow> tamarin_line e)"
    by (rule ext) (simp add: tamarin_line_def split: event.split)
  then show ?case
    unfolding walk_tamarin.simps Let_def delegate_case [where g = tamarin_line] Delegate.IH
    by simp
qed (simp_all add: tamarin_line_def)

lemma walk_proverif_events: "walk_proverif t out = out @ concat (map proverif_line (events t))"
proof (induction t arbitrary: out)
  case (Delegate m n)
  have "proverif_line = (\<lambda>e. case e of
      DelegateAccept_e p q \<Rightarrow> ''DelegateAccept('' @ proverif_principal p @ '', '' @ proverif_principal q @ '', prop).'' @ newline
    | _ \<Rightarrow> proverif_line e)"
    by (rule ext) (simp add: proverif_line_def split: event.split)
  then show ?case
    unfolding walk_proverif.simps Let_def delegate_case [where g = proverif_line] Delegate.IH
    by simp
qed (simp_all add: proverif_line_def)

section \<open>One line per event\<close>

lemma digit_no_newline: "digit_char d \<noteq> CHR 0x0A"
proof -
  have "digit_char d \<in> set ''0123456789abcdef''"
    unfolding digit_char_def by (rule nth_mem) simp
  then show ?thesis by auto
qed

lemma show_nat_no_newline: "CHR 0x0A \<notin> set (show_nat n)"
proof (induction n rule: less_induct)
  case (less n)
  then show ?case
    by (subst show_nat.simps) (auto simp: digit_no_newline dest: digit_no_newline [THEN notE, OF sym])
qed

lemma hex_short_no_newline: "CHR 0x0A \<notin> set (hex_short bs)"
  by (auto simp: hex_short_def hex2_def dest: digit_no_newline [THEN notE, OF sym])

lemma principal_no_newline:
  "CHR 0x0A \<notin> set (tamarin_principal p)" "CHR 0x0A \<notin> set (proverif_principal p)"
  by (induction p) (simp_all add: hex_short_no_newline)

lemma prop_no_newline: "CHR 0x0A \<notin> set (tamarin_prop \<psi>)" "CHR 0x0A \<notin> set (proverif_prop \<psi>)"
  by (cases \<psi>; simp add: tamarin_prop_def proverif_prop_def show_u32_def show_nat_no_newline
      principal_no_newline)+

lemma line_newlines:
  "count_list (tamarin_line e) (CHR 0x0A) = 1" "count_list (proverif_line e) (CHR 0x0A) = 1"
  by (cases e; simp add: tamarin_line_def proverif_line_def newline_def count_list_append
      principal_no_newline prop_no_newline count_notin)+

lemma count_concat: "(\<And>x. x \<in> set xs \<Longrightarrow> count_list (f x) c = 1) \<Longrightarrow> count_list (concat (map f xs)) c = length xs"
  by (induction xs) (simp_all add: count_list_append)

section \<open>Who signed, in the trace\<close>

lemma delegate_events_no_says [simp]: "Says_e p \<notin> set (delegate_events m n)"
  by (cases m) (simp_all add: delegate_events_def split: trm.splits)

lemma signers_events: "i \<in> signers t \<longleftrightarrow> (\<exists>p. Says_e p \<in> set (events t) \<and> i \<in> atoms p)"
  by (induction t) auto

section \<open>Properties\<close>

text \<open>The two exporters dump the same trace: each renders one and the same list of events of
  the term, an event a line.\<close>

theorem exporters_render_events:
  "term_to_tamarin t = concat (map tamarin_line (events t)) \<and>
   term_to_proverif t = concat (map proverif_line (events t)) \<and>
   count_list (term_to_tamarin t) (CHR 0x0A) = length (events t) \<and>
   count_list (term_to_proverif t) (CHR 0x0A) = length (events t)"
  by (simp add: term_to_tamarin_def term_to_proverif_def walk_tamarin_events walk_proverif_events
      count_concat line_newlines)

text \<open>The trace of a closed token without \<open>Attenuate\<close> that proves \<open>p says \<phi>\<close> shows who said
  it: each atomic party of \<open>p\<close> is a party of a principal with a \<open>Says\<close> line in the Tamarin
  dump.\<close>

theorem quoted_parties_are_traced:
  assumes "infer ctx_empty t = Some (Says p \<phi>)" "attenuate_free t" "i \<in> atoms p"
  shows "\<exists>q pre post. i \<in> atoms q \<and>
    term_to_tamarin t = pre @ ''Says('' @ tamarin_principal q @ '', ?)'' @ newline @ post"
proof -
  from infer_sound [OF assms(1,2), of "signers t" "\<lambda>_. True"] assms(3)
  have "i \<in> signers t" by auto
  then obtain q where q: "Says_e q \<in> set (events t)" "i \<in> atoms q" by (auto simp: signers_events)
  from q(1) obtain xs ys where "events t = xs @ Says_e q # ys" by (meson split_list)
  then have "term_to_tamarin t = concat (map tamarin_line xs) @
      ''Says('' @ tamarin_principal q @ '', ?)'' @ newline @ concat (map tamarin_line ys)"
    by (simp add: term_to_tamarin_def walk_tamarin_events) (simp add: tamarin_line_def)
  with q(2) show ?thesis by blast
qed

theorem quoted_parties_are_traced_witness:
  "\<exists>q pre post. PrincipalId [1] \<in> atoms q \<and>
    term_to_tamarin (Sign (Atom_p (PrincipalId [1])) (Now \<lparr>epoch_ms = 7\<rparr>) \<lparr>sig_alg = 0, sig_bytes = []\<rparr>) =
      pre @ ''Says('' @ tamarin_principal q @ '', ?)'' @ newline @ post"
  by (rule quoted_parties_are_traced [of _ "Atom_p (PrincipalId [1])" Top]) simp_all

text \<open>The dumps cut a principal's identifier to eight bytes: principals that agree on those
  are one principal in both traces.\<close>

theorem export_conflates_principals:
  assumes "take 8 (pid_bytes i) = take 8 (pid_bytes j)"
  shows "term_to_tamarin (Sign (Atom_p i) m s) = term_to_tamarin (Sign (Atom_p j) m s) \<and>
    term_to_proverif (Sign (Atom_p i) m s) = term_to_proverif (Sign (Atom_p j) m s)"
  using assms by (simp add: term_to_tamarin_def term_to_proverif_def hex_short_def)

theorem export_conflates_principals_witness:
  "PrincipalId (replicate 31 0 @ [1]) \<noteq> PrincipalId (replicate 31 0 @ [2]) \<and>
   term_to_tamarin (Sign (Atom_p (PrincipalId (replicate 31 0 @ [1]))) (Var 0) \<lparr>sig_alg = 0, sig_bytes = []\<rparr>) =
   term_to_tamarin (Sign (Atom_p (PrincipalId (replicate 31 0 @ [2]))) (Var 0) \<lparr>sig_alg = 0, sig_bytes = []\<rparr>)"
  using export_conflates_principals [of "PrincipalId (replicate 31 0 @ [1])" "PrincipalId (replicate 31 0 @ [2])"
      "Var 0" "\<lparr>sig_alg = 0, sig_bytes = []\<rparr>"] by simp

end
