(* ===== verification/Interop.thy ===== *)
theory Interop
  imports Verifier
begin

text \<open>
  The bridge to other credential formats (\<open>crates/dlc-interop/src/lib.rs\<close>, \<open>biscuit.rs\<close>):
  the interop token around a signed term, and the Biscuit that carries it as a hex fact.
  The reader and writer of tokens (\<open>serde\<close> over CBOR) and the \<open>biscuit-auth\<close> crate are
  parameters.  A string is its UTF-8 bytes.
\<close>

section \<open>Interop tokens\<close>

text \<open>\<open>Panic_i\<close> is the panic of the term decoder.\<close>

datatype interop_error =
    Decode_i string
  | Term_i protocol_error
  | NonAtomicIssuer
  | Panic_i

record interop_token =
  it_issuer :: bytes
  it_audience :: bytes
  it_term :: bytes
  it_sig_alg :: u8
  it_sig :: bytes

definition encode_credential ::
    "(interop_token \<Rightarrow> bytes) \<Rightarrow> (cbor \<Rightarrow> bytes) \<Rightarrow> principal \<Rightarrow> bytes \<Rightarrow> trm \<Rightarrow> signature \<Rightarrow>
     interop_error + bytes" where
  "encode_credential tw cw iss audience t sig = (case iss of
     Atom_p pid \<Rightarrow> Inr (tw \<lparr>it_issuer = pid_bytes pid, it_audience = audience, it_term = encode cw t,
       it_sig_alg = sig_alg sig, it_sig = sig_bytes sig\<rparr>)
   | _ \<Rightarrow> Inl NonAtomicIssuer)"

definition decode_credential ::
    "(bytes \<Rightarrow> string + interop_token) \<Rightarrow> (bytes \<Rightarrow> string + cbor) \<Rightarrow> bytes \<Rightarrow>
     interop_error + principal \<times> bytes \<times> trm \<times> signature" where
  "decode_credential tr cr bs = (case tr bs of
     Inl e \<Rightarrow> Inl (Decode_i e)
   | Inr token \<Rightarrow>
       (case decode cr (it_term token) of
          Inl e \<Rightarrow> Inl (if e = Panicked then Panic_i else Term_i e)
        | Inr t \<Rightarrow>
            let iss = Atom_p (PrincipalId (it_issuer token));
                sig = \<lparr>sig_alg = it_sig_alg token, sig_bytes = it_sig token\<rparr>
            in Inr (iss, it_audience token, t, sig)))"

definition verify_credential ::
    "ed25519_lib \<Rightarrow> (cbor \<Rightarrow> bytes) \<Rightarrow> key_ring \<Rightarrow> principal \<Rightarrow> trm \<Rightarrow> signature \<Rightarrow>
     crypto_error + unit" where
  "verify_credential L cw keyring iss t sig =
     verify_in_keyring L keyring iss (canonical_bytes cw t) sig"

section \<open>Hexadecimal\<close>

datatype biscuit_error =
    Biscuit string
  | MissingCredential
  | BadHex
  | Panic_b

definition to_hex :: "bytes \<Rightarrow> string" where
  "to_hex bs = foldl (\<lambda>s b. s @ hex2 b) [] bs"

definition hex_digit :: "char \<Rightarrow> nat option" where
  "hex_digit c = (let n = (of_char c :: nat) in
     if 48 \<le> n \<and> n \<le> 57 then Some (n - 48)
     else if 97 \<le> n \<and> n \<le> 102 then Some (n - 87)
     else if 65 \<le> n \<and> n \<le> 70 then Some (n - 55)
     else None)"

text \<open>\<open>u8::from_str_radix(s, 16)\<close> on two bytes; a leading plus sign is accepted.\<close>

definition radix16 :: "string \<Rightarrow> u8 option" where
  "radix16 s = (case s of
     [a, b] \<Rightarrow>
       if a = CHR ''+'' then map_option of_nat (hex_digit b)
       else (case (hex_digit a, hex_digit b) of
         (Some x, Some y) \<Rightarrow> Some (of_nat (16 * x + y))
       | _ \<Rightarrow> None)
   | _ \<Rightarrow> None)"

text \<open>Slicing a \<open>str\<close> inside a multi-byte character panics.\<close>

definition char_boundary :: "string \<Rightarrow> nat \<Rightarrow> bool" where
  "char_boundary s i \<longleftrightarrow> i = 0 \<or> i = length s \<or>
     (i < length s \<and> \<not> (128 \<le> (of_char (s ! i) :: nat) \<and> (of_char (s ! i) :: nat) < 192))"

definition hex_byte :: "string \<Rightarrow> nat \<Rightarrow> biscuit_error + u8" where
  "hex_byte s i =
     (if char_boundary s i \<and> char_boundary s (i + 2)
      then case radix16 (take 2 (drop i s)) of Some b \<Rightarrow> Inr b | None \<Rightarrow> Inl BadHex
      else Inl Panic_b)"

definition from_hex :: "string \<Rightarrow> biscuit_error + bytes" where
  "from_hex s =
     (if length s mod 2 \<noteq> 0 then Inl BadHex
      else collect_results (hex_byte s) (map (\<lambda>k. 2 * k) [0..<length s div 2]))"

section \<open>Biscuits\<close>

text \<open>
  The calls into \<open>biscuit-auth\<close>: the builder and its facts and checks, building under a
  root key, serialising, parsing under a public key, and the two authorizers.
\<close>

record ('b, 't, 'k, 'p, 'a) biscuit_lib =
  bl_builder :: 'b
  bl_fact :: "'b \<Rightarrow> string \<Rightarrow> string + 'b"
  bl_check :: "'b \<Rightarrow> string \<Rightarrow> string + 'b"
  bl_build :: "'b \<Rightarrow> 'k \<Rightarrow> string + 't"
  bl_to_vec :: "'t \<Rightarrow> string + bytes"
  bl_from :: "bytes \<Rightarrow> 'p \<Rightarrow> string + 't"
  bl_authorizer :: "'t \<Rightarrow> string + 'a"
  bl_query :: "'a \<Rightarrow> string \<Rightarrow> string + string list"
  bl_code :: "string \<Rightarrow> string + 'b"
  bl_build_authorizer :: "'b \<Rightarrow> 't \<Rightarrow> string + 'a"
  bl_authorize :: "'a \<Rightarrow> string + unit"

definition biscuit_err :: "string + 'a \<Rightarrow> biscuit_error + 'a" where
  "biscuit_err r = (case r of Inl e \<Rightarrow> Inl (Biscuit e) | Inr x \<Rightarrow> Inr x)"

definition quote_char :: string where
  "quote_char = [CHR 0x22]"

definition credential_fact :: "bytes \<Rightarrow> string" where
  "credential_fact cbor = ''dlc_says_credential('' @ quote_char @ to_hex cbor @ quote_char @ '')''"

definition show_i64 :: "64 word \<Rightarrow> string" where
  "show_i64 n = (if sint n < 0 then ''-'' @ show_nat (nat (- sint n)) else show_nat (nat (sint n)))"

definition to_biscuit :: "('b, 't, 'k, 'p, 'a) biscuit_lib \<Rightarrow> bytes \<Rightarrow> 'k \<Rightarrow> biscuit_error + bytes" where
  "to_biscuit B cbor root =
     and_then (biscuit_err (bl_fact B (bl_builder B) (credential_fact cbor))) (\<lambda>b.
       and_then (biscuit_err (bl_build B b root)) (\<lambda>t. biscuit_err (bl_to_vec B t)))"

definition to_biscuit_with_expiry ::
    "('b, 't, 'k, 'p, 'a) biscuit_lib \<Rightarrow> bytes \<Rightarrow> 64 word \<Rightarrow> 'k \<Rightarrow> biscuit_error + bytes" where
  "to_biscuit_with_expiry B cbor valid_until root =
     (let check = ''check if dlc_now($t), $t <= '' @ show_i64 valid_until in
      and_then (biscuit_err (bl_fact B (bl_builder B) (credential_fact cbor))) (\<lambda>b.
        and_then (biscuit_err (bl_check B b check)) (\<lambda>c.
          and_then (biscuit_err (bl_build B c root)) (\<lambda>t. biscuit_err (bl_to_vec B t)))))"

definition authorize_at ::
    "('b, 't, 'k, 'p, 'a) biscuit_lib \<Rightarrow> bytes \<Rightarrow> 'p \<Rightarrow> 64 word \<Rightarrow> biscuit_error + unit" where
  "authorize_at B bs root now =
     and_then (biscuit_err (bl_from B bs root)) (\<lambda>t.
       and_then (biscuit_err (bl_code B (''dlc_now('' @ show_i64 now @ '');'' @ [CHR 0x0A] @ ''allow if true;''))) (\<lambda>b.
         and_then (biscuit_err (bl_build_authorizer B b t)) (\<lambda>a.
           biscuit_err (bl_authorize B a))))"

definition from_biscuit :: "('b, 't, 'k, 'p, 'a) biscuit_lib \<Rightarrow> bytes \<Rightarrow> 'p \<Rightarrow> biscuit_error + bytes" where
  "from_biscuit B bs root =
     and_then (biscuit_err (bl_from B bs root)) (\<lambda>t.
       and_then (biscuit_err (bl_authorizer B t)) (\<lambda>a.
         and_then (biscuit_err (bl_query B a ''data($d) <- dlc_says_credential($d)'')) (\<lambda>rows.
           case rows of
             [] \<Rightarrow> Inl MissingCredential
           | hex # rest \<Rightarrow> from_hex hex)))"

section \<open>The hexadecimal round trip\<close>

lemma biscuit_err_Inr [simp]: "biscuit_err (Inr x) = Inr x"
  by (simp add: biscuit_err_def)

lemma to_hex_map: "to_hex bs = concat (map hex2 bs)"
proof -
  have "foldl (\<lambda>s b. s @ hex2 b) acc bs = acc @ concat (map hex2 bs)" for acc
    by (induction bs arbitrary: acc) simp_all
  then show ?thesis by (simp add: to_hex_def)
qed

lemma length_hex [simp]: "length (concat (map hex2 bs)) = 2 * length bs"
  by (induction bs) (simp_all add: hex2_def)

lemma less_16: "n < (16 :: nat) \<Longrightarrow> n \<in> set [0..<16]"
  by simp

lemma hex_digit_char: "n < 16 \<Longrightarrow> hex_digit (digit_char n) = Some n \<and>
    (of_char (digit_char n) :: nat) < 128 \<and> digit_char n \<noteq> CHR ''+''"
proof -
  have "\<forall>n \<in> set [0..<16]. hex_digit (digit_char n) = Some n \<and>
    (of_char (digit_char n) :: nat) < 128 \<and> digit_char n \<noteq> CHR ''+''"
    by (simp add: upt_rec hex_digit_def digit_char_def of_char_def)
  then show "n < 16 \<Longrightarrow> ?thesis" by simp
qed

lemma radix16_hex2: "radix16 (hex2 b) = Some b"
proof -
  have "unat b < 256" using unsigned_less [of b] by simp
  then have "unat b div 16 < 16" "unat b mod 16 < 16" by simp_all
  with hex_digit_char [of "unat b div 16"] hex_digit_char [of "unat b mod 16"] show ?thesis
    by (simp add: radix16_def hex2_def)
qed

lemma hex_ascii: "c \<in> set (concat (map hex2 bs)) \<Longrightarrow> (of_char c :: nat) < 128"
proof -
  have "(of_char (digit_char (n mod 16)) :: nat) < 128" for n
    using hex_digit_char [of "n mod 16"] by simp
  then have "(of_char (digit_char n) :: nat) < 128" for n
    by (simp add: digit_char_def)
  then show "c \<in> set (concat (map hex2 bs)) \<Longrightarrow> ?thesis" by (auto simp: hex2_def)
qed

lemma hex_boundary: "i \<le> 2 * length bs \<Longrightarrow> char_boundary (concat (map hex2 bs)) i"
  using hex_ascii [OF nth_mem, of i bs] by (auto simp: char_boundary_def)

lemma hex_slice: "k < length bs \<Longrightarrow> take 2 (drop (2 * k) (concat (map hex2 bs))) = hex2 (bs ! k)"
proof (induction bs arbitrary: k)
  case (Cons b bs)
  then show ?case by (cases k) (simp_all add: hex2_def)
qed simp

lemma from_to_hex: "from_hex (to_hex bs) = Inr bs"
proof -
  let ?s = "concat (map hex2 bs)"
  have "collect_results (hex_byte ?s) (map (\<lambda>k. 2 * k) [0..<length bs]) =
      Inr (map (\<lambda>k. bs ! k) [0..<length bs])"
    by (rule collect_results_map) (simp add: hex_byte_def hex_boundary hex_slice radix16_hex2)
  then show ?thesis by (simp add: from_hex_def to_hex_map map_nth)
qed

section \<open>What the bridge relies on\<close>

text \<open>
  \<open>serde\<close> reads back the token it wrote, and a Biscuit parsed under its root's public
  key yields the text of the fact it was built with.
\<close>

definition token_codec :: "(interop_token \<Rightarrow> bytes) \<Rightarrow> (bytes \<Rightarrow> string + interop_token) \<Rightarrow> bool" where
  "token_codec tw tr \<longleftrightarrow> (\<forall>x. length (it_issuer x) = 32 \<longrightarrow> tr (tw x) = Inr x)"

definition plain_text :: "string \<Rightarrow> bool" where
  "plain_text d \<longleftrightarrow> (\<forall>c \<in> set d. (of_char c :: nat) < 128 \<and> c \<noteq> CHR 0x22 \<and> c \<noteq> CHR 0x5C)"

definition biscuit_carries :: "('b, 't, 'k, 'p, 'a) biscuit_lib \<Rightarrow> ('k \<Rightarrow> 'p) \<Rightarrow> bool" where
  "biscuit_carries B pub \<longleftrightarrow> (\<forall>root d. plain_text d \<longrightarrow> (\<exists>b t bs t2 a.
     bl_fact B (bl_builder B) (''dlc_says_credential('' @ quote_char @ d @ quote_char @ '')'') = Inr b \<and>
     bl_build B b root = Inr t \<and> bl_to_vec B t = Inr bs \<and> bl_from B bs (pub root) = Inr t2 \<and>
     bl_authorizer B t2 = Inr a \<and>
     bl_query B a ''data($d) <- dlc_says_credential($d)'' = Inr [d]))"

lemma plain_hex: "plain_text (to_hex bs)"
proof -
  have "c \<noteq> CHR 0x22 \<and> c \<noteq> CHR 0x5C" if "c = digit_char n" for c n
  proof -
    have "digit_char n \<in> set ''0123456789abcdef''"
      unfolding digit_char_def by (rule nth_mem) simp
    with that show ?thesis by auto
  qed
  moreover have "\<exists>n. c = digit_char n" if "c \<in> set (concat (map hex2 bs))" for c
    using that by (auto simp: hex2_def)
  ultimately show ?thesis
    unfolding plain_text_def to_hex_map using hex_ascii by blast
qed

text \<open>A toy bridge on which the hypotheses are seen to hold.\<close>

definition toy_token_writer :: "interop_token \<Rightarrow> bytes" where
  "toy_token_writer x = it_issuer x @ [it_sig_alg x] @ put (CArr [CBytes (it_audience x), CBytes (it_term x), CBytes (it_sig x)])"

definition toy_token_reader :: "bytes \<Rightarrow> string + interop_token" where
  "toy_token_reader bs = (case toy_read 1 (drop 33 bs) of
     Inr (CArr [CBytes a, CBytes t, CBytes s]) \<Rightarrow>
       Inr \<lparr>it_issuer = take 32 bs, it_audience = a, it_term = t, it_sig_alg = bs ! 32, it_sig = s\<rparr>
   | _ \<Rightarrow> Inl [])"

lemma toy_token_codec: "token_codec toy_token_writer toy_token_reader"
proof -
  have "toy_read 1 (put (CArr [CBytes a, CBytes t, CBytes s])) = Inr (CArr [CBytes a, CBytes t, CBytes s])"
    for a t s
    by (rule cbor_codecD [OF toy_codec]) simp_all
  then show ?thesis
    by (simp add: token_codec_def toy_token_writer_def toy_token_reader_def nth_append del: put.simps)
qed

definition toy_biscuit :: "(string, string, unit, unit, string) biscuit_lib" where
  "toy_biscuit =
     \<lparr>bl_builder = [], bl_fact = (\<lambda>b f. Inr f), bl_check = (\<lambda>b c. Inr b), bl_build = (\<lambda>b k. Inr b),
      bl_to_vec = (\<lambda>t. Inr (map (\<lambda>c. of_nat (of_char c)) t)),
      bl_from = (\<lambda>bs p. Inr (map (\<lambda>b. char_of (unat b)) bs)),
      bl_authorizer = Inr, bl_query = (\<lambda>a q. Inr [take (length a - 23) (drop 21 a)]),
      bl_code = Inr, bl_build_authorizer = (\<lambda>b t. Inr t), bl_authorize = (\<lambda>a. Inr ())\<rparr>"

lemma char_of_char_word: "char_of (unat (of_nat (of_char c) :: u8)) = c"
proof -
  have "unat (of_nat (of_char c) :: u8) = of_char c mod 256" by (simp add: unat_of_nat)
  then show ?thesis by (simp add: char_of_mod_256)
qed

lemma toy_biscuit_carries: "biscuit_carries toy_biscuit (\<lambda>u. u)"
  by (simp add: biscuit_carries_def toy_biscuit_def quote_char_def o_def char_of_char_word)

section \<open>Properties\<close>

text \<open>The audience of a credential is not part of what is signed: from one credential that
  verifies, a token for any other audience can be written that decodes and verifies.\<close>

theorem audience_not_signed:
  assumes "token_codec tw tr" "cbor_codec cw cr limit"
    "wf_trm t" "cdepth (enc_term t) \<le> limit" "length (pid_bytes i) = 32"
    "verify_credential L cw k (Atom_p i) t sg = Inr ()"
  shows "\<exists>bs. encode_credential tw cw (Atom_p i) audience t sg = Inr bs \<and>
    decode_credential tr cr bs = Inr (Atom_p i, audience, t, sg) \<and>
    verify_credential L cw k (Atom_p i) t sg = Inr ()"
  using assms decode_encode [OF assms(2-4)]
  by (cases i) (simp add: encode_credential_def decode_credential_def token_codec_def)

theorem audience_not_signed_witness:
  "\<exists>bs. encode_credential toy_token_writer put (Atom_p demo_id) [9] (Var 0)
      \<lparr>sig_alg = 0, sig_bytes = ed25519_sign toy_ed25519 (replicate 32 1) (canonical_bytes put (Var 0))\<rparr> = Inr bs \<and>
    decode_credential toy_token_reader (toy_read 256) bs = Inr (Atom_p demo_id, [9], Var 0,
      \<lparr>sig_alg = 0, sig_bytes = ed25519_sign toy_ed25519 (replicate 32 1) (canonical_bytes put (Var 0))\<rparr>) \<and>
    verify_credential toy_ed25519 put demo_ring (Atom_p demo_id) (Var 0)
      \<lparr>sig_alg = 0, sig_bytes = ed25519_sign toy_ed25519 (replicate 32 1) (canonical_bytes put (Var 0))\<rparr> = Inr ()"
proof (rule audience_not_signed [OF toy_token_codec toy_codec])
  show "verify_credential toy_ed25519 put demo_ring (Atom_p demo_id) (Var 0)
      \<lparr>sig_alg = 0, sig_bytes = ed25519_sign toy_ed25519 (replicate 32 1) (canonical_bytes put (Var 0))\<rparr> = Inr ()"
    using ed25519_sign_verify [OF toy_ed25519_ok, of "replicate 32 1"]
    by (simp add: verify_credential_def verify_in_keyring_def demo_ring_def ALG_ED25519_def)
qed (simp_all add: demo_id_def u32_int_def)

text \<open>A credential survives its Biscuit: what is embedded under a root key is what a verifier
  with the root's public key extracts.\<close>

theorem biscuit_roundtrip:
  assumes "biscuit_carries B pub"
  shows "\<exists>bs. to_biscuit B credential root = Inr bs \<and> from_biscuit B bs (pub root) = Inr credential"
proof -
  from assms plain_hex [of credential] obtain b t bs t2 a where
    "bl_fact B (bl_builder B) (credential_fact credential) = Inr b" "bl_build B b root = Inr t"
    "bl_to_vec B t = Inr bs" "bl_from B bs (pub root) = Inr t2" "bl_authorizer B t2 = Inr a"
    "bl_query B a ''data($d) <- dlc_says_credential($d)'' = Inr [to_hex credential]"
    unfolding biscuit_carries_def credential_fact_def by blast
  then show ?thesis by (simp add: to_biscuit_def from_biscuit_def from_to_hex)
qed

theorem biscuit_roundtrip_witness:
  "\<exists>bs. to_biscuit toy_biscuit [1, 255] () = Inr bs \<and> from_biscuit toy_biscuit bs () = Inr [1, 255]"
  by (rule biscuit_roundtrip [OF toy_biscuit_carries, of "[1, 255]" "()"])

text \<open>Reading hexadecimal inverts writing it, but is neither strict nor total: a plus sign may
  stand for a digit, and text outside ASCII panics instead of being refused.\<close>

theorem from_hex_lenient:
  "from_hex (to_hex bs) = Inr bs \<and> from_hex ''+f'' = Inr [15] \<and>
   from_hex [CHR ''0'', CHR 0xC3, CHR 0xA9, CHR ''0''] = Inl Panic_b"
  by (simp add: from_to_hex)
    (simp add: from_hex_def hex_byte_def char_boundary_def radix16_def hex_digit_def of_char_def)

end
