(* ===== verification/Envelope.thy ===== *)
theory Envelope
  imports Verifier
begin

text \<open>
  The COSE_Sign1 envelope around a token (\<open>crates/dlc-protocol/src/envelope.rs\<close>).  The \<open>coset\<close>
  crate, which serialises the structure and gives the bytes to sign, is a parameter.
\<close>

section \<open>The structure\<close>

text \<open>\<open>coset\<close>'s structures, with the fields the code reads; a parsed header keeps the bytes it came from.\<close>

record cose_header =
  hdr_alg :: "64 word option"
  hdr_key_id :: bytes
  hdr_original :: "bytes option"

record cose_sign1 =
  cs_protected :: cose_header
  cs_payload :: "bytes option"
  cs_signature :: bytes

text \<open>\<open>cose_tbs\<close> is the serialised \<open>Sig_structure\<close> with no external data.\<close>

record cose_lib =
  cose_tbs :: "cose_sign1 \<Rightarrow> bytes"
  cose_to_vec :: "cose_sign1 \<Rightarrow> string + bytes"
  cose_from_slice :: "bytes \<Rightarrow> string + cose_sign1"

text \<open>
  Its documented behaviour: the signature is not part of what is signed, and a structure
  that was built and serialised parses back with the same content.
\<close>

definition cose_ok :: "cose_lib \<Rightarrow> bool" where
  "cose_ok C \<longleftrightarrow>
     (\<forall>s x. cose_tbs C (s\<lparr>cs_signature := x\<rparr>) = cose_tbs C s) \<and>
     (\<forall>s. hdr_original (cs_protected s) = None \<longrightarrow>
        (\<exists>bs s2. cose_to_vec C s = Inr bs \<and> cose_from_slice C bs = Inr s2 \<and>
           hdr_key_id (cs_protected s2) = hdr_key_id (cs_protected s) \<and>
           cs_payload s2 = cs_payload s \<and> cs_signature s2 = cs_signature s \<and>
           cose_tbs C s2 = cose_tbs C s))"

section \<open>Wrapping and unwrapping\<close>

text \<open>The identifier that IANA assigns to EdDSA.\<close>

definition alg_eddsa :: "64 word" where
  "alg_eddsa = - 8"

definition wrap_sign1 ::
    "cose_lib \<Rightarrow> ed25519_lib \<Rightarrow> (bytes \<Rightarrow> bytes) \<Rightarrow> bytes \<Rightarrow> bytes \<Rightarrow> protocol_error + bytes" where
  "wrap_sign1 C L sha256 token seed =
     (let pk = ed25519_public_key L seed;
          kid = principal_id_of sha256 pk;
          protected = \<lparr>hdr_alg = Some alg_eddsa, hdr_key_id = kid, hdr_original = None\<rparr>;
          unsigned = \<lparr>cs_protected = protected, cs_payload = Some token, cs_signature = []\<rparr>;
          sign1 = unsigned\<lparr>cs_signature := ed25519_sign L seed (cose_tbs C unsigned)\<rparr>
      in case cose_to_vec C sign1 of Inl e \<Rightarrow> Inl (Cose e) | Inr bs \<Rightarrow> Inr bs)"

definition unwrap_sign1 ::
    "cose_lib \<Rightarrow> ed25519_lib \<Rightarrow> bytes \<Rightarrow> key_ring \<Rightarrow> protocol_error + bytes \<times> principal_id" where
  "unwrap_sign1 C L cose keyring = (case cose_from_slice C cose of
     Inl e \<Rightarrow> Inl (Cose e)
   | Inr sign1 \<Rightarrow>
       let kid = hdr_key_id (cs_protected sign1) in
       if length kid \<noteq> 32 then Inl (Cose ''kid: expected 32 bytes'')
       else let pid = PrincipalId kid in
         case find (\<lambda>r. kr_principal r = pid) (entries keyring) of
           None \<Rightarrow> Inl (Cose ''presenter not in keyring'')
         | Some r \<Rightarrow>
             if kr_alg r \<noteq> ALG_ED25519 then Inl (Cose ''unsupported presenter alg'')
             else (case ed25519_verify L (public_key r) (cose_tbs C sign1) (cs_signature sign1) of
               Inl e \<Rightarrow> Inl (Cose ''presenter signature invalid'')
             | Inr u \<Rightarrow> (case cs_payload sign1 of
                 None \<Rightarrow> Inl (Cose ''missing payload'')
               | Some pl \<Rightarrow> Inr (pl, pid))))"

section \<open>A toy library\<close>

definition toy_cose_tbs :: "cose_sign1 \<Rightarrow> bytes" where
  "toy_cose_tbs s = hdr_key_id (cs_protected s) @
     (case cs_payload s of None \<Rightarrow> [0] | Some p \<Rightarrow> 1 # p)"

definition toy_cose_item :: "cose_sign1 \<Rightarrow> cbor" where
  "toy_cose_item s = CArr [
     (case hdr_alg (cs_protected s) of None \<Rightarrow> CNull | Some a \<Rightarrow> CInt (uint a)),
     CBytes (hdr_key_id (cs_protected s)),
     (case cs_payload s of None \<Rightarrow> CNull | Some p \<Rightarrow> CBytes p), CBytes (cs_signature s)]"

definition toy_cose_from :: "bytes \<Rightarrow> string + cose_sign1" where
  "toy_cose_from bs = (case toy_read 1 bs of
     Inr (CArr [a, CBytes k, p, CBytes s]) \<Rightarrow>
       Inr \<lparr>cs_protected = \<lparr>hdr_alg = (case a of CInt i \<Rightarrow> Some (word_of_int i) | _ \<Rightarrow> None), hdr_key_id = k,
              hdr_original = None\<rparr>,
            cs_payload = (case p of CBytes b \<Rightarrow> Some b | _ \<Rightarrow> None), cs_signature = s\<rparr>
   | _ \<Rightarrow> Inl [])"

definition toy_cose :: cose_lib where
  "toy_cose = \<lparr>cose_tbs = toy_cose_tbs, cose_to_vec = (\<lambda>s. Inr (put (toy_cose_item s))),
     cose_from_slice = toy_cose_from\<rparr>"

lemma toy_cose_ok: "cose_ok toy_cose"
proof -
  have u1: "uint a < 18446744073709551616" for a :: "64 word"
    using uint_bounded [of a] by simp
  have u2: "- 18446744073709551616 \<le> uint a" for a :: "64 word"
    by (rule order_trans [of _ 0]) simp_all
  have "toy_read 1 (put (toy_cose_item s)) = Inr (toy_cose_item s)" for s
    by (rule cbor_codecD [OF toy_codec]) (auto simp: toy_cose_item_def u1 u2 split: option.split)
  then show ?thesis
    by (auto simp: cose_ok_def toy_cose_def toy_cose_from_def toy_cose_tbs_def toy_cose_item_def
        split: option.split)
qed

lemma cose_ok_parse:
  assumes "cose_ok C" "hdr_original (cs_protected s) = None"
  shows "\<exists>bs s2. cose_to_vec C s = Inr bs \<and> cose_from_slice C bs = Inr s2 \<and>
    hdr_key_id (cs_protected s2) = hdr_key_id (cs_protected s) \<and>
    cs_payload s2 = cs_payload s \<and> cs_signature s2 = cs_signature s \<and> cose_tbs C s2 = cose_tbs C s"
  using assms unfolding cose_ok_def by blast

lemma wrapped:
  assumes "cose_ok C" "ed25519_ok L" "length seed = 32"
  shows "\<exists>bs s. wrap_sign1 C L sha256 token seed = Inr bs \<and> cose_from_slice C bs = Inr s \<and>
    hdr_key_id (cs_protected s) = principal_id_of sha256 (ed25519_public_key L seed) \<and> cs_payload s = Some token \<and>
    ed25519_verify L (ed25519_public_key L seed) (cose_tbs C s) (cs_signature s) = Inr ()"
proof -
  let ?u = "\<lparr>cs_protected = \<lparr>hdr_alg = Some alg_eddsa, hdr_key_id = principal_id_of sha256 (ed25519_public_key L seed),
    hdr_original = None\<rparr>, cs_payload = Some token, cs_signature = []\<rparr>"
  let ?s = "?u\<lparr>cs_signature := ed25519_sign L seed (cose_tbs C ?u)\<rparr>"
  from assms(1) obtain bs s2 where "cose_to_vec C ?s = Inr bs" "cose_from_slice C bs = Inr s2"
    "hdr_key_id (cs_protected s2) = hdr_key_id (cs_protected ?s)" "cs_payload s2 = Some token"
    "cs_signature s2 = cs_signature ?s" "cose_tbs C s2 = cose_tbs C ?s"
    using cose_ok_parse [of C ?s] by auto
  moreover have "cose_tbs C ?s = cose_tbs C ?u" using assms(1) by (simp only: cose_ok_def)
  ultimately show ?thesis
    using ed25519_sign_verify [OF assms(2,3)] by (simp add: wrap_sign1_def Let_def)
qed

section \<open>Properties\<close>

text \<open>Unwrapping succeeds exactly on an envelope whose key identifier has a first keyring row
  with an Ed25519 key that verifies the signature over the envelope's content, and it
  returns that content and that identifier.\<close>

theorem unwrap_exact:
  "unwrap_sign1 C L cose k = Inr (token, pid) \<longleftrightarrow>
     (\<exists>s r. cose_from_slice C cose = Inr s \<and> hdr_key_id (cs_protected s) = pid_bytes pid \<and>
        length (pid_bytes pid) = 32 \<and> find (\<lambda>r. kr_principal r = pid) (entries k) = Some r \<and>
        kr_alg r = ALG_ED25519 \<and> cs_payload s = Some token \<and>
        ed25519_verify L (public_key r) (cose_tbs C s) (cs_signature s) = Inr ())"
  by (cases pid) (auto simp: unwrap_sign1_def Let_def split: sum.splits option.splits)

text \<open>C35: an envelope opens to what was wrapped and names its presenter, for every keyring whose
  first row for the presenter's identifier holds the presenter's Ed25519 key.\<close>

theorem envelope_roundtrip:
  assumes "cose_ok C" "ed25519_ok L" "length seed = 32" "pk = ed25519_public_key L seed"
    "length (principal_id_of sha256 pk) = 32"
    "find (\<lambda>r. kr_principal r = PrincipalId (principal_id_of sha256 pk)) (entries k) = Some r"
    "kr_alg r = ALG_ED25519" "public_key r = pk"
  shows "\<exists>bs. wrap_sign1 C L sha256 token seed = Inr bs \<and>
    unwrap_sign1 C L bs k = Inr (token, PrincipalId (principal_id_of sha256 pk))"
  using wrapped [OF assms(1-3), of sha256 token] assms(4-8) by (auto simp: unwrap_exact)

theorem envelope_roundtrip_witness:
  "\<exists>bs. wrap_sign1 toy_cose toy_ed25519 (\<lambda>pk. replicate 32 2) [5, 6] (replicate 32 1) = Inr bs \<and>
    unwrap_sign1 toy_cose toy_ed25519 bs demo_ring = Inr ([5, 6], demo_id)"
  using envelope_roundtrip [OF toy_cose_ok toy_ed25519_ok, of "replicate 32 1" _ "\<lambda>pk. replicate 32 2"
      demo_ring _ "[5, 6]"]
  by (simp add: principal_id_of_def demo_ring_def demo_id_def)

end
