(* ===== verification/Rsm.thy ===== *)
theory Rsm
  imports Reduce
begin

text \<open>
  The replicated state machine (\<open>crates/dlc-core/src/rsm.rs\<close>): the failure contract,
  commands and replicas, command application by reduction, delivery and commit.
  Systems evolve by commits, single deliveries and world steps; the theory proves
  that every replica's store is a function of the prefix of the log it has applied.
\<close>

section \<open>The failure contract\<close>

record failure_budget =
  max_faults :: u32
  fair_delivery :: bool
  consumed :: u32

definition fb_zero :: "u32 \<Rightarrow> failure_budget" where
  "fb_zero f = \<lparr>max_faults = f, fair_delivery = True, consumed = 0\<rparr>"

definition fb_saturating_add :: "failure_budget \<Rightarrow> u32 \<Rightarrow> failure_budget" where
  "fb_saturating_add b extra =
     \<lparr>max_faults = max_faults b, fair_delivery = fair_delivery b, consumed = consumed b + extra\<rparr>"

definition fb_le :: "failure_budget \<Rightarrow> bool" where
  "fb_le b \<longleftrightarrow> consumed b \<le> max_faults b"

definition within_contract :: "failure_budget \<Rightarrow> bool" where
  "within_contract b \<longleftrightarrow> fair_delivery b \<and> fb_le b"

section \<open>Commands, replicas, configurations\<close>

definition apply_fuel :: u32 where
  "apply_fuel = 1024"

record command =
  payload :: trm
  cap :: "dprop option"

record replica =
  rid :: u32
  store :: trm
  applied :: u32

type_synonym committed_log = "command list"

record global_config =
  replicas :: "replica list"
  log :: committed_log
  budget :: failure_budget

section \<open>Transitions\<close>

definition apply_command :: "command \<Rightarrow> trm \<Rightarrow> trm" where
  "apply_command c s = fst (reduce_with_fuel (App (payload c) s) apply_fuel)"

text \<open>The loop \<open>for i in 0..cmds.len()\<close>.\<close>

definition apply_prefix :: "trm \<Rightarrow> command list \<Rightarrow> trm" where
  "apply_prefix init cmds = foldl (\<lambda>acc i. apply_command (cmds ! i) acc) init [0..<length cmds]"

definition deliver :: "committed_log \<Rightarrow> replica \<Rightarrow> replica" where
  "deliver lg r =
     (case get_nth lg (unat (applied r)) of
        Some c \<Rightarrow> \<lparr>rid = rid r, store = apply_command c (store r), applied = applied r + 1\<rparr>
      | None \<Rightarrow> r)"

definition world_step :: "global_config \<Rightarrow> global_config" where
  "world_step g =
     \<lparr>replicas = foldl (\<lambda>stepped i. stepped @ [deliver (log g) (replicas g ! i)]) []
        [0..<length (replicas g)],
      log = log g, budget = budget g\<rparr>"

definition commit :: "global_config \<Rightarrow> command \<Rightarrow> global_config" where
  "commit g c = \<lparr>replicas = replicas g, log = log g @ [c], budget = budget g\<rparr>"

section \<open>The loops as folds\<close>

lemma foldl_index: "foldl (\<lambda>acc i. f (xs ! i) acc) s [0..<length xs] = foldl (\<lambda>acc x. f x acc) s xs"
proof (induction xs rule: rev_induct)
  case (snoc x xs)
  have "foldl (\<lambda>acc i. f ((xs @ [x]) ! i) acc) s [0..<length xs] =
      foldl (\<lambda>acc i. f (xs ! i) acc) s [0..<length xs]"
    by (rule foldl_cong) (auto simp: nth_append)
  with snoc show ?case by simp
qed simp

lemma foldl_snoc_map: "foldl (\<lambda>acc x. acc @ [f x]) ys xs = ys @ map f xs"
  by (induction xs arbitrary: ys) simp_all

lemma apply_prefix_fold: "apply_prefix init cmds = foldl (\<lambda>acc c. apply_command c acc) init cmds"
  unfolding apply_prefix_def by (rule foldl_index)

lemma apply_prefix_simps [simp]:
  "apply_prefix init [] = init"
  "apply_prefix init (cs @ [c]) = apply_command c (apply_prefix init cs)"
  by (simp_all add: apply_prefix_fold)

lemma world_step_map:
  "world_step g = g\<lparr>replicas := map (deliver (log g)) (replicas g)\<rparr>"
proof -
  have "foldl (\<lambda>stepped i. stepped @ [deliver (log g) (replicas g ! i)]) [] [0..<length (replicas g)]
      = map (deliver (log g)) (replicas g)"
    using foldl_index [of "\<lambda>r acc. acc @ [deliver (log g) r]" "replicas g" "[]"]
    by (simp add: foldl_snoc_map)
  then show ?thesis by (simp add: world_step_def)
qed

lemma commit_simps [simp]:
  "log (commit g c) = log g @ [c]"
  "replicas (commit g c) = replicas g"
  "budget (commit g c) = budget g"
  by (simp_all add: commit_def)

lemma world_step_simps [simp]:
  "log (world_step g) = log g"
  "replicas (world_step g) = map (deliver (log g)) (replicas g)"
  "budget (world_step g) = budget g"
  by (simp_all add: world_step_map)

section \<open>Replicas are their prefix\<close>

text \<open>
  A replica is consistent with a log when its store is the fold of the prefix it
  counts.  \<open>applied\<close> is a \<open>u32\<close>; the log's length has to stay below \<open>2 ^ 32\<close> for it
  not to wrap.
\<close>

definition consistent :: "trm \<Rightarrow> committed_log \<Rightarrow> replica \<Rightarrow> bool" where
  "consistent init lg r \<longleftrightarrow>
     unat (applied r) \<le> length lg \<and> store r = apply_prefix init (take (unat (applied r)) lg)"

lemma consistent_append: "consistent init lg r \<Longrightarrow> consistent init (lg @ cs) r"
  by (auto simp: consistent_def)

lemma applied_Suc:
  "unat (applied r) < length lg \<Longrightarrow> length lg < 2 ^ 32 \<Longrightarrow>
     unat (applied r + 1) = Suc (unat (applied r))"
  by (rule unat_Suc_word) simp

lemma deliver_applied:
  "length lg < 2 ^ 32 \<Longrightarrow> unat (applied (deliver lg r)) =
     (if unat (applied r) < length lg then Suc (unat (applied r)) else unat (applied r))"
  by (auto simp: deliver_def get_nth_def applied_Suc)

lemma deliver_consistent:
  assumes "consistent init lg r" "length lg < 2 ^ 32"
  shows "consistent init lg (deliver lg r)"
proof (cases "unat (applied r) < length lg")
  case True
  with assms show ?thesis
    by (simp add: consistent_def deliver_def get_nth_def applied_Suc take_Suc_conv_app_nth)
next
  case False
  with assms show ?thesis by (simp add: deliver_def get_nth_def)
qed

text \<open>Delivery only reads the slot the replica waits for.\<close>

lemma deliver_rid [simp]: "rid (deliver lg r) = rid r"
  by (simp add: deliver_def split: option.split)

section \<open>Systems\<close>

text \<open>
  A step of a system commits a command, delivers to one replica (the others
  lag), or delivers to all.
\<close>

inductive sys_step :: "global_config \<Rightarrow> global_config \<Rightarrow> bool" where
  sys_commit: "length (log g) + 1 < 2 ^ 32 \<Longrightarrow> sys_step g (commit g c)"
| sys_deliver: "i < length (replicas g) \<Longrightarrow>
     sys_step g (g\<lparr>replicas := (replicas g)[i := deliver (log g) (replicas g ! i)]\<rparr>)"
| sys_world: "sys_step g (world_step g)"

definition starts :: "trm \<Rightarrow> global_config \<Rightarrow> bool" where
  "starts init g \<longleftrightarrow> log g = [] \<and> (\<forall>r \<in> set (replicas g). store r = init \<and> applied r = 0)"

inductive sys_reach :: "trm \<Rightarrow> global_config \<Rightarrow> bool" for init where
  reach_start: "starts init g \<Longrightarrow> sys_reach init g"
| reach_step: "sys_reach init g \<Longrightarrow> sys_step g h \<Longrightarrow> sys_reach init h"

definition sys_inv :: "trm \<Rightarrow> global_config \<Rightarrow> bool" where
  "sys_inv init g \<longleftrightarrow> length (log g) < 2 ^ 32 \<and> (\<forall>r \<in> set (replicas g). consistent init (log g) r)"

lemma sys_inv_start: "starts init g \<Longrightarrow> sys_inv init g"
  by (simp add: starts_def sys_inv_def consistent_def)

lemma sys_inv_step: "sys_step g h \<Longrightarrow> sys_inv init g \<Longrightarrow> sys_inv init h"
proof (induction rule: sys_step.induct)
  case (sys_deliver i g)
  then show ?case
    by (auto simp: sys_inv_def dest!: set_update_subset_insert [THEN subsetD]
      intro: deliver_consistent)
qed (auto simp: sys_inv_def intro: consistent_append deliver_consistent)

lemma sys_reach_inv: "sys_reach init g \<Longrightarrow> sys_inv init g"
  by (induction rule: sys_reach.induct) (auto intro: sys_inv_start sys_inv_step)

text \<open>Fair delivery: \<open>k\<close> world steps move every replica \<open>k\<close> slots on, up to the log's end.\<close>

lemma world_steps:
  assumes "sys_inv init g"
  shows "log ((world_step ^^ k) g) = log g \<and> sys_inv init ((world_step ^^ k) g) \<and>
    map (\<lambda>r. unat (applied r)) (replicas ((world_step ^^ k) g)) =
      map (\<lambda>r. min (unat (applied r) + k) (length (log g))) (replicas g)"
proof (induction k)
  case 0
  from assms have "\<forall>r \<in> set (replicas g). unat (applied r) \<le> length (log g)"
    by (auto simp: sys_inv_def consistent_def)
  with assms show ?case by simp
next
  case (Suc k)
  let ?h = "(world_step ^^ k) g"
  from Suc have l: "log ?h = log g" and i: "sys_inv init ?h"
    and m: "map (\<lambda>r. unat (applied r)) (replicas ?h) =
      map (\<lambda>r. min (unat (applied r) + k) (length (log g))) (replicas g)" by simp_all
  from assms have "length (log g) < 2 ^ 32" by (simp add: sys_inv_def)
  then have "map (\<lambda>r. unat (applied (deliver (log g) r))) (replicas ?h) =
      map (\<lambda>n. min (Suc n) (length (log g))) (map (\<lambda>r. unat (applied r)) (replicas ?h))"
    using i l by (auto simp: deliver_applied sys_inv_def consistent_def)
  also have "\<dots> = map (\<lambda>r. min (unat (applied r) + Suc k) (length (log g))) (replicas g)"
    unfolding m by auto
  finally show ?case
    using l sys_inv_step [OF sys_world i] by (simp add: o_def)
qed

section \<open>Properties\<close>

text \<open>C28: convergence.  In every reachable system a replica's store is the fold of the log
  prefix it has applied, so replicas that have applied equally much hold the same store.\<close>

theorem replicas_converge:
  assumes "sys_reach init g" "r \<in> set (replicas g)" "s \<in> set (replicas g)"
  shows "store r = apply_prefix init (take (unat (applied r)) (log g)) \<and>
    unat (applied r) \<le> length (log g) \<and> (applied r = applied s \<longrightarrow> store r = store s)"
  using sys_reach_inv [OF assms(1)] assms(2,3) by (auto simp: sys_inv_def consistent_def)

theorem replicas_converge_witness:
  "store \<lparr>rid = 0, store = Var 7, applied = 0\<rparr> = apply_prefix (Var 7) (take 0 [])"
proof -
  let ?r = "\<lparr>rid = 0, store = Var 7, applied = 0\<rparr>"
  let ?g = "\<lparr>replicas = [?r], log = [], budget = fb_zero 1\<rparr>"
  have "sys_reach (Var 7) ?g" by (rule reach_start) (simp add: starts_def)
  from replicas_converge [OF this, of ?r ?r] show ?thesis by simp
qed

text \<open>Fair delivery brings every replica to the end of the log: after as many world steps
  as the log is long, all stores are the fold of the whole log.\<close>

theorem replicas_catch_up:
  assumes "sys_reach init g" "r \<in> set (replicas ((world_step ^^ length (log g)) g))"
  shows "unat (applied r) = length (log g) \<and> store r = apply_prefix init (log g)"
proof -
  let ?h = "(world_step ^^ length (log g)) g"
  from world_steps [OF sys_reach_inv [OF assms(1)], of "length (log g)"]
  have l: "log ?h = log g" and i: "sys_inv init ?h"
    and m: "map (\<lambda>r. unat (applied r)) (replicas ?h) = map (\<lambda>r. length (log g)) (replicas g)"
    by simp_all
  from m assms(2) have "unat (applied r) = length (log g)"
    by (metis (no_types, lifting) imageE image_eqI list.set_map)
  with i l assms(2) show ?thesis by (auto simp: sys_inv_def consistent_def)
qed

theorem replicas_catch_up_witness:
  "replicas (world_step (commit \<lparr>replicas = [\<lparr>rid = 0, store = Now \<lparr>epoch_ms = 1\<rparr>, applied = 0\<rparr>],
     log = [], budget = fb_zero 0\<rparr> \<lparr>payload = Lam Top (Now \<lparr>epoch_ms = 2\<rparr>), cap = None\<rparr>)) =
     [\<lparr>rid = 0, store = Now \<lparr>epoch_ms = 2\<rparr>, applied = 1\<rparr>]"
proof -
  let ?r = "\<lparr>rid = 0, store = Now \<lparr>epoch_ms = 1\<rparr>, applied = 0\<rparr>"
  let ?c = "\<lparr>payload = Lam Top (Now \<lparr>epoch_ms = 2\<rparr>), cap = None\<rparr>"
  let ?g = "commit \<lparr>replicas = [?r], log = [], budget = fb_zero 0\<rparr> ?c"
  have "sys_reach (Now \<lparr>epoch_ms = 1\<rparr>) \<lparr>replicas = [?r], log = [], budget = fb_zero 0\<rparr>"
    by (rule reach_start) (simp add: starts_def)
  then have reach: "sys_reach (Now \<lparr>epoch_ms = 1\<rparr>) ?g"
    by (rule reach_step) (rule sys_commit, simp)
  have "apply_command ?c (Now \<lparr>epoch_ms = 1\<rparr>) = Now \<lparr>epoch_ms = 2\<rparr>"
    by (simp add: apply_command_def reduce_with_fuel_def apply_fuel_def)
      (simp add: numeral_eq_Suc subst_def)
  then have eq: "replicas (world_step ?g) = [\<lparr>rid = 0, store = Now \<lparr>epoch_ms = 2\<rparr>, applied = 1\<rparr>]"
    by (simp add: deliver_def)
  with replicas_catch_up [OF reach, of "\<lparr>rid = 0, store = Now \<lparr>epoch_ms = 2\<rparr>, applied = 1\<rparr>"]
  show ?thesis by simp
qed

text \<open>The method named \<open>saturating_add\<close> wraps: a contract that tolerates \<open>f\<close> faults still
  holds after \<open>2 ^ 32\<close> faults have been charged.\<close>

theorem failure_budget_wraps:
  "within_contract (fb_saturating_add (fb_saturating_add (fb_zero f) (- 1)) 1)"
  by (simp add: within_contract_def fb_le_def fb_saturating_add_def fb_zero_def)

end
