(* ===== verification/Consensus.thy ===== *)
theory Consensus
  imports Rsm
begin

text \<open>
  Single-decree consensus over ballots (\<open>crates/dlc-d-rsm/src/consensus.rs\<close>): the quorum
  tests and the decision predicates.  What a threshold buys is the locale
  \<open>quorum_threshold\<close>, interpreted on the crash and the Byzantine thresholds of the
  code.
\<close>

section \<open>Thresholds and decisions\<close>

type_synonym votes = "command option list"

definition is_quorum :: "u32 \<Rightarrow> u32 \<Rightarrow> bool" where
  "is_quorum a n \<longleftrightarrow> 2 * a > n"

definition is_byz_quorum :: "u32 \<Rightarrow> u32 \<Rightarrow> bool" where
  "is_byz_quorum a n \<longleftrightarrow> 3 * a > 2 * n"

text \<open>The counting loop that both decision predicates contain.\<close>

definition count_vote :: "command \<Rightarrow> u32 \<Rightarrow> command option \<Rightarrow> u32" where
  "count_vote v count vote = (case vote of
     Some c \<Rightarrow> if c = v then count + 1 else count
   | None \<Rightarrow> count)"

definition decided :: "votes \<Rightarrow> command \<Rightarrow> bool" where
  "decided votes v = (let count = foldl (count_vote v) 0 votes in
     is_quorum count (of_nat (length votes)))"

definition byz_decided :: "votes \<Rightarrow> command \<Rightarrow> bool" where
  "byz_decided votes v = (let count = foldl (count_vote v) 0 votes in
     is_byz_quorum count (of_nat (length votes)))"

section \<open>What a threshold promises\<close>

text \<open>
  \<open>reached a n\<close>: \<open>a\<close> of \<open>n\<close> members suffice.  Two sufficient sets overlap in a set that
  \<open>overlap\<close> accepts, and no overlap is empty.
\<close>

locale quorum_threshold =
  fixes reached :: "nat \<Rightarrow> nat \<Rightarrow> bool" and overlap :: "nat \<Rightarrow> nat \<Rightarrow> bool"
  assumes intersect: "reached a n \<Longrightarrow> reached b n \<Longrightarrow> a \<le> n \<Longrightarrow> b \<le> n \<Longrightarrow> overlap (a + b - n) n"
    and overlap_mono: "overlap k n \<Longrightarrow> k \<le> m \<Longrightarrow> overlap m n"
    and overlap_pos: "overlap k n \<Longrightarrow> 0 < k"
    and reached_mono: "reached a n \<Longrightarrow> a \<le> b \<Longrightarrow> reached b n"
    and reached_pos: "reached a n \<Longrightarrow> 0 < a"
begin

lemma quorums_overlap:
  assumes "finite U" "A \<subseteq> U" "B \<subseteq> U" "reached (card A) (card U)" "reached (card B) (card U)"
  shows "overlap (card (A \<inter> B)) (card U)"
proof (rule overlap_mono)
  have fin: "finite A" "finite B" using assms(1-3) finite_subset by blast+
  have "card (A \<union> B) \<le> card U" using assms(1-3) by (intro card_mono) auto
  with card_Un_Int [OF fin] show "card A + card B - card U \<le> card (A \<inter> B)" by linarith
  show "overlap (card A + card B - card U) (card U)"
    using assms by (intro intersect) (auto intro: card_mono)
qed

lemma quorums_meet:
  assumes "finite U" "A \<subseteq> U" "B \<subseteq> U" "reached (card A) (card U)" "reached (card B) (card U)"
  shows "\<exists>x. x \<in> A \<inter> B"
  using overlap_pos [OF quorums_overlap [OF assms]] by (auto simp: card_gt_0_iff)

end

definition crash_reached :: "nat \<Rightarrow> nat \<Rightarrow> bool" where
  "crash_reached a n \<longleftrightarrow> 2 * a > n"

definition byz_reached :: "nat \<Rightarrow> nat \<Rightarrow> bool" where
  "byz_reached a n \<longleftrightarrow> 3 * a > 2 * n"

text \<open>More than a third of the members: more than any tolerated set of traitors.\<close>

definition over_third :: "nat \<Rightarrow> nat \<Rightarrow> bool" where
  "over_third k n \<longleftrightarrow> 3 * k > n"

definition nonempty :: "nat \<Rightarrow> nat \<Rightarrow> bool" where
  "nonempty k n \<longleftrightarrow> 0 < k"

interpretation crash: quorum_threshold crash_reached nonempty
  by unfold_locales (auto simp: crash_reached_def nonempty_def)

interpretation byz: quorum_threshold byz_reached over_third
  by unfold_locales (auto simp: byz_reached_def over_third_def)

section \<open>Decisions as quorums of voters\<close>

definition voters :: "votes \<Rightarrow> command \<Rightarrow> nat set" where
  "voters votes v = {i. i < length votes \<and> votes ! i = Some v}"

lemma voters_sub: "voters votes v \<subseteq> {..<length votes}"
  by (auto simp: voters_def)

lemma count_votes: "foldl (count_vote v) k votes = k + of_nat (length (filter ((=) (Some v)) votes))"
  by (induction votes arbitrary: k) (auto simp: count_vote_def split: option.splits)

lemma card_voters: "length (filter ((=) (Some v)) votes) = card (voters votes v)"
  unfolding voters_def length_filter_conv_card by (metis (full_types))

lemma count_voters: "foldl (count_vote v) 0 votes = of_nat (card (voters votes v))"
  by (simp add: count_votes card_voters)

lemma card_voters_le: "card (voters votes v) \<le> length votes"
  using card_mono [OF _ voters_sub, of votes v] by simp

text \<open>Without overflow the tests are the thresholds on numbers.\<close>

lemma is_quorum_iff:
  "a < 2 ^ 31 \<Longrightarrow> n < 2 ^ 32 \<Longrightarrow> is_quorum (of_nat a) (of_nat n) \<longleftrightarrow> crash_reached a n"
  by (simp add: is_quorum_def crash_reached_def word_less_nat_alt unat_word_ariths unat_of_nat
      take_bit_nat_eq_self mod_simps)

lemma is_byz_quorum_iff:
  "3 * a < 2 ^ 32 \<Longrightarrow> n < 2 ^ 31 \<Longrightarrow> is_byz_quorum (of_nat a) (of_nat n) \<longleftrightarrow> byz_reached a n"
  by (simp add: is_byz_quorum_def byz_reached_def word_less_nat_alt unat_word_ariths unat_of_nat
      take_bit_nat_eq_self mod_simps)

lemma decided_iff:
  assumes "length votes < 2 ^ 31"
  shows "decided votes v \<longleftrightarrow> crash_reached (card (voters votes v)) (length votes)"
  using assms card_voters_le [of votes v]
  by (simp add: decided_def count_voters is_quorum_iff)

lemma byz_decided_iff:
  assumes "3 * length votes < 2 ^ 32"
  shows "byz_decided votes v \<longleftrightarrow> byz_reached (card (voters votes v)) (length votes)"
  using assms card_voters_le [of votes v]
  by (simp add: byz_decided_def count_voters is_byz_quorum_iff)

section \<open>Properties\<close>

text \<open>Agreement.  One ballot decides at most one command, under either threshold.\<close>

theorem decided_agreement:
  assumes "3 * length votes < 2 ^ 32" "decided votes v \<or> byz_decided votes v"
    "decided votes w \<or> byz_decided votes w"
  shows "v = w"
proof -
  have crash: "crash_reached (card (voters votes u)) (card {..<length votes})"
    if "decided votes u \<or> byz_decided votes u" for u
    using that assms(1) by (auto simp: decided_iff byz_decided_iff crash_reached_def byz_reached_def)
  from crash.quorums_meet [OF _ voters_sub voters_sub crash [OF assms(2)] crash [OF assms(3)]]
  show ?thesis by (auto simp: voters_def)
qed

theorem decided_agreement_witness:
  "decided [Some \<lparr>payload = Var 1, cap = None\<rparr>, None, Some \<lparr>payload = Var 1, cap = None\<rparr>]
     \<lparr>payload = Var 1, cap = None\<rparr> \<and>
   \<not> decided [Some \<lparr>payload = Var 1, cap = None\<rparr>, None, Some \<lparr>payload = Var 1, cap = None\<rparr>]
     \<lparr>payload = Var 2, cap = None\<rparr>"
proof -
  let ?v = "[Some \<lparr>payload = Var 1, cap = None\<rparr>, None, Some \<lparr>payload = Var 1, cap = None\<rparr>]"
  have "decided ?v \<lparr>payload = Var 1, cap = None\<rparr>"
    by (simp add: decided_def count_vote_def is_quorum_def)
  with decided_agreement [of ?v "\<lparr>payload = Var 1, cap = None\<rparr>" "\<lparr>payload = Var 2, cap = None\<rparr>"]
  show ?thesis by auto
qed

text \<open>Equivocation.  When the same replicas fill two ballots and the two decide different
  commands, some replica voted for both; if both decisions are Byzantine, more than a
  third of the electorate did.\<close>

theorem conflicting_ballots:
  assumes "length votes1 = n" "length votes2 = n" "3 * n < 2 ^ 32"
  shows "(decided votes1 v \<and> decided votes2 w \<longrightarrow>
      (\<exists>i < n. votes1 ! i = Some v \<and> votes2 ! i = Some w)) \<and>
    (byz_decided votes1 v \<and> byz_decided votes2 w \<longrightarrow>
      3 * card {i. i < n \<and> votes1 ! i = Some v \<and> votes2 ! i = Some w} > n)"
proof (intro conjI impI)
  have sub: "voters votes1 v \<subseteq> {..<n}" "voters votes2 w \<subseteq> {..<n}"
    using voters_sub [of votes1 v] voters_sub [of votes2 w] assms by auto
  have int: "voters votes1 v \<inter> voters votes2 w =
      {i. i < n \<and> votes1 ! i = Some v \<and> votes2 ! i = Some w}"
    using assms by (auto simp: voters_def)
  { assume "decided votes1 v \<and> decided votes2 w"
    with assms have "crash_reached (card (voters votes1 v)) (card {..<n})"
      "crash_reached (card (voters votes2 w)) (card {..<n})" by (auto simp: decided_iff)
    from crash.quorums_meet [OF _ sub this] int
    show "\<exists>i < n. votes1 ! i = Some v \<and> votes2 ! i = Some w" by auto }
  { assume "byz_decided votes1 v \<and> byz_decided votes2 w"
    with assms have "byz_reached (card (voters votes1 v)) (card {..<n})"
      "byz_reached (card (voters votes2 w)) (card {..<n})" by (auto simp: byz_decided_iff)
    from byz.quorums_overlap [OF _ sub this] int
    show "3 * card {i. i < n \<and> votes1 ! i = Some v \<and> votes2 ! i = Some w} > n"
      by (simp add: over_third_def) }
qed

theorem conflicting_ballots_witness:
  "\<exists>i < 3. [Some \<lparr>payload = Var 1, cap = None\<rparr>, Some \<lparr>payload = Var 1, cap = None\<rparr>, None] ! i =
       Some \<lparr>payload = Var 1, cap = None\<rparr> \<and>
     [None, Some \<lparr>payload = Var 2, cap = None\<rparr>, Some \<lparr>payload = Var 2, cap = None\<rparr>] ! i =
       Some \<lparr>payload = Var 2, cap = None\<rparr>"
  by (rule conflicting_ballots [THEN conjunct1, rule_format])
    (simp_all add: decided_def count_vote_def is_quorum_def)

text \<open>The \<open>u32\<close> products wrap: in an electorate of \<open>2 ^ 31\<close> a unanimous vote is no crash
  quorum, and a single vote is a Byzantine one.\<close>

theorem thresholds_wrap:
  "\<not> is_quorum 0x80000000 0x80000000 \<and> is_byz_quorum 1 0x80000000"
  by (simp add: is_quorum_def is_byz_quorum_def)

end
