(* ===== verification/Proto.thy ===== *)
theory Proto
  imports Wire Crypto Consensus
begin

text \<open>
  The authenticated replication protocol (\<open>crates/dlc-d-node/src/proto.rs\<close>): the signed
  messages, the roster and its threshold, capabilities, proposals, votes and quorum
  certificates.
\<close>

section \<open>Signed messages\<close>

text \<open>Byte-string literals, and \<open>u32::to_le_bytes\<close>.\<close>

definition ascii :: "string \<Rightarrow> bytes" where
  "ascii s = map of_char s"

definition to_le_bytes :: "u32 \<Rightarrow> bytes" where
  "to_le_bytes n = [ucast n, ucast (drop_bit 8 n), ucast (drop_bit 16 n), ucast (drop_bit 24 n)]"

definition DOM_CAP :: bytes where
  "DOM_CAP = ascii ''dlc-d/cap/v1''"

definition DOM_PROPOSE :: bytes where
  "DOM_PROPOSE = ascii ''dlc-d/propose/v1''"

definition DOM_VOTE :: bytes where
  "DOM_VOTE = ascii ''dlc-d/vote/v1''"

definition cmd_bytes :: "(cbor \<Rightarrow> bytes) \<Rightarrow> command \<Rightarrow> bytes" where
  "cmd_bytes cw c = (let v = canonical_bytes cw (payload c) in
     case cap c of
       Some p \<Rightarrow> (v @ [1]) @ encode_prop cw p
     | None \<Rightarrow> v @ [0])"

definition cap_msg :: "(cbor \<Rightarrow> bytes) \<Rightarrow> command \<Rightarrow> bytes" where
  "cap_msg cw c = DOM_CAP @ cmd_bytes cw c"

definition propose_msg :: "(cbor \<Rightarrow> bytes) \<Rightarrow> u32 \<Rightarrow> command \<Rightarrow> bytes" where
  "propose_msg cw slot c = DOM_PROPOSE @ to_le_bytes slot @ cmd_bytes cw c"

definition vote_msg :: "(cbor \<Rightarrow> bytes) \<Rightarrow> u32 \<Rightarrow> command \<Rightarrow> bytes" where
  "vote_msg cw slot c = DOM_VOTE @ to_le_bytes slot @ cmd_bytes cw c"

section \<open>Thresholds and rosters\<close>

datatype quorum = Crash | Byzantine

text \<open>\<open>usize\<close> counts of 32-byte keys in memory: the products do not overflow.\<close>

definition quorum_reached :: "quorum \<Rightarrow> nat \<Rightarrow> nat \<Rightarrow> bool" where
  "quorum_reached q a n = (case q of
     Crash \<Rightarrow> 2 * a > n
   | Byzantine \<Rightarrow> 3 * a > 2 * n)"

record roster =
  members :: "bytes list"
  rquorum :: quorum

text \<open>The two nested loops: no member equals a later one.\<close>

fun no_duplicates :: "bytes list \<Rightarrow> bool" where
  "no_duplicates [] = True"
| "no_duplicates (k # ks) = ((\<forall>j \<in> set ks. k \<noteq> j) \<and> no_duplicates ks)"

definition with_quorum :: "bytes list \<Rightarrow> quorum \<Rightarrow> roster option" where
  "with_quorum ms q = (if no_duplicates ms then Some \<lparr>members = ms, rquorum = q\<rparr> else None)"

definition roster_new :: "bytes list \<Rightarrow> roster option" where
  "roster_new ms = with_quorum ms Crash"

definition roster_new_byzantine :: "bytes list \<Rightarrow> roster option" where
  "roster_new_byzantine ms = with_quorum ms Byzantine"

definition roster_len :: "roster \<Rightarrow> nat" where
  "roster_len r = length (members r)"

definition roster_contains :: "roster \<Rightarrow> bytes \<Rightarrow> bool" where
  "roster_contains r k = list_ex (\<lambda>m. m = k) (members r)"

definition roster_member :: "roster \<Rightarrow> u32 \<Rightarrow> bytes option" where
  "roster_member r i = get_nth (members r) (unat i)"

definition index_of :: "roster \<Rightarrow> bytes \<Rightarrow> u32 option" where
  "index_of r k = map_option of_nat (position (\<lambda>m. m = k) (members r))"

definition roster_is_quorum :: "roster \<Rightarrow> nat \<Rightarrow> bool" where
  "roster_is_quorum r a = quorum_reached (rquorum r) a (roster_len r)"

section \<open>Credentials, proposals, votes, commits\<close>

record capability =
  issuer :: bytes
  cap_sig :: bytes

record proposal =
  leader :: bytes
  p_slot :: u32
  p_cmd :: command
  p_cap :: capability
  p_sig :: bytes

record vote =
  voter :: bytes
  v_slot :: u32
  v_sig :: bytes

record quorum_cert =
  qc_votes :: "vote list"

record commit_msg =
  c_slot :: u32
  c_cmd :: command
  c_qc :: quorum_cert

definition issue_capability :: "ed25519_lib \<Rightarrow> (cbor \<Rightarrow> bytes) \<Rightarrow> bytes \<Rightarrow> command \<Rightarrow> capability" where
  "issue_capability L cw seed cmd =
     \<lparr>issuer = ed25519_public_key L seed, cap_sig = ed25519_sign L seed (cap_msg cw cmd)\<rparr>"

definition verify_capability :: "ed25519_lib \<Rightarrow> (cbor \<Rightarrow> bytes) \<Rightarrow> capability \<Rightarrow> command \<Rightarrow> bool" where
  "verify_capability L cw c cmd = (ed25519_verify L (issuer c) (cap_msg cw cmd) (cap_sig c) = Inr ())"

definition propose ::
    "ed25519_lib \<Rightarrow> (cbor \<Rightarrow> bytes) \<Rightarrow> bytes \<Rightarrow> u32 \<Rightarrow> command \<Rightarrow> capability \<Rightarrow> proposal" where
  "propose L cw seed slot cmd c =
     \<lparr>leader = ed25519_public_key L seed, p_slot = slot, p_cmd = cmd, p_cap = c,
      p_sig = ed25519_sign L seed (propose_msg cw slot cmd)\<rparr>"

definition verify_proposal :: "ed25519_lib \<Rightarrow> (cbor \<Rightarrow> bytes) \<Rightarrow> proposal \<Rightarrow> roster \<Rightarrow> bool" where
  "verify_proposal L cw p r =
     (if \<not> roster_contains r (leader p) then False
      else if ed25519_verify L (leader p) (propose_msg cw (p_slot p) (p_cmd p)) (p_sig p) \<noteq> Inr ()
      then False
      else verify_capability L cw (p_cap p) (p_cmd p))"

definition cast_vote :: "ed25519_lib \<Rightarrow> (cbor \<Rightarrow> bytes) \<Rightarrow> bytes \<Rightarrow> u32 \<Rightarrow> command \<Rightarrow> vote" where
  "cast_vote L cw seed slot cmd =
     \<lparr>voter = ed25519_public_key L seed, v_slot = slot,
      v_sig = ed25519_sign L seed (vote_msg cw slot cmd)\<rparr>"

definition verify_vote ::
    "ed25519_lib \<Rightarrow> (cbor \<Rightarrow> bytes) \<Rightarrow> vote \<Rightarrow> u32 \<Rightarrow> command \<Rightarrow> roster \<Rightarrow> bool" where
  "verify_vote L cw v slot cmd r \<longleftrightarrow>
     v_slot v = slot \<and> roster_contains r (voter v) \<and>
     ed25519_verify L (voter v) (vote_msg cw slot cmd) (v_sig v) = Inr ()"

text \<open>The loop of \<open>verify_qc\<close>, with the signers collected so far.\<close>

fun verify_votes ::
    "ed25519_lib \<Rightarrow> (cbor \<Rightarrow> bytes) \<Rightarrow> u32 \<Rightarrow> command \<Rightarrow> roster \<Rightarrow> bytes list \<Rightarrow> vote list \<Rightarrow> bool" where
  "verify_votes L cw slot cmd r seen [] = roster_is_quorum r (length seen)"
| "verify_votes L cw slot cmd r seen (v # vs) =
     (if \<not> verify_vote L cw v slot cmd r then False
      else verify_votes L cw slot cmd r
        (if voter v \<notin> set seen then seen @ [voter v] else seen) vs)"

definition verify_qc ::
    "ed25519_lib \<Rightarrow> (cbor \<Rightarrow> bytes) \<Rightarrow> quorum_cert \<Rightarrow> u32 \<Rightarrow> command \<Rightarrow> roster \<Rightarrow> bool" where
  "verify_qc L cw qc slot cmd r = verify_votes L cw slot cmd r [] (qc_votes qc)"

definition verify_commit :: "ed25519_lib \<Rightarrow> (cbor \<Rightarrow> bytes) \<Rightarrow> commit_msg \<Rightarrow> roster \<Rightarrow> bool" where
  "verify_commit L cw c r = verify_qc L cw (c_qc c) (c_slot c) (c_cmd c) r"

section \<open>Rosters and thresholds\<close>

lemma no_duplicates_distinct: "no_duplicates ks \<longleftrightarrow> distinct ks"
  by (induction ks) auto

lemma with_quorum_Some [ok_elim]:
  "with_quorum ms q = Some r \<longleftrightarrow> distinct ms \<and> r = \<lparr>members = ms, rquorum = q\<rparr>"
  by (auto simp: with_quorum_def no_duplicates_distinct)

lemma roster_contains_iff [simp]: "roster_contains r k \<longleftrightarrow> k \<in> set (members r)"
  by (auto simp: roster_contains_def list_ex_iff)

lemma index_of_None: "index_of r k = None \<longleftrightarrow> k \<notin> set (members r)"
  by (auto simp: index_of_def position_None)

lemma index_of_Some:
  assumes "index_of r k = Some i" "roster_len r < 2 ^ 32"
  shows "unat i < roster_len r \<and> members r ! unat i = k"
proof -
  from assms(1) obtain j where j: "position (\<lambda>m. m = k) (members r) = Some j" "i = of_nat j"
    by (auto simp: index_of_def)
  from position_Some [OF j(1)] assms(2) have "j < 2 ^ 32" by (simp add: roster_len_def)
  then have "unat i = j" by (simp add: j(2) unat_of_nat take_bit_nat_eq_self)
  with position_Some [OF j(1)] show ?thesis by (simp add: roster_len_def)
qed

lemma quorum_reached_defs:
  "quorum_reached Crash a n = crash_reached a n"
  "quorum_reached Byzantine a n = byz_reached a n"
  by (simp_all add: quorum_reached_def crash_reached_def byz_reached_def)

text \<open>Either threshold is a majority.\<close>

lemma quorum_reached_crash: "quorum_reached q a n \<Longrightarrow> a \<le> n \<Longrightarrow> crash_reached a n"
  by (cases q) (auto simp: quorum_reached_def crash_reached_def)

section \<open>Certificates\<close>

lemma verify_votes_iff:
  "distinct seen \<Longrightarrow> verify_votes L cw slot cmd r seen vs \<longleftrightarrow>
     (\<forall>v \<in> set vs. verify_vote L cw v slot cmd r) \<and>
     roster_is_quorum r (card (set seen \<union> voter ` set vs))"
proof (induction vs arbitrary: seen)
  case Nil
  then show ?case by (simp add: distinct_card)
next
  case (Cons v vs)
  have "distinct (if voter v \<notin> set seen then seen @ [voter v] else seen)"
    using Cons.prems by simp
  from Cons.IH [OF this] show ?case
    by (auto simp: insert_absorb Un_insert_right)
qed

lemma verify_qc_char:
  "verify_qc L cw qc slot cmd r \<longleftrightarrow>
     (\<forall>v \<in> set (qc_votes qc). verify_vote L cw v slot cmd r) \<and>
     roster_is_quorum r (card (voter ` set (qc_votes qc)))"
  by (simp add: verify_qc_def verify_votes_iff)

lemma verify_qc_voters: "verify_qc L cw qc slot cmd r \<Longrightarrow> voter ` set (qc_votes qc) \<subseteq> set (members r)"
  by (auto simp: verify_qc_char verify_vote_def)

text \<open>The members that both of two certificates name.\<close>

definition double_signers :: "quorum_cert \<Rightarrow> quorum_cert \<Rightarrow> bytes set" where
  "double_signers qc1 qc2 = voter ` set (qc_votes qc1) \<inter> voter ` set (qc_votes qc2)"

lemma certificates_overlap:
  assumes "distinct (members r)" "verify_qc L cw qc1 slot1 cmd1 r" "verify_qc L cw qc2 slot2 cmd2 r"
  shows "double_signers qc1 qc2 \<noteq> {}"
    "rquorum r = Byzantine \<Longrightarrow> 3 * card (double_signers qc1 qc2) > roster_len r"
proof -
  note sub = verify_qc_voters [OF assms(2)] verify_qc_voters [OF assms(3)]
  have n: "card (set (members r)) = roster_len r"
    using assms(1) by (simp add: distinct_card roster_len_def)
  have q: "quorum_reached (rquorum r) (card (voter ` set (qc_votes qc1))) (card (set (members r)))"
    "quorum_reached (rquorum r) (card (voter ` set (qc_votes qc2))) (card (set (members r)))"
    using assms(2,3) by (simp_all add: verify_qc_char roster_is_quorum_def n)
  have le: "card (voter ` set (qc_votes qc1)) \<le> card (set (members r))"
    "card (voter ` set (qc_votes qc2)) \<le> card (set (members r))"
    using sub by (simp_all add: card_mono)
  from crash.quorums_meet [OF _ sub quorum_reached_crash [OF q(1) le(1)] quorum_reached_crash [OF q(2) le(2)]]
  show "double_signers qc1 qc2 \<noteq> {}" by (auto simp: double_signers_def)
  assume "rquorum r = Byzantine"
  with q have "byz_reached (card (voter ` set (qc_votes qc1))) (card (set (members r)))"
    "byz_reached (card (voter ` set (qc_votes qc2))) (card (set (members r)))"
    by (simp_all add: quorum_reached_defs)
  from byz.quorums_overlap [OF _ sub this]
  show "3 * card (double_signers qc1 qc2) > roster_len r"
    by (simp add: over_third_def double_signers_def n)
qed

section \<open>What the signed bytes bind\<close>

lemma to_le_bytes_inj: "to_le_bytes a = to_le_bytes b \<longleftrightarrow> a = b"
proof
  assume eq: "to_le_bytes a = to_le_bytes b"
  show "a = b"
  proof (rule bit_word_eqI)
    fix n assume n: "n < LENGTH(32)"
    have b: "bit x (8 * k + j) \<longleftrightarrow> bit (ucast (drop_bit (8 * k) x) :: u8) j" if "j < 8" for k j and x :: u32
      using that by (simp add: bit_ucast_iff bit_drop_bit_eq)
    from n have "n div 8 < 4" "n mod 8 < 8" by simp_all
    moreover have "n = 8 * (n div 8) + n mod 8" by simp
    moreover have "(ucast (drop_bit (8 * k) a) :: u8) = ucast (drop_bit (8 * k) b)" if "k < 4" for k
    proof -
      from that consider "k = 0" | "k = 1" | "k = 2" | "k = 3" by linarith
      then show ?thesis using eq by cases (simp_all add: to_le_bytes_def)
    qed
    ultimately show "bit a n = bit b n" by (metis b)
  qed
qed simp

lemma length_to_le_bytes [simp]: "length (to_le_bytes n) = 4"
  by (simp add: to_le_bytes_def)

definition wf_command :: "command \<Rightarrow> bool" where
  "wf_command c \<longleftrightarrow> wf_trm (payload c) \<and> (case cap c of Some p \<Rightarrow> wf_prop p | None \<Rightarrow> True)"

definition shallow :: "nat \<Rightarrow> command \<Rightarrow> bool" where
  "shallow limit c \<longleftrightarrow> cdepth (enc_term (payload c)) \<le> limit \<and>
     (case cap c of Some p \<Rightarrow> cdepth (enc_prop p) \<le> limit | None \<Rightarrow> True)"

lemma cmd_bytes_inj:
  assumes "cbor_stream cw cr limit" "wf_command c" "wf_command d" "shallow limit c" "shallow limit d"
    "cmd_bytes cw c = cmd_bytes cw d"
  shows "c = d"
proof -
  define tl where "tl c = (case cap c of Some p \<Rightarrow> 1 # encode_prop cw p | None \<Rightarrow> [0])" for c :: command
  have "cmd_bytes cw c = cw (enc_term (payload c)) @ tl c" for c
    by (simp add: cmd_bytes_def tl_def canonical_bytes_def encode_def Let_def split: option.split)
  with cbor_stream_prefix [OF assms(1), of "enc_term (payload c)" "enc_term (payload d)" "tl c" "tl d"]
    assms(4-6) have eq: "enc_term (payload c) = enc_term (payload d)" "tl c = tl d"
    by (simp_all add: shallow_def)
  from term_codec.enc_inj [OF _ _ eq(1)] assms(2,3) have "payload c = payload d"
    by (simp add: wf_command_def)
  moreover have "cap c = cap d"
  proof (cases "cap c")
    case None
    with eq(2) show ?thesis by (simp add: tl_def split: option.splits)
  next
    case (Some p)
    with eq(2) obtain q where q: "cap d = Some q" "cw (enc_prop p) = cw (enc_prop q)"
      by (auto simp: tl_def encode_prop_def split: option.splits)
    with cbor_stream_prefix [OF assms(1), of "enc_prop p" "enc_prop q" "[]" "[]"] assms(4,5) Some
    have "enc_prop p = enc_prop q" by (simp add: shallow_def)
    with prop_codec.enc_inj [OF _ _ this] assms(2,3) Some q(1) show ?thesis
      by (simp add: wf_command_def)
  qed
  ultimately show ?thesis by simp
qed

lemma domains:
  "DOM_CAP = [100, 108, 99, 45, 100, 47, 99, 97, 112, 47, 118, 49]"
  "DOM_PROPOSE = [100, 108, 99, 45, 100, 47, 112, 114, 111, 112, 111, 115, 101, 47, 118, 49]"
  "DOM_VOTE = [100, 108, 99, 45, 100, 47, 118, 111, 116, 101, 47, 118, 49]"
  by (simp_all add: DOM_CAP_def DOM_PROPOSE_def DOM_VOTE_def ascii_def of_char_def)

section \<open>Double votes\<close>

text \<open>
  The keys that are caught by votes in two hands: some vote of \<open>V\<close> and some vote of \<open>W\<close> carry the
  same key, and verify for one slot and the commands \<open>c\<close> and \<open>d\<close>.
\<close>

definition double_voters ::
    "ed25519_lib \<Rightarrow> (cbor \<Rightarrow> bytes) \<Rightarrow> roster \<Rightarrow> u32 \<Rightarrow> vote set \<Rightarrow> command \<Rightarrow> vote set \<Rightarrow> command \<Rightarrow> bytes set" where
  "double_voters L cw r slot V c W d = {k. \<exists>v \<in> V. \<exists>w \<in> W. voter v = k \<and> voter w = k \<and>
     verify_vote L cw v slot c r \<and> verify_vote L cw w slot d r}"

lemma double_voters_mono:
  "V \<subseteq> V' \<Longrightarrow> W \<subseteq> W' \<Longrightarrow> double_voters L cw r slot V c W d \<subseteq> double_voters L cw r slot V' c W' d"
  unfolding double_voters_def by blast

lemma double_voters_members: "double_voters L cw r slot V c W d \<subseteq> set (members r)"
  by (auto simp: double_voters_def verify_vote_def)

lemma double_votersE:
  assumes "k \<in> double_voters L cw r slot V c W d"
  obtains v w where "v \<in> V" "w \<in> W" "voter v = k" "voter w = k" "v_slot v = slot" "v_slot w = slot"
    "ed25519_verify L k (vote_msg cw slot c) (v_sig v) = Inr ()"
    "ed25519_verify L k (vote_msg cw slot d) (v_sig w) = Inr ()"
  using assms by (auto simp: double_voters_def verify_vote_def)

lemma double_signers_vote:
  assumes "verify_qc L cw qc1 slot c r" "verify_qc L cw qc2 slot d r"
  shows "double_signers qc1 qc2 \<subseteq> double_voters L cw r slot (set (qc_votes qc1)) c (set (qc_votes qc2)) d"
  using assms by (auto simp: double_signers_def double_voters_def verify_qc_char)

lemma certificates_conflict:
  assumes "with_quorum ms q = Some r" "verify_qc L cw qc1 slot c r" "verify_qc L cw qc2 slot d r"
    "set (qc_votes qc1) \<subseteq> V" "set (qc_votes qc2) \<subseteq> W"
  shows "double_voters L cw r slot V c W d \<noteq> {} \<and> double_voters L cw r slot V c W d \<subseteq> set ms \<and>
    (q = Byzantine \<longrightarrow> 3 * card (double_voters L cw r slot V c W d) > length ms)"
proof -
  from assms(1) have r: "distinct (members r)" "members r = ms" "rquorum r = q" by (auto simp: ok_elim)
  have sub: "double_signers qc1 qc2 \<subseteq> double_voters L cw r slot V c W d"
    using double_signers_vote [OF assms(2,3)] double_voters_mono [OF assms(4,5)] by blast
  moreover have "finite (double_voters L cw r slot V c W d)"
    using double_voters_members by (rule finite_subset) simp
  ultimately have "card (double_signers qc1 qc2) \<le> card (double_voters L cw r slot V c W d)"
    by (simp add: card_mono)
  with certificates_overlap [OF r(1) assms(2,3)] sub double_voters_members [of L cw r slot V c W d] r
  show ?thesis by (auto simp: roster_len_def)
qed

section \<open>Properties\<close>

text \<open>C29: what is signed is what is meant: votes, proposals and capabilities have different bytes,
  and the bytes of each determine its slot and its command, capability slot included.\<close>

theorem signed_bytes_bind:
  assumes "cbor_stream cw cr limit" "wf_command c" "wf_command d" "shallow limit c" "shallow limit d"
  shows "(vote_msg cw s c = vote_msg cw s' d \<longleftrightarrow> s = s' \<and> c = d) \<and>
    (propose_msg cw s c = propose_msg cw s' d \<longleftrightarrow> s = s' \<and> c = d) \<and>
    (cap_msg cw c = cap_msg cw d \<longleftrightarrow> c = d) \<and>
    vote_msg cw s c \<noteq> propose_msg cw s' d \<and> vote_msg cw s c \<noteq> cap_msg cw d \<and>
    propose_msg cw s c \<noteq> cap_msg cw d"
  using cmd_bytes_inj [OF assms]
  by (auto simp: vote_msg_def propose_msg_def cap_msg_def to_le_bytes_inj domains)

theorem signed_bytes_bind_witness:
  "vote_msg put 1 \<lparr>payload = Var 0, cap = None\<rparr> \<noteq> vote_msg put 2 \<lparr>payload = Var 0, cap = None\<rparr>"
  using signed_bytes_bind [OF toy_stream [of 256], of "\<lparr>payload = Var 0, cap = None\<rparr>"
      "\<lparr>payload = Var 0, cap = None\<rparr>" 1 2]
  by (simp add: wf_command_def shallow_def u32_int_def)

text \<open>C24: a certificate is valid exactly when each of its votes is valid for the slot and command
  and the distinct voters reach the roster's threshold: repeated votes count once.\<close>

theorem verify_qc_iff:
  "verify_qc L cw qc slot cmd r \<longleftrightarrow>
     (\<forall>v. v \<in> set (qc_votes qc) \<longrightarrow> v_slot v = slot \<and> voter v \<in> set (members r) \<and>
        ed25519_verify L (voter v) (vote_msg cw slot cmd) (v_sig v) = Inr ()) \<and>
     (let signers = card (voter ` set (qc_votes qc)); n = length (members r) in
        case rquorum r of Crash \<Rightarrow> 2 * signers > n | Byzantine \<Rightarrow> 3 * signers > 2 * n)"
  by (auto simp: verify_qc_char verify_vote_def roster_is_quorum_def quorum_reached_def roster_len_def
      split: quorum.splits)

text \<open>C20: accountability.  When two certificates verify for one slot, the votes inside them convict
  a member: its key signed a vote of the one for the first command and a vote of the other for
  the second.  On a Byzantine roster more than a third of the members are convicted so.\<close>

theorem conflicting_certificates:
  assumes "with_quorum ms q = Some r" "verify_qc L cw qc1 slot cmd1 r" "verify_qc L cw qc2 slot cmd2 r"
  shows "\<exists>D. D \<subseteq> set ms \<and> D \<noteq> {} \<and> (q = Byzantine \<longrightarrow> 3 * card D > length ms) \<and>
    (\<forall>k \<in> D. \<exists>v \<in> set (qc_votes qc1). \<exists>w \<in> set (qc_votes qc2). voter v = k \<and> voter w = k \<and>
       ed25519_verify L k (vote_msg cw slot cmd1) (v_sig v) = Inr () \<and>
       ed25519_verify L k (vote_msg cw slot cmd2) (v_sig w) = Inr ())"
proof -
  let ?D = "double_voters L cw r slot (set (qc_votes qc1)) cmd1 (set (qc_votes qc2)) cmd2"
  have "\<exists>v \<in> set (qc_votes qc1). \<exists>w \<in> set (qc_votes qc2). voter v = k \<and> voter w = k \<and>
      ed25519_verify L k (vote_msg cw slot cmd1) (v_sig v) = Inr () \<and>
      ed25519_verify L k (vote_msg cw slot cmd2) (v_sig w) = Inr ()" if "k \<in> ?D" for k
    using double_votersE [OF that] by metis
  with certificates_conflict [OF assms subset_refl subset_refl] show ?thesis by blast
qed

text \<open>A committee of two keys under the toy scheme, and the certificate of both votes.\<close>

definition demo_keys :: "bytes list" where
  "demo_keys = [replicate 32 1, replicate 32 2]"

definition demo_roster :: "quorum \<Rightarrow> roster" where
  "demo_roster q = \<lparr>members = demo_keys, rquorum = q\<rparr>"

definition demo_cmd :: command where
  "demo_cmd = \<lparr>payload = Var 0, cap = None\<rparr>"

definition demo_qc :: "u32 \<Rightarrow> command \<Rightarrow> quorum_cert" where
  "demo_qc slot cmd = \<lparr>qc_votes = map (\<lambda>seed. cast_vote toy_ed25519 put seed slot cmd) demo_keys\<rparr>"

lemma toy_public_key [simp]: "ed25519_public_key toy_ed25519 seed = seed"
  by (simp add: ed25519_public_key_def toy_ed25519_def)

lemma toy_sign_verify [simp]:
  "length seed = 32 \<Longrightarrow> ed25519_verify toy_ed25519 seed msg (ed25519_sign toy_ed25519 seed msg) = Inr ()"
  using ed25519_sign_verify [OF toy_ed25519_ok, of seed msg] by simp

lemma demo_distinct: "distinct demo_keys"
  by (simp add: demo_keys_def)

lemma demo_qc_ok: "verify_qc toy_ed25519 put (demo_qc slot cmd) slot cmd (demo_roster q)"
  by (cases q) (simp_all add: verify_qc_def demo_qc_def demo_keys_def cast_vote_def verify_vote_def
      demo_roster_def roster_is_quorum_def quorum_reached_def roster_len_def)

theorem verify_qc_iff_witness:
  "verify_qc toy_ed25519 put (demo_qc 0 demo_cmd) 0 demo_cmd (demo_roster Byzantine)"
  unfolding verify_qc_iff
  by (auto simp: demo_qc_def demo_keys_def cast_vote_def demo_roster_def)

theorem conflicting_certificates_witness:
  "\<exists>k \<in> set demo_keys. \<exists>v \<in> set (qc_votes (demo_qc 0 demo_cmd)).
     \<exists>w \<in> set (qc_votes (demo_qc 0 \<lparr>payload = Var 1, cap = None\<rparr>)). voter v = k \<and> voter w = k \<and>
       ed25519_verify toy_ed25519 k (vote_msg put 0 demo_cmd) (v_sig v) = Inr () \<and>
       ed25519_verify toy_ed25519 k (vote_msg put 0 \<lparr>payload = Var 1, cap = None\<rparr>) (v_sig w) = Inr ()"
proof -
  have "with_quorum demo_keys Byzantine = Some (demo_roster Byzantine)"
    by (simp add: with_quorum_Some demo_roster_def demo_distinct)
  from conflicting_certificates [OF this demo_qc_ok demo_qc_ok, of 0 demo_cmd "\<lparr>payload = Var 1, cap = None\<rparr>"]
  obtain D where D: "D \<subseteq> set demo_keys" "D \<noteq> {}"
    "\<forall>k \<in> D. \<exists>v \<in> set (qc_votes (demo_qc 0 demo_cmd)).
       \<exists>w \<in> set (qc_votes (demo_qc 0 \<lparr>payload = Var 1, cap = None\<rparr>)). voter v = k \<and> voter w = k \<and>
       ed25519_verify toy_ed25519 k (vote_msg put 0 demo_cmd) (v_sig v) = Inr () \<and>
       ed25519_verify toy_ed25519 k (vote_msg put 0 \<lparr>payload = Var 1, cap = None\<rparr>) (v_sig w) = Inr ()" by blast
  from D(2) obtain k where "k \<in> D" by blast
  with D(1,3) show ?thesis by blast
qed

end
