(* ===== verification/Admission.thy ===== *)
theory Admission
  imports Proto
begin

text \<open>
  Tool admission (\<open>crates/dlc-d/src\<close>: \<open>runtime.rs\<close>, \<open>admission.rs\<close>, \<open>lib.rs\<close>) and the governed
  ledger built on it (\<open>crates/dlc-d-ledger/src/lib.rs\<close>): capability atoms, credentials for a
  tool, the demanded-against-granted problem that the checker decides, and the
  ledger's commands.  A \<open>&str\<close> is its UTF-8 bytes.
\<close>

unbundle bit_operations_syntax

section \<open>Capability atoms\<close>

text \<open>The 32-bit FNV-1a loop of both \<open>cap_atom\<close> and \<open>issuer_principal\<close>.\<close>

definition cap_atom :: "bytes \<Rightarrow> u32" where
  "cap_atom tool = foldl (\<lambda>h b. (h XOR ucast b) * 0x01000193) 0x811c9dc5 tool"

definition cap_message :: "u32 \<Rightarrow> bytes" where
  "cap_message atom = ascii ''dlc-d/cap-invoke:'' @ to_le_bytes atom"

section \<open>The runtime check\<close>

datatype admit_error = Unauthorized

definition admit ::
    "ed25519_lib \<Rightarrow> key_ring \<Rightarrow> principal \<Rightarrow> bytes \<Rightarrow> signature \<Rightarrow> admit_error + unit" where
  "admit L keyring p tool sig =
     (case verify_in_keyring L keyring p (cap_message (cap_atom tool)) sig of
        Inr u \<Rightarrow> Inr u
      | Inl e \<Rightarrow> Inl Unauthorized)"

datatype decision = Admit | Deny string

primrec is_admit :: "decision \<Rightarrow> bool" where
  "is_admit Admit \<longleftrightarrow> True"
| "is_admit (Deny reason) \<longleftrightarrow> False"

definition decide ::
    "ed25519_lib \<Rightarrow> key_ring \<Rightarrow> principal \<Rightarrow> bytes \<Rightarrow> signature \<Rightarrow> decision" where
  "decide L keyring p tool sig = (case admit L keyring p tool sig of
     Inr u \<Rightarrow> Admit
   | Inl Unauthorized \<Rightarrow>
       Deny ''unauthorized: no valid issuer-signed capability for this tool'')"

section \<open>Demanded against granted\<close>

text \<open>The identifier's eight chunks of four bytes, each mixed from the hash of the name.\<close>

definition issuer_principal :: "bytes \<Rightarrow> principal" where
  "issuer_principal iss =
     (let h = foldl (\<lambda>h b. (h XOR ucast b) * 0x01000193) 0x811c9dc5 iss in
      Atom_p (PrincipalId (concat
        (map (\<lambda>i. to_le_bytes ((h XOR of_nat i) * 0x01000193)) [0..<8]))))"

definition cap_problem :: "bytes list \<Rightarrow> bytes \<Rightarrow> bytes \<Rightarrow> typing_problem" where
  "cap_problem granted iss tool =
     (let demanded = Says (issuer_principal iss) (Atom (cap_atom tool));
          presented = (if tool \<in> set granted then Some tool else get_nth granted 0);
          ctx = (case presented of
            Some g \<Rightarrow> cons_a ctx_empty (Says (issuer_principal iss) (Atom (cap_atom g)))
          | None \<Rightarrow> ctx_empty)
      in \<lparr>tp_ctx = ctx, tp_term = Var 0, tp_prop = demanded\<rparr>)"

definition demanded_atom :: "typing_problem \<Rightarrow> u32 option" where
  "demanded_atom problem = (case tp_prop problem of
     Says p inner \<Rightarrow> (case inner of Atom a \<Rightarrow> Some a | _ \<Rightarrow> None)
   | _ \<Rightarrow> None)"

section \<open>The governed ledger\<close>

definition Credit_NAME :: bytes where
  "Credit_NAME = ascii ''ledger-credit''"

definition Seize_NAME :: bytes where
  "Seize_NAME = ascii ''ledger-seize''"

definition credit_payload :: "u32 \<Rightarrow> trm" where
  "credit_payload amount =
     Lam (Atom 0) (((\<lambda>body. Pair_t body (Var 0)) ^^ unat (min amount 3)) (Var 0))"

definition credit :: "u32 \<Rightarrow> command" where
  "credit amount = \<lparr>payload = credit_payload amount, cap = Some (Atom (cap_atom Credit_NAME))\<rparr>"

definition credit_payload_command :: "u32 \<Rightarrow> command" where
  "credit_payload_command amount =
     \<lparr>payload = credit_payload amount, cap = Some (Atom (cap_atom Credit_NAME))\<rparr>"

definition teller_credit :: "u32 \<Rightarrow> command" where
  "teller_credit amount = credit_payload_command amount"

definition ledger_init :: trm where
  "ledger_init = Lam (Atom 0) (Var 0)"

definition ledger_budget :: failure_budget where
  "ledger_budget = fb_zero 1"

definition treasury_credential ::
    "ed25519_lib \<Rightarrow> bytes \<Rightarrow> key_ring \<times> principal \<times> signature" where
  "treasury_credential L tool =
     (let seed = replicate 32 0x7a;
          pk = ed25519_public_key L seed;
          msg = ascii ''dlc-d/cap-invoke:'' @ to_le_bytes (cap_atom tool);
          sig = \<lparr>sig_alg = 0, sig_bytes = ed25519_sign L seed msg\<rparr>;
          keyring = \<lparr>entries = [\<lparr>kr_principal = PrincipalId pk, kr_alg = 0, public_key = pk\<rparr>]\<rparr>
      in (keyring, Atom_p (PrincipalId pk), sig))"

definition admit_credit ::
    "ed25519_lib \<Rightarrow> key_ring \<Rightarrow> principal \<Rightarrow> signature \<Rightarrow> admit_error + unit" where
  "admit_credit L keyring p sig = admit L keyring p Credit_NAME sig"

section \<open>Lemmas\<close>

lemma admit_ok:
  "admit L k p tool sg = Inr () \<longleftrightarrow> verify_in_keyring L k p (cap_message (cap_atom tool)) sg = Inr ()"
  by (simp add: admit_def split: sum.splits)

lemma cap_message_inj: "cap_message a = cap_message b \<longleftrightarrow> a = b"
  by (simp add: cap_message_def to_le_bytes_inj)

lemma unit_cancel:
  assumes "p * q = 1" "x * p = y * p"
  shows "x = (y :: u32)"
proof -
  have "x * p * q = y * p * q" by (simp only: assms(2))
  then show ?thesis by (simp only: mult.assoc assms(1) mult_1_right)
qed

lemma fnv_prime_cancel: "x * 0x01000193 = y * (0x01000193 :: u32) \<longleftrightarrow> x = y"
proof
  assume eq: "x * 0x01000193 = y * (0x01000193 :: u32)"
  have "(0x01000193 :: u32) * 0x359c449b = 1" by simp
  from unit_cancel [OF this eq] show "x = y" .
qed simp

lemma issuer_principal_eq:
  "issuer_principal a = issuer_principal b \<longleftrightarrow> cap_atom a = cap_atom b"
proof
  assume "issuer_principal a = issuer_principal b"
  then have "concat (map (\<lambda>i. to_le_bytes ((cap_atom a XOR of_nat i) * 0x01000193)) [0..<8]) =
      concat (map (\<lambda>i. to_le_bytes ((cap_atom b XOR of_nat i) * 0x01000193)) [0..<8])"
    by (simp add: issuer_principal_def Let_def cap_atom_def)
  then have "to_le_bytes (cap_atom a * 0x01000193) = to_le_bytes (cap_atom b * 0x01000193)"
    by (simp add: upt_conv_Cons)
  then show "cap_atom a = cap_atom b" by (simp add: to_le_bytes_inj fnv_prime_cancel)
qed (simp add: issuer_principal_def cap_atom_def)

lemma infer_cap:
  "infer_var (cons_a ctx_empty \<phi>) 0 = Some \<phi>" "infer_var ctx_empty 0 = None"
  by (simp_all add: infer_var_def ctx_empty_def get_nth_def)

text \<open>Two names with one atom.\<close>

lemma cap_atom_collision: "cap_atom (ascii ''costarring'') = cap_atom (ascii ''liquid'')"
  by (simp add: cap_atom_def ascii_def of_char_def)

lemma collision_names: "ascii ''costarring'' \<noteq> ascii ''liquid''"
  by (simp add: ascii_def)

lemma tool_atoms_differ: "cap_atom Credit_NAME \<noteq> cap_atom Seize_NAME"
  by (simp add: cap_atom_def Credit_NAME_def Seize_NAME_def ascii_def of_char_def)

lemma shift_0: "shift t 0 c = t"
  by (induction t arbitrary: c) simp_all

lemma subst_pairs:
  "subst (((\<lambda>body. Pair_t body (Var 0)) ^^ n) (Var 0)) s = ((\<lambda>body. Pair_t body s) ^^ n) s"
  by (induction n) (simp_all add: subst_def shift_0)

lemma reduce_loop_once:
  "step t = Some u \<Longrightarrow> step u = None \<Longrightarrow> reduce_loop (Suc (Suc k)) n fuel t = (u, n + 1)"
  by simp

lemma credit_applied:
  assumes "step s = None"
  shows "apply_command (credit n) s = ((\<lambda>body. Pair_t body s) ^^ unat (min n 3)) s"
proof -
  let ?t = "((\<lambda>body. Pair_t body s) ^^ unat (min n 3)) s"
  have "step ?t = None" using assms by (cases "unat (min n 3)") simp_all
  moreover have "step (App (credit_payload n) s) = Some ?t"
    by (simp add: credit_payload_def subst_pairs)
  moreover have "unat (1024 :: u32) = Suc (Suc 1022)" by simp
  ultimately show ?thesis
    unfolding apply_command_def reduce_with_fuel_def apply_fuel_def credit_def
    by (simp only: reduce_loop_once command.select_convs fst_conv)
qed

lemma credits_applied:
  "apply_prefix ledger_init (map credit ns) =
     foldl (\<lambda>s n. ((\<lambda>body. Pair_t body s) ^^ unat (min n 3)) s) ledger_init ns \<and>
   step (apply_prefix ledger_init (map credit ns)) = None"
proof (induction ns rule: rev_induct)
  case Nil
  show ?case by (simp add: ledger_init_def)
next
  case (snoc n ns)
  let ?s = "apply_prefix ledger_init (map credit ns)"
  from snoc have s: "step ?s = None" by (rule conjunct2)
  have "step (((\<lambda>body. Pair_t body ?s) ^^ unat (min n 3)) ?s) = None"
    using s by (cases "unat (min n 3)") simp_all
  with snoc credit_applied [OF s, of n] show ?case by simp
qed

section \<open>Properties\<close>

text \<open>C34: a tool invocation is admitted exactly when the first keyring row of an atomic issuer
  carries an Ed25519 key under which the credential is a signature on the message of the
  tool's atom, and that message determines the atom.\<close>

theorem admission_exact:
  "(is_admit (decide L k p tool sg) \<longleftrightarrow>
      (\<exists>pid r. p = Atom_p pid \<and> find (\<lambda>r. kr_principal r = pid) (entries k) = Some r \<and>
         sig_alg sg = ALG_ED25519 \<and> kr_alg r = ALG_ED25519 \<and>
         ed25519_verify L (public_key r) (cap_message (cap_atom tool)) (sig_bytes sg) = Inr ())) \<and>
   (cap_message (cap_atom tool) = cap_message (cap_atom other) \<longleftrightarrow> cap_atom tool = cap_atom other)"
proof -
  have "is_admit (decide L k p tool sg) \<longleftrightarrow> admit L k p tool sg = Inr ()"
    by (simp add: decide_def split: sum.splits admit_error.splits)
  then show ?thesis by (simp add: admit_ok verify_in_keyring_ok cap_message_inj)
qed

text \<open>The checker accepts the problem posed for a demanded tool exactly when the issuer granted
  the tool, or its first grant has the same atom; and the problem demands the atom that
  the credential must be signed over.\<close>

theorem cap_problem_decides:
  "(decide_pure (cap_problem granted iss tool) \<longleftrightarrow>
      tool \<in> set granted \<or> (\<exists>g gs. granted = g # gs \<and> cap_atom g = cap_atom tool)) \<and>
   demanded_atom (cap_problem granted iss tool) = Some (cap_atom tool)"
proof (cases granted)
  case Nil
  then show ?thesis by (simp add: cap_problem_def decide_pure_def infer_cap demanded_atom_def)
next
  case (Cons g gs)
  then show ?thesis
    by (cases "tool \<in> set granted") (auto simp: cap_problem_def decide_pure_def infer_cap demanded_atom_def Let_def)
qed

text \<open>Atoms are 32-bit hashes, and they collide: a credential for the tool \<open>costarring\<close> is a
  credential for \<open>liquid\<close>, a grant of the one discharges a demand for the other, and the
  two names are one issuer.\<close>

theorem distinct_tools_share_credentials:
  "ascii ''costarring'' \<noteq> ascii ''liquid'' \<and>
   admit L k p (ascii ''costarring'') sg = admit L k p (ascii ''liquid'') sg \<and>
   decide_pure (cap_problem [ascii ''costarring''] iss (ascii ''liquid'')) \<and>
   issuer_principal (ascii ''costarring'') = issuer_principal (ascii ''liquid'')"
  using collision_names cap_atom_collision
  by (simp add: admit_def issuer_principal_eq cap_problem_def decide_pure_def infer_cap Let_def)

lemma treasury_admitted:
  assumes "ed25519_ok L"
  shows "case treasury_credential L tool of (keyring, p, sig) \<Rightarrow> admit L keyring p tool sig = Inr ()"
  using ed25519_sign_verify [OF assms, of "replicate 32 0x7a"]
  by (simp add: admit_ok verify_in_keyring_def treasury_credential_def Let_def ALG_ED25519_def cap_message_def)

text \<open>What the Treasury signs for a tool is admitted for that tool, whatever the key.\<close>

theorem treasury_credential_admitted:
  assumes "ed25519_ok L"
  shows "case treasury_credential L tool of (keyring, p, sig) \<Rightarrow>
    admit L keyring p tool sig = Inr () \<and> decide L keyring p tool sig = Admit"
  using treasury_admitted [OF assms, of tool] by (auto simp: decide_def)

theorem treasury_credential_admitted_witness:
  "case treasury_credential toy_ed25519 Credit_NAME of (keyring, p, sig) \<Rightarrow>
    admit toy_ed25519 keyring p Credit_NAME sig = Inr () \<and>
    decide toy_ed25519 keyring p Credit_NAME sig = Admit"
  by (rule treasury_credential_admitted [OF toy_ed25519_ok])

text \<open>The ledger's store after any credits: each command pairs the store with itself as many
  times as its amount says, but never more than three.\<close>

theorem ledger_credits:
  "apply_prefix ledger_init (map credit ns) =
     foldl (\<lambda>s n. ((\<lambda>body. Pair_t body s) ^^ unat (min n 3)) s) ledger_init ns \<and>
   credit 3 = credit 4"
  using credits_applied [of ns] by (simp add: credit_def credit_payload_def)

end
