(* ===== verification/View.thy ===== *)
theory View
  imports Rsm
begin

text \<open>
  What a node of either protocol does with its model view (\<open>crates/dlc-d-node/src\<close>): the next
  slot, and the commit-and-drain loop through \<open>rsm::commit\<close> and \<open>rsm::world_step\<close>.
\<close>

section \<open>Destinations\<close>

datatype dest = Peers | To u32

section \<open>Commit and drain\<close>

definition next_slot :: "global_config \<Rightarrow> u32" where
  "next_slot view = of_nat (length (log view))"

text \<open>
  \<open>while (self.applied() as usize) < self.view.log.len()\<close>.  The loop need not end,
  and \<open>replicas[0]\<close> panics without a replica: both are \<open>None\<close>.
\<close>

partial_function (option) drain :: "global_config \<Rightarrow> global_config option" where
  "drain view = (case replicas view of
     [] \<Rightarrow> None
   | r # rs \<Rightarrow>
       if unat (applied r) < length (log view) then drain (world_step view) else Some view)"

definition apply_commit_view :: "global_config \<Rightarrow> command \<Rightarrow> global_config option" where
  "apply_commit_view view cmd = drain (commit view cmd)"

section \<open>The loop ends\<close>

text \<open>The view of a node: itself alone, caught up with its log.\<close>

definition view_ok :: "trm \<Rightarrow> u32 \<Rightarrow> global_config \<Rightarrow> bool" where
  "view_ok init me view \<longleftrightarrow> length (log view) < 2 ^ 32 \<and>
     (\<exists>r. replicas view = [r] \<and> rid r = me \<and> unat (applied r) = length (log view) \<and>
       store r = apply_prefix init (log view))"

lemma drain_returns:
  assumes "replicas view = [r]" "consistent init (log view) r" "length (log view) < 2 ^ 32"
  shows "\<exists>w. drain view = Some w \<and> view_ok init (rid r) w \<and> log w = log view \<and>
    budget w = budget view"
  using assms(1,2,3)
proof (induction "length (log view) - unat (applied r)" arbitrary: view r rule: less_induct)
  case less
  note step = drain.simps [of view]
  show ?case
  proof (cases "unat (applied r) < length (log view)")
    case True
    let ?r = "deliver (log view) r"
    have app: "unat (applied ?r) = Suc (unat (applied r))"
      using deliver_applied [OF less.prems(3), of r] True by simp
    have "\<exists>w. drain (world_step view) = Some w \<and> view_ok init (rid ?r) w \<and>
        log w = log (world_step view) \<and> budget w = budget (world_step view)"
      by (rule less.hyps)
        (use less.prems True app in \<open>simp_all add: deliver_consistent\<close>)
    with step True less.prems(1) show ?thesis by simp
  next
    case False
    with less.prems have "view_ok init (rid r) view"
      by (auto simp: view_ok_def consistent_def)
    with step False less.prems(1) show ?thesis by simp
  qed
qed

lemma apply_commit_view_ok:
  assumes "view_ok init me view" "length (log view) + 1 < 2 ^ 32"
  shows "\<exists>w. apply_commit_view view cmd = Some w \<and> view_ok init me w \<and>
    log w = log view @ [cmd] \<and> budget w = budget view"
proof -
  from assms(1) obtain r where r: "replicas view = [r]" "rid r = me"
    "unat (applied r) = length (log view)" "store r = apply_prefix init (log view)"
    by (auto simp: view_ok_def)
  then have "consistent init (log (commit view cmd)) r"
    by (simp add: consistent_def)
  with drain_returns [of "commit view cmd" r init] r assms(2) show ?thesis
    by (simp add: apply_commit_view_def)
qed

lemma next_slot_eq:
  "length (log v) < 2 ^ 32 \<Longrightarrow> unat (next_slot v) = length (log v)"
  by (simp add: next_slot_def unat_of_nat take_bit_nat_eq_self)

section \<open>Properties\<close>

text \<open>The drain loop ends: from a view that counts no more than its log, it returns the view
  in which the replica has applied the whole log and its store is the fold of it.\<close>

theorem drain_terminates:
  assumes "replicas view = [r]" "consistent init (log view) r" "length (log view) < 2 ^ 32"
  shows "\<exists>w s. drain view = Some w \<and> replicas w = [s] \<and> log w = log view \<and>
    unat (applied s) = length (log view) \<and> store s = apply_prefix init (log view)"
  using drain_returns [OF assms] by (auto simp: view_ok_def)

theorem drain_terminates_witness:
  "\<exists>w s. drain \<lparr>replicas = [\<lparr>rid = 0, store = Var 0, applied = 0\<rparr>],
       log = [\<lparr>payload = Lam Top (Now \<lparr>epoch_ms = 3\<rparr>), cap = None\<rparr>], budget = fb_zero 0\<rparr> = Some w \<and>
     replicas w = [s] \<and> unat (applied s) = 1"
  using drain_terminates [of "\<lparr>replicas = [\<lparr>rid = 0, store = Var 0, applied = 0\<rparr>],
       log = [\<lparr>payload = Lam Top (Now \<lparr>epoch_ms = 3\<rparr>), cap = None\<rparr>], budget = fb_zero 0\<rparr>"
      "\<lparr>rid = 0, store = Var 0, applied = 0\<rparr>" "Var 0"]
  by (auto simp: consistent_def)

end
