(* ===== verification/Auth.thy ===== *)
theory Auth
  imports Proto View
begin

text \<open>
  The authenticated replica (\<open>crates/dlc-d-node/src/auth.rs\<close>): its state and its handlers, the
  invariant of the leader's ballot, and what follows for the logs of a cluster.  A
  handler returns the new state and the messages to send; \<open>None\<close> is a panic.
  \<open>debug_assert!\<close> is compiled out.
\<close>

section \<open>Messages and state\<close>

datatype auth_msg =
    AuthPropose proposal
  | AuthVote vote
  | AuthCommit commit_msg

record auth_out =
  ao_dest :: dest
  ao_msg :: auth_msg

record auth_node =
  an_seed :: bytes
  an_pk :: bytes
  an_roster :: roster
  an_idx :: u32
  an_leader_idx :: u32
  an_view :: global_config
  an_ballot :: votes
  an_proposing :: "(command \<times> vote list) option"

definition fresh_view :: "u32 \<Rightarrow> trm \<Rightarrow> failure_budget \<Rightarrow> global_config" where
  "fresh_view me init bud =
     \<lparr>replicas = [\<lparr>rid = me, store = init, applied = 0\<rparr>], log = [], budget = bud\<rparr>"

definition auth_new ::
    "ed25519_lib \<Rightarrow> bytes \<Rightarrow> roster \<Rightarrow> u32 \<Rightarrow> u32 \<Rightarrow> trm \<Rightarrow> failure_budget \<Rightarrow> auth_node option" where
  "auth_new L seed r idx leader_idx init bud =
     (let pk = ed25519_public_key L seed in
      if roster_member r idx \<noteq> Some pk then None
      else Some \<lparr>an_seed = seed, an_pk = pk, an_roster = r, an_idx = idx, an_leader_idx = leader_idx,
        an_view = fresh_view idx init bud, an_ballot = replicate (roster_len r) None,
        an_proposing = None\<rparr>)"

definition auth_is_leader :: "auth_node \<Rightarrow> bool" where
  "auth_is_leader n \<longleftrightarrow> an_idx n = an_leader_idx n"

definition auth_next_slot :: "auth_node \<Rightarrow> u32" where
  "auth_next_slot n = next_slot (an_view n)"

section \<open>Handlers\<close>

definition auth_apply_commit :: "auth_node \<Rightarrow> command \<Rightarrow> auth_node option" where
  "auth_apply_commit n cmd =
     map_option (\<lambda>w. n\<lparr>an_view := w\<rparr>) (apply_commit_view (an_view n) cmd)"

definition auth_decided :: "auth_node \<Rightarrow> command \<Rightarrow> bool" where
  "auth_decided n cmd = (case rquorum (an_roster n) of
     Crash \<Rightarrow> decided (an_ballot n) cmd
   | Byzantine \<Rightarrow> byz_decided (an_ballot n) cmd)"

definition record_vote ::
    "ed25519_lib \<Rightarrow> (cbor \<Rightarrow> bytes) \<Rightarrow> auth_node \<Rightarrow> u32 \<Rightarrow> vote \<Rightarrow> (auth_node \<times> auth_out list) option" where
  "record_vote L cw n slot v = (case an_proposing n of
     None \<Rightarrow> Some (n, [])
   | Some (cmd, votes) \<Rightarrow>
       if slot \<noteq> auth_next_slot n then Some (n, [])
       else if \<not> verify_vote L cw v slot cmd (an_roster n) then Some (n, [])
       else (case index_of (an_roster n) (voter v) of
           None \<Rightarrow> Some (n, [])
         | Some i \<Rightarrow>
             if unat i \<ge> length (an_ballot n) then None
             else let n1 = (if an_ballot n ! unat i = None
                   then n\<lparr>an_ballot := (an_ballot n)[unat i := Some cmd],
                          an_proposing := Some (cmd, votes @ [v])\<rparr>
                   else n) in
               if \<not> auth_decided n1 cmd then Some (n1, [])
               else let vs = (case an_proposing n1 of Some (c, vs) \<Rightarrow> vs | None \<Rightarrow> []);
                   n2 = n1\<lparr>an_proposing := None, an_ballot := replicate (roster_len (an_roster n)) None\<rparr>;
                   c = \<lparr>c_slot = slot, c_cmd = cmd, c_qc = \<lparr>qc_votes = vs\<rparr>\<rparr> in
                 map_option (\<lambda>n3. (n3, [\<lparr>ao_dest = Peers, ao_msg = AuthCommit c\<rparr>]))
                   (auth_apply_commit n2 cmd)))"

definition auth_submit ::
    "ed25519_lib \<Rightarrow> (cbor \<Rightarrow> bytes) \<Rightarrow> auth_node \<Rightarrow> command \<Rightarrow> capability \<Rightarrow>
     (auth_node \<times> auth_out list) option" where
  "auth_submit L cw n cmd c =
     (if \<not> auth_is_leader n \<or> an_proposing n \<noteq> None then Some (n, [])
      else let slot = auth_next_slot n in
        if \<not> verify_capability L cw c cmd then Some (n, [])
        else let p = propose L cw (an_seed n) slot cmd c;
            n1 = n\<lparr>an_ballot := replicate (roster_len (an_roster n)) None, an_proposing := Some (cmd, [])\<rparr>;
            own = cast_vote L cw (an_seed n) slot cmd in
          map_option (\<lambda>(n2, outs). (n2, \<lparr>ao_dest = Peers, ao_msg = AuthPropose p\<rparr> # outs))
            (record_vote L cw n1 slot own))"

definition auth_handle ::
    "ed25519_lib \<Rightarrow> (cbor \<Rightarrow> bytes) \<Rightarrow> auth_node \<Rightarrow> auth_msg \<Rightarrow> (auth_node \<times> auth_out list) option" where
  "auth_handle L cw n msg = (case msg of
     AuthPropose p \<Rightarrow>
       if p_slot p \<noteq> auth_next_slot n \<or> \<not> verify_proposal L cw p (an_roster n) then Some (n, [])
       else Some (n, [\<lparr>ao_dest = To (an_leader_idx n),
                       ao_msg = AuthVote (cast_vote L cw (an_seed n) (p_slot p) (p_cmd p))\<rparr>])
   | AuthVote v \<Rightarrow>
       if \<not> auth_is_leader n then Some (n, [])
       else let slot = auth_next_slot n in record_vote L cw n slot v
   | AuthCommit c \<Rightarrow>
       if c_slot c \<noteq> auth_next_slot n \<or> \<not> verify_commit L cw c (an_roster n) then Some (n, [])
       else map_option (\<lambda>n1. (n1, [])) (auth_apply_commit n (c_cmd c)))"

section \<open>The invariant of a node\<close>

text \<open>The ballot and the collected votes tell the same story about the command in flight.\<close>

definition ballot_ok :: "roster \<Rightarrow> votes \<Rightarrow> command \<Rightarrow> vote list \<Rightarrow> bool" where
  "ballot_ok r ballot cmd vs \<longleftrightarrow> length ballot = roster_len r \<and> distinct (map voter vs) \<and>
     (\<forall>i < roster_len r. ballot ! i = (if members r ! i \<in> voter ` set vs then Some cmd else None))"

definition auth_inv :: "ed25519_lib \<Rightarrow> (cbor \<Rightarrow> bytes) \<Rightarrow> trm \<Rightarrow> auth_node \<Rightarrow> bool" where
  "auth_inv L cw init n \<longleftrightarrow>
     view_ok init (an_idx n) (an_view n) \<and> distinct (members (an_roster n)) \<and>
     3 * roster_len (an_roster n) < 2 ^ 32 \<and>
     (case an_proposing n of
        None \<Rightarrow> True
      | Some (cmd, vs) \<Rightarrow>
          ballot_ok (an_roster n) (an_ballot n) cmd vs \<and>
          (\<forall>v \<in> set vs. verify_vote L cw v (auth_next_slot n) cmd (an_roster n)))"

lemma ballot_ok_empty: "ballot_ok r (replicate (roster_len r) None) cmd []"
  by (simp add: ballot_ok_def)

lemma nth_members: "i < roster_len r \<Longrightarrow> members r ! i \<in> set (members r)"
  by (simp add: roster_len_def)

lemma ballot_ok_add:
  assumes "ballot_ok r ballot cmd vs" "distinct (members r)" "i < roster_len r"
    "members r ! i = voter v" "ballot ! i = None"
  shows "ballot_ok r (ballot[i := Some cmd]) cmd (vs @ [v])"
proof -
  have "members r ! j \<noteq> members r ! i" if "j < roster_len r" "j \<noteq> i" for j
    using that assms(2,3) by (simp add: nth_eq_iff_index_eq roster_len_def)
  with assms show ?thesis
    by (auto simp: ballot_ok_def nth_list_update split: if_splits)
qed

text \<open>The ballot's quorum is the certificate's.\<close>

lemma ballot_voters:
  assumes "ballot_ok r ballot cmd vs" "distinct (members r)" "voter ` set vs \<subseteq> set (members r)"
  shows "card (voters ballot cmd) = card (voter ` set vs)"
proof -
  have "(\<lambda>i. members r ! i) ` voters ballot cmd = voter ` set vs"
  proof
    show "(\<lambda>i. members r ! i) ` voters ballot cmd \<subseteq> voter ` set vs"
      using assms(1) by (auto simp: ballot_ok_def voters_def split: if_splits)
    show "voter ` set vs \<subseteq> (\<lambda>i. members r ! i) ` voters ballot cmd"
    proof
      fix k assume k: "k \<in> voter ` set vs"
      with assms(3) obtain i where "i < roster_len r" "members r ! i = k"
        by (metis in_set_conv_nth roster_len_def subsetD)
      with k assms(1) show "k \<in> (\<lambda>i. members r ! i) ` voters ballot cmd"
        by (auto simp: ballot_ok_def voters_def)
    qed
  qed
  moreover have "inj_on (\<lambda>i. members r ! i) (voters ballot cmd)"
    using assms(1,2) by (auto simp: inj_on_def ballot_ok_def voters_def nth_eq_iff_index_eq roster_len_def)
  ultimately show ?thesis by (metis card_image)
qed

lemma auth_decided_iff:
  assumes "ballot_ok (an_roster n) (an_ballot n) cmd vs" "distinct (members (an_roster n))"
    "3 * roster_len (an_roster n) < 2 ^ 32" "voter ` set vs \<subseteq> set (members (an_roster n))"
  shows "auth_decided n cmd \<longleftrightarrow> roster_is_quorum (an_roster n) (card (voter ` set vs))"
proof -
  have "length (an_ballot n) = roster_len (an_roster n)" using assms(1) by (simp add: ballot_ok_def)
  with assms(3) ballot_voters [OF assms(1,2,4)] show ?thesis
    by (cases "rquorum (an_roster n)")
      (simp_all add: auth_decided_def roster_is_quorum_def decided_iff byz_decided_iff quorum_reached_defs)
qed

section \<open>What the handlers do\<close>

definition same_seat :: "auth_node \<Rightarrow> auth_node \<Rightarrow> bool" where
  "same_seat n n' \<longleftrightarrow> an_seed n' = an_seed n \<and> an_pk n' = an_pk n \<and> an_roster n' = an_roster n \<and>
     an_idx n' = an_idx n \<and> an_leader_idx n' = an_leader_idx n"

lemma same_seat_refl [simp]: "same_seat n n"
  by (simp add: same_seat_def)

text \<open>The votes that a leader has collected for its proposal, and those that a message brings.\<close>

definition flight_votes :: "auth_node \<Rightarrow> vote set" where
  "flight_votes n = (case an_proposing n of None \<Rightarrow> {} | Some (cmd, vs) \<Rightarrow> set vs)"

primrec msg_votes :: "auth_msg \<Rightarrow> vote set" where
  "msg_votes (AuthPropose p) = {}"
| "msg_votes (AuthVote v) = {v}"
| "msg_votes (AuthCommit c) = set (qc_votes (c_qc c))"

text \<open>
  A handler either leaves the log alone or appends the command of a valid certificate, made of
  votes in \<open>V\<close>; the votes that it goes on with are in \<open>V\<close> too.
\<close>

definition certified_step ::
    "ed25519_lib \<Rightarrow> (cbor \<Rightarrow> bytes) \<Rightarrow> vote set \<Rightarrow> auth_node \<Rightarrow> auth_node \<Rightarrow> bool" where
  "certified_step L cw V n n' \<longleftrightarrow> flight_votes n' \<subseteq> V \<and> (log (an_view n') = log (an_view n) \<or>
     (\<exists>c. verify_commit L cw c (an_roster n) \<and> c_slot c = auth_next_slot n \<and>
        set (qc_votes (c_qc c)) \<subseteq> V \<and> log (an_view n') = log (an_view n) @ [c_cmd c]))"

lemma certified_step_mono: "certified_step L cw V n n' \<Longrightarrow> V \<subseteq> W \<Longrightarrow> certified_step L cw W n n'"
  unfolding certified_step_def by blast

lemma flight_votes_simps [simp]:
  "an_proposing n = None \<Longrightarrow> flight_votes n = {}"
  "an_proposing n = Some (cmd, vs) \<Longrightarrow> flight_votes n = set vs"
  by (simp_all add: flight_votes_def)

lemma certified_step_refl [simp]: "certified_step L cw V n n \<longleftrightarrow> flight_votes n \<subseteq> V"
  by (simp add: certified_step_def)

definition commits_verify :: "ed25519_lib \<Rightarrow> (cbor \<Rightarrow> bytes) \<Rightarrow> roster \<Rightarrow> auth_out list \<Rightarrow> bool" where
  "commits_verify L cw r outs \<longleftrightarrow>
     (\<forall>out c. out \<in> set outs \<longrightarrow> ao_msg out = AuthCommit c \<longrightarrow> verify_commit L cw c r)"

lemma commits_verify_simps [simp]:
  "commits_verify L cw r []"
  "commits_verify L cw r (out # outs) \<longleftrightarrow>
     (\<forall>c. ao_msg out = AuthCommit c \<longrightarrow> verify_commit L cw c r) \<and> commits_verify L cw r outs"
  by (auto simp: commits_verify_def)

lemma auth_apply_commit_ok:
  assumes "view_ok init (an_idx n) (an_view n)" "length (log (an_view n)) + 1 < 2 ^ 32"
  shows "\<exists>w. auth_apply_commit n cmd = Some (n\<lparr>an_view := w\<rparr>) \<and> view_ok init (an_idx n) w \<and>
    log w = log (an_view n) @ [cmd]"
  using apply_commit_view_ok [OF assms, of cmd] by (auto simp: auth_apply_commit_def)

text \<open>Deciding: the certificate built from a decided ballot verifies and is applied.\<close>

lemma decide_step:
  assumes "auth_inv L cw init n1" "an_proposing n1 = Some (cmd, vs)" "auth_decided n1 cmd"
    "length (log (an_view n1)) + 1 < 2 ^ 32" "slot = auth_next_slot n1" "bl = replicate k None"
    "c = \<lparr>c_slot = slot, c_cmd = cmd, c_qc = \<lparr>qc_votes = vs\<rparr>\<rparr>"
  shows "\<exists>n3. auth_apply_commit (n1\<lparr>an_proposing := None, an_ballot := bl\<rparr>) cmd = Some n3 \<and>
    auth_inv L cw init n3 \<and> same_seat n1 n3 \<and> verify_commit L cw c (an_roster n1) \<and>
    log (an_view n3) = log (an_view n1) @ [cmd] \<and> an_proposing n3 = None"
proof -
  from assms(1,2) have ok: "ballot_ok (an_roster n1) (an_ballot n1) cmd vs"
    and vv: "\<forall>v \<in> set vs. verify_vote L cw v (auth_next_slot n1) cmd (an_roster n1)"
    and d: "distinct (members (an_roster n1))" "3 * roster_len (an_roster n1) < 2 ^ 32"
    and view: "view_ok init (an_idx n1) (an_view n1)"
    by (auto simp: auth_inv_def)
  from vv have "voter ` set vs \<subseteq> set (members (an_roster n1))" by (auto simp: verify_vote_def)
  with auth_decided_iff [OF ok d] assms(3)
  have "roster_is_quorum (an_roster n1) (card (voter ` set vs))" by simp
  with vv assms(5,7) have "verify_commit L cw c (an_roster n1)"
    by (simp add: verify_commit_def verify_qc_char)
  moreover obtain w where "auth_apply_commit (n1\<lparr>an_proposing := None, an_ballot := bl\<rparr>) cmd =
      Some (n1\<lparr>an_proposing := None, an_ballot := bl, an_view := w\<rparr>)"
    "view_ok init (an_idx n1) w" "log w = log (an_view n1) @ [cmd]"
    using auth_apply_commit_ok [of init "n1\<lparr>an_proposing := None, an_ballot := bl\<rparr>" cmd] view assms(4)
    by auto
  ultimately show ?thesis using d
    by (auto simp: auth_inv_def same_seat_def)
qed

lemma record_vote_ok:
  assumes "auth_inv L cw init n" "length (log (an_view n)) + 1 < 2 ^ 32"
  shows "\<exists>n' outs. record_vote L cw n slot v = Some (n', outs) \<and> auth_inv L cw init n' \<and>
    same_seat n n' \<and> certified_step L cw (insert v (flight_votes n)) n n' \<and>
    commits_verify L cw (an_roster n) outs"
proof (cases "an_proposing n")
  case None
  with assms(1) show ?thesis by (simp add: record_vote_def)
next
  case (Some cv)
  then obtain cmd vs where fl: "an_proposing n = Some (cmd, vs)" by (cases cv) auto
  show ?thesis
  proof (cases "slot = auth_next_slot n \<and> verify_vote L cw v slot cmd (an_roster n)")
    case False
    with fl assms(1) show ?thesis by (auto simp: record_vote_def)
  next
    case True
    then have slot: "slot = auth_next_slot n" and vv: "verify_vote L cw v slot cmd (an_roster n)"
      by blast+
    from assms(1) fl have ok: "ballot_ok (an_roster n) (an_ballot n) cmd vs"
      and d: "distinct (members (an_roster n))" "3 * roster_len (an_roster n) < 2 ^ 32"
      by (auto simp: auth_inv_def)
    from vv obtain i where i: "index_of (an_roster n) (voter v) = Some i"
      using index_of_None [of "an_roster n" "voter v"] by (auto simp: verify_vote_def)
    from index_of_Some [OF i] d(2) have ui: "unat i < roster_len (an_roster n)"
      "members (an_roster n) ! unat i = voter v" by simp_all
    with ok have ib: "unat i < length (an_ballot n)" by (simp add: ballot_ok_def)
    define n1 where "n1 = (if an_ballot n ! unat i = None
      then n\<lparr>an_ballot := (an_ballot n)[unat i := Some cmd], an_proposing := Some (cmd, vs @ [v])\<rparr>
      else n)"
    define vs1 where "vs1 = (if an_ballot n ! unat i = None then vs @ [v] else vs)"
    have n1: "an_proposing n1 = Some (cmd, vs1)" "an_view n1 = an_view n" "same_seat n n1"
      "an_roster n1 = an_roster n"
      using fl by (simp_all add: n1_def vs1_def same_seat_def)
    have vs1: "set vs1 \<subseteq> insert v (flight_votes n)" using fl by (auto simp: vs1_def)
    have inv1: "auth_inv L cw init n1"
      using assms(1) fl ballot_ok_add [OF ok d(1) ui(1) ui(2)] vv slot
      by (auto simp: n1_def auth_inv_def auth_next_slot_def)
    have slot1: "slot = auth_next_slot n1" using slot n1 by (simp add: auth_next_slot_def)
    have rv: "record_vote L cw n slot v =
       (if \<not> auth_decided n1 cmd then Some (n1, [])
        else map_option (\<lambda>n3. (n3, [\<lparr>ao_dest = Peers, ao_msg = AuthCommit
            \<lparr>c_slot = slot, c_cmd = cmd, c_qc = \<lparr>qc_votes = vs1\<rparr>\<rparr>\<rparr>]))
          (auth_apply_commit
            (n1\<lparr>an_proposing := None, an_ballot := replicate (roster_len (an_roster n)) None\<rparr>) cmd))"
      using fl slot vv i ib n1(1) by (simp add: record_vote_def n1_def Let_def)
    show ?thesis
    proof (cases "auth_decided n1 cmd")
      case False
      with rv inv1 n1 vs1 show ?thesis by (simp add: certified_step_def)
    next
      case True
      let ?c = "\<lparr>c_slot = slot, c_cmd = cmd, c_qc = \<lparr>qc_votes = vs1\<rparr>\<rparr>"
      from decide_step [OF inv1 n1(1) True _ slot1 refl, where k = "roster_len (an_roster n)" and c = ?c] n1(2) assms(2)
      obtain n3 where n3: "auth_apply_commit
            (n1\<lparr>an_proposing := None, an_ballot := replicate (roster_len (an_roster n)) None\<rparr>) cmd = Some n3"
        "auth_inv L cw init n3" "same_seat n1 n3" "verify_commit L cw ?c (an_roster n)"
        "log (an_view n3) = log (an_view n) @ [cmd]" "an_proposing n3 = None" using n1(4) by auto
      have "certified_step L cw (insert v (flight_votes n)) n n3"
        unfolding certified_step_def using n3(4,5,6) slot vs1 by (intro conjI disjI2 exI [of _ ?c]) simp_all
      with rv True n3 n1(3) show ?thesis by (auto simp: same_seat_def)
    qed
  qed
qed

text \<open>
  Every input but one keeps the invariant: a commit that reaches a leader with a
  proposal in flight moves its log on under the collected votes.
\<close>

definition interrupts :: "auth_node \<Rightarrow> auth_msg \<Rightarrow> bool" where
  "interrupts n msg \<longleftrightarrow> (case msg of AuthCommit c \<Rightarrow> an_proposing n \<noteq> None | _ \<Rightarrow> False)"

lemma auth_handle_ok:
  assumes "auth_inv L cw init n" "length (log (an_view n)) + 1 < 2 ^ 32" "\<not> interrupts n msg"
  shows "\<exists>n' outs. auth_handle L cw n msg = Some (n', outs) \<and> auth_inv L cw init n' \<and>
    same_seat n n' \<and> certified_step L cw (flight_votes n \<union> msg_votes msg) n n' \<and>
    commits_verify L cw (an_roster n) outs"
proof (cases msg)
  case (AuthPropose p)
  with assms(1) show ?thesis by (simp add: auth_handle_def)
next
  case (AuthVote v)
  with assms(1) record_vote_ok [OF assms(1,2), of "auth_next_slot n" v] show ?thesis
    by (auto simp: auth_handle_def)
next
  case (AuthCommit c)
  with assms(3) have np: "an_proposing n = None"
    by (cases "an_proposing n") (simp_all add: interrupts_def)
  from assms(1) have "view_ok init (an_idx n) (an_view n)" by (simp add: auth_inv_def)
  from auth_apply_commit_ok [OF this assms(2), of "c_cmd c"] obtain w where
    "auth_apply_commit n (c_cmd c) = Some (n\<lparr>an_view := w\<rparr>)" "view_ok init (an_idx n) w"
    "log w = log (an_view n) @ [c_cmd c]" by blast
  with AuthCommit assms(1) np show ?thesis
    by (fastforce simp: auth_handle_def auth_inv_def same_seat_def certified_step_def)
qed

text \<open>The votes that a leader casts by submitting.\<close>

definition own_votes :: "ed25519_lib \<Rightarrow> (cbor \<Rightarrow> bytes) \<Rightarrow> auth_node \<Rightarrow> command \<Rightarrow> auth_out list \<Rightarrow> vote set" where
  "own_votes L cw n cmd outs =
     (if outs = [] then {} else {cast_vote L cw (an_seed n) (auth_next_slot n) cmd})"

lemma auth_submit_ok:
  assumes "auth_inv L cw init n" "length (log (an_view n)) + 1 < 2 ^ 32"
  shows "\<exists>n' outs. auth_submit L cw n cmd cp = Some (n', outs) \<and> auth_inv L cw init n' \<and>
    same_seat n n' \<and> certified_step L cw (flight_votes n \<union> own_votes L cw n cmd outs) n n' \<and>
    commits_verify L cw (an_roster n) outs"
proof (cases "auth_is_leader n \<and> an_proposing n = None \<and> verify_capability L cw cp cmd")
  case False
  with assms(1) show ?thesis by (auto simp: auth_submit_def Let_def)
next
  case True
  define n1 where "n1 = n\<lparr>an_ballot := replicate (roster_len (an_roster n)) None, an_proposing := Some (cmd, [])\<rparr>"
  have "auth_inv L cw init n1" "length (log (an_view n1)) + 1 < 2 ^ 32"
    using assms by (simp_all add: n1_def auth_inv_def ballot_ok_empty)
  from record_vote_ok [OF this, of "auth_next_slot n" "cast_vote L cw (an_seed n) (auth_next_slot n) cmd"]
  obtain n' outs where r: "record_vote L cw n1 (auth_next_slot n)
      (cast_vote L cw (an_seed n) (auth_next_slot n) cmd) = Some (n', outs)" "auth_inv L cw init n'"
    "same_seat n1 n'"
    "certified_step L cw {cast_vote L cw (an_seed n) (auth_next_slot n) cmd} n1 n'"
    "commits_verify L cw (an_roster n1) outs" by (fastforce simp: n1_def)
  with True show ?thesis
    by (auto simp: auth_submit_def n1_def Let_def same_seat_def certified_step_def auth_next_slot_def own_votes_def)
qed

lemma auth_new_inv:
  assumes "auth_new L seed r idx ldr init bud = Some n" "distinct (members r)" "3 * roster_len r < 2 ^ 32"
  shows "auth_inv L cw init n" "log (an_view n) = []" "an_roster n = r"
  using assms
  by (auto simp: auth_new_def auth_inv_def Let_def view_ok_def fresh_view_def split: if_splits)

section \<open>Certified logs\<close>

text \<open>
  A life of a node: submissions and messages in any order, as long as the log has
  room and no commit interrupts a proposal.
\<close>

inductive auth_run :: "ed25519_lib \<Rightarrow> (cbor \<Rightarrow> bytes) \<Rightarrow> roster \<Rightarrow> trm \<Rightarrow> auth_node \<Rightarrow> bool"
  for L cw r init where
  run_new: "auth_new L seed r idx ldr init bud = Some n \<Longrightarrow> auth_run L cw r init n"
| run_submit: "auth_run L cw r init n \<Longrightarrow> length (log (an_view n)) + 1 < 2 ^ 32 \<Longrightarrow>
    auth_submit L cw n cmd cp = Some (n', outs) \<Longrightarrow> auth_run L cw r init n'"
| run_handle: "auth_run L cw r init n \<Longrightarrow> length (log (an_view n)) + 1 < 2 ^ 32 \<Longrightarrow>
    \<not> interrupts n msg \<Longrightarrow> auth_handle L cw n msg = Some (n', outs) \<Longrightarrow> auth_run L cw r init n'"

lemma auth_run_inv:
  assumes "auth_run L cw r init n" "distinct (members r)" "3 * roster_len r < 2 ^ 32"
  shows "auth_inv L cw init n \<and> an_roster n = r"
  using assms(1)
proof (induction rule: auth_run.induct)
  case (run_new seed idx ldr bud n)
  from auth_new_inv [OF run_new assms(2,3)] show ?case by simp
next
  case (run_submit n cmd cp n' outs)
  then have "auth_inv L cw init n" by simp
  from auth_submit_ok [OF this run_submit.hyps(2), of cmd cp] run_submit show ?case
    by (auto simp: same_seat_def)
next
  case (run_handle n msg n' outs)
  then have "auth_inv L cw init n" by simp
  from auth_handle_ok [OF this run_handle.hyps(2,3)] run_handle show ?case
    by (auto simp: same_seat_def)
qed

text \<open>
  The same life with the set \<open>V\<close> of the votes that the node has held: those it cast when it
  submitted, those it was sent, and those in the certificates it was sent.
\<close>

inductive auth_life :: "ed25519_lib \<Rightarrow> (cbor \<Rightarrow> bytes) \<Rightarrow> roster \<Rightarrow> trm \<Rightarrow> auth_node \<Rightarrow> vote set \<Rightarrow> bool"
  for L cw r init where
  life_new: "auth_new L seed r idx ldr init bud = Some n \<Longrightarrow> auth_life L cw r init n {}"
| life_submit: "auth_life L cw r init n V \<Longrightarrow> length (log (an_view n)) + 1 < 2 ^ 32 \<Longrightarrow>
    auth_submit L cw n cmd cp = Some (n', outs) \<Longrightarrow>
    auth_life L cw r init n' (V \<union> own_votes L cw n cmd outs)"
| life_handle: "auth_life L cw r init n V \<Longrightarrow> length (log (an_view n)) + 1 < 2 ^ 32 \<Longrightarrow>
    \<not> interrupts n msg \<Longrightarrow> auth_handle L cw n msg = Some (n', outs) \<Longrightarrow>
    auth_life L cw r init n' (V \<union> msg_votes msg)"

text \<open>Each command of the log has a certificate made of votes in \<open>V\<close>.\<close>

definition certified ::
    "ed25519_lib \<Rightarrow> (cbor \<Rightarrow> bytes) \<Rightarrow> roster \<Rightarrow> vote set \<Rightarrow> command list \<Rightarrow> bool" where
  "certified L cw r V lg \<longleftrightarrow>
     (\<forall>i < length lg. \<exists>qc. verify_qc L cw qc (of_nat i) (lg ! i) r \<and> set (qc_votes qc) \<subseteq> V)"

lemma certified_mono: "certified L cw r V lg \<Longrightarrow> V \<subseteq> W \<Longrightarrow> certified L cw r W lg"
  unfolding certified_def by blast

lemma certified_append:
  "certified L cw r V lg \<Longrightarrow> verify_qc L cw qc (of_nat (length lg)) c r \<Longrightarrow> set (qc_votes qc) \<subseteq> V \<Longrightarrow>
     certified L cw r V (lg @ [c])"
  by (auto simp: certified_def nth_append less_Suc_eq)

lemma certified_step_certified:
  assumes "certified_step L cw W n n'" "certified L cw (an_roster n) V (log (an_view n))" "V \<subseteq> W"
  shows "certified L cw (an_roster n) W (log (an_view n'))"
  using assms(1) certified_mono [OF assms(2,3)]
  by (auto simp: certified_step_def verify_commit_def auth_next_slot_def next_slot_def
      intro: certified_append)

lemma auth_life_inv:
  assumes "auth_life L cw r init n V" "distinct (members r)" "3 * roster_len r < 2 ^ 32"
  shows "auth_inv L cw init n \<and> an_roster n = r \<and> flight_votes n \<subseteq> V \<and>
    certified L cw r V (log (an_view n))"
  using assms(1)
proof (induction rule: auth_life.induct)
  case (life_new seed idx ldr bud n)
  moreover from life_new have "an_proposing n = None" by (auto simp: auth_new_def Let_def split: if_splits)
  ultimately show ?case using auth_new_inv [OF _ assms(2,3)] by (simp add: certified_def)
next
  case (life_submit n V cmd cp n' outs)
  let ?W = "V \<union> own_votes L cw n cmd outs"
  from life_submit have inv: "auth_inv L cw init n" and V: "flight_votes n \<subseteq> V" "an_roster n = r"
    "certified L cw r V (log (an_view n))" by simp_all
  from auth_submit_ok [OF inv life_submit.hyps(2), of cmd cp] life_submit.hyps(3)
  have st: "auth_inv L cw init n'" "same_seat n n'"
    "certified_step L cw (flight_votes n \<union> own_votes L cw n cmd outs) n n'" by auto
  from certified_step_mono [OF st(3), of ?W] V(1) have "certified_step L cw ?W n n'" by blast
  with certified_step_certified [OF this, of V] V st(1,2) show ?case
    by (auto simp: same_seat_def certified_step_def)
next
  case (life_handle n V msg n' outs)
  let ?W = "V \<union> msg_votes msg"
  from life_handle have inv: "auth_inv L cw init n" and V: "flight_votes n \<subseteq> V" "an_roster n = r"
    "certified L cw r V (log (an_view n))" by simp_all
  from auth_handle_ok [OF inv life_handle.hyps(2,3)] life_handle.hyps(4)
  have st: "auth_inv L cw init n'" "same_seat n n'"
    "certified_step L cw (flight_votes n \<union> msg_votes msg) n n'" by auto
  from certified_step_mono [OF st(3), of ?W] V(1) have "certified_step L cw ?W n n'" by blast
  with certified_step_certified [OF this, of V] V st(1,2) show ?case
    by (auto simp: same_seat_def certified_step_def)
qed

section \<open>Followers\<close>

text \<open>What a follower answers to a proposal for its slot.\<close>

lemma follower_votes:
  assumes "p_slot p = auth_next_slot n" "verify_proposal L cw p (an_roster n)"
  shows "auth_handle L cw n (AuthPropose p) = Some (n, [\<lparr>ao_dest = To (an_leader_idx n),
    ao_msg = AuthVote (cast_vote L cw (an_seed n) (p_slot p) (p_cmd p))\<rparr>])"
  using assms by (simp add: auth_handle_def)

definition votes_in :: "auth_out list \<Rightarrow> vote list" where
  "votes_in outs = concat (map (\<lambda>out. case ao_msg out of AuthVote v \<Rightarrow> [v] | _ \<Rightarrow> []) outs)"

definition replies :: "ed25519_lib \<Rightarrow> (cbor \<Rightarrow> bytes) \<Rightarrow> auth_node list \<Rightarrow> proposal \<Rightarrow> vote list" where
  "replies L cw ns p = concat (map (\<lambda>n. case auth_handle L cw n (AuthPropose p) of
     Some (n', outs) \<Rightarrow> votes_in outs | None \<Rightarrow> []) ns)"

text \<open>A node that holds its seat's key and waits for \<open>slot\<close>.\<close>

definition seated :: "ed25519_lib \<Rightarrow> roster \<Rightarrow> u32 \<Rightarrow> auth_node \<Rightarrow> bool" where
  "seated L r slot n \<longleftrightarrow> an_roster n = r \<and> length (an_seed n) = 32 \<and>
     an_pk n = ed25519_public_key L (an_seed n) \<and> auth_next_slot n = slot"

lemma replies_eq:
  assumes "\<forall>n \<in> set ns. seated L r (p_slot p) n" "verify_proposal L cw p r"
  shows "replies L cw ns p = map (\<lambda>n. cast_vote L cw (an_seed n) (p_slot p) (p_cmd p)) ns"
  using assms by (induction ns) (auto simp: replies_def follower_votes seated_def votes_in_def)

lemma replies_certify:
  assumes "ed25519_ok L" "members r = map an_pk ns" "distinct (members r)" "ns \<noteq> []"
    "\<forall>n \<in> set ns. seated L r (p_slot p) n" "verify_proposal L cw p r"
  shows "verify_qc L cw \<lparr>qc_votes = replies L cw ns p\<rparr> (p_slot p) (p_cmd p) r"
proof -
  have vote: "verify_vote L cw (cast_vote L cw (an_seed n) (p_slot p) (p_cmd p)) (p_slot p) (p_cmd p) r"
    if "n \<in> set ns" for n
    using that assms(1,2,5) by (auto simp: verify_vote_def cast_vote_def seated_def ed25519_sign_verify)
  have "voter ` set (replies L cw ns p) = set (members r)"
    unfolding replies_eq [OF assms(5,6)] assms(2) using assms(5)
    by (auto simp: cast_vote_def seated_def image_iff)
  then have "card (voter ` set (replies L cw ns p)) = roster_len r"
    using assms(3) by (simp add: distinct_card roster_len_def)
  moreover have "roster_len r > 0" using assms(2,4) by (simp add: roster_len_def)
  ultimately have "roster_is_quorum r (card (voter ` set (replies L cw ns p)))"
    by (cases "rquorum r") (simp_all add: roster_is_quorum_def quorum_reached_def)
  with vote show ?thesis
    by (auto simp: verify_qc_char replies_eq [OF assms(5,6)])
qed

section \<open>An interrupted leader\<close>

text \<open>The votes a leader collects stay with it, whatever slot it has reached.\<close>

lemma record_vote_commit:
  assumes "record_vote L cw n slot v = Some (n', outs)" "an_proposing n = Some (cmd, vs)"
    "out \<in> set outs" "ao_msg out = AuthCommit c"
  shows "set vs \<subseteq> set (qc_votes (c_qc c)) \<and> c_slot c = slot"
  using assms
  by (auto simp: record_vote_def Let_def split: if_splits option.splits)

text \<open>The vote that completes a quorum of the ballot, whatever slots the earlier ones are for.\<close>

lemma record_vote_decides:
  assumes "an_proposing n = Some (cmd, vs)" "ballot_ok (an_roster n) (an_ballot n) cmd vs"
    "distinct (members (an_roster n))" "3 * roster_len (an_roster n) < 2 ^ 32"
    "view_ok init (an_idx n) (an_view n)" "length (log (an_view n)) + 1 < 2 ^ 32"
    "voter ` set vs \<subseteq> set (members (an_roster n))" "voter v \<notin> voter ` set vs"
    "slot = auth_next_slot n" "verify_vote L cw v slot cmd (an_roster n)"
    "roster_is_quorum (an_roster n) (Suc (card (voter ` set vs)))"
  shows "\<exists>n'. record_vote L cw n slot v = Some (n', [\<lparr>ao_dest = Peers,
      ao_msg = AuthCommit \<lparr>c_slot = slot, c_cmd = cmd, c_qc = \<lparr>qc_votes = vs @ [v]\<rparr>\<rparr>\<rparr>]) \<and>
    log (an_view n') = log (an_view n) @ [cmd]"
proof -
  have mem: "voter v \<in> set (members (an_roster n))" using assms(10) by (simp add: verify_vote_def)
  then obtain i where i: "index_of (an_roster n) (voter v) = Some i"
    using index_of_None [of "an_roster n" "voter v"] by auto
  from index_of_Some [OF i] assms(4) have ui: "unat i < roster_len (an_roster n)"
    "members (an_roster n) ! unat i = voter v" by simp_all
  with assms(2,8) have ib: "unat i < length (an_ballot n)" "an_ballot n ! unat i = None"
    by (simp_all add: ballot_ok_def)
  define n1 where "n1 = n\<lparr>an_ballot := (an_ballot n)[unat i := Some cmd], an_proposing := Some (cmd, vs @ [v])\<rparr>"
  have "ballot_ok (an_roster n1) (an_ballot n1) cmd (vs @ [v])"
    using ballot_ok_add [OF assms(2,3) ui ib(2)] by (simp add: n1_def)
  from auth_decided_iff [OF this] assms(3,4,7,8,11) mem have dec: "auth_decided n1 cmd" by (simp add: n1_def)
  let ?n2 = "n1\<lparr>an_proposing := None, an_ballot := replicate (roster_len (an_roster n)) None\<rparr>"
  from auth_apply_commit_ok [of init ?n2 cmd] assms(5,6) obtain w where
    w: "auth_apply_commit ?n2 cmd = Some (?n2\<lparr>an_view := w\<rparr>)" "log w = log (an_view n) @ [cmd]"
    by (auto simp: n1_def)
  have "record_vote L cw n slot v = Some (?n2\<lparr>an_view := w\<rparr>, [\<lparr>ao_dest = Peers,
      ao_msg = AuthCommit \<lparr>c_slot = slot, c_cmd = cmd, c_qc = \<lparr>qc_votes = vs @ [v]\<rparr>\<rparr>\<rparr>])"
    using assms(1,9,10) i ib dec w(1) by (simp add: record_vote_def n1_def Let_def)
  with w(2) show ?thesis by simp
qed

section \<open>A demonstration cluster\<close>

text \<open>Two seats of the toy scheme; seat 0 leads.\<close>

definition demo_node :: "quorum \<Rightarrow> nat \<Rightarrow> auth_node" where
  "demo_node q j = \<lparr>an_seed = demo_keys ! j, an_pk = demo_keys ! j, an_roster = demo_roster q,
     an_idx = of_nat j, an_leader_idx = 0, an_view = fresh_view (of_nat j) (Var 0) (fb_zero 0),
     an_ballot = [None, None], an_proposing = None\<rparr>"

lemma demo_roster_ok: "with_quorum demo_keys q = Some (demo_roster q)"
  by (simp add: with_quorum_Some demo_roster_def demo_distinct)

lemma demo_lengths [simp]: "length demo_keys = 2" "roster_len (demo_roster q) = 2"
  "length (demo_keys ! 0) = 32" "length (demo_keys ! Suc 0) = 32" "members (demo_roster q) = demo_keys"
  by (simp_all add: demo_keys_def demo_roster_def roster_len_def)

lemma demo_new:
  "j < 2 \<Longrightarrow> auth_new toy_ed25519 (demo_keys ! j) (demo_roster q) (of_nat j) 0 (Var 0) (fb_zero 0) =
     Some (demo_node q j)"
  by (cases j) (auto simp: auth_new_def Let_def roster_member_def demo_node_def numeral_2_eq_2
      get_nth_def less_Suc_eq)

lemma demo_run: "j < 2 \<Longrightarrow> auth_run toy_ed25519 put (demo_roster q) (Var 0) (demo_node q j)"
  by (rule run_new [OF demo_new])

text \<open>A seat that has been sent the certificate of \<open>cmd\<close> for slot 0.\<close>

lemma demo_committed:
  assumes "(j :: nat) < 2"
  shows "\<exists>n. auth_life toy_ed25519 put (demo_roster q) (Var 0) n (set (qc_votes (demo_qc 0 cmd))) \<and>
    log (an_view n) = [cmd]"
proof -
  let ?n = "demo_node q j" and ?c = "\<lparr>c_slot = 0, c_cmd = cmd, c_qc = demo_qc 0 cmd\<rparr>"
  have v: "view_ok (Var 0) (an_idx ?n) (an_view ?n)" and l: "length (log (an_view ?n)) + 1 < 2 ^ 32"
    and np: "\<not> interrupts ?n (AuthCommit ?c)"
    by (simp_all add: demo_node_def fresh_view_def view_ok_def interrupts_def)
  from auth_apply_commit_ok [OF v l, of cmd] obtain w where
    w: "auth_apply_commit ?n cmd = Some (?n\<lparr>an_view := w\<rparr>)" "log w = [cmd]"
    by (auto simp: demo_node_def fresh_view_def)
  have "auth_handle toy_ed25519 put ?n (AuthCommit ?c) = Some (?n\<lparr>an_view := w\<rparr>, [])"
    using w(1) demo_qc_ok [of 0 cmd q]
    by (simp add: auth_handle_def verify_commit_def demo_node_def fresh_view_def auth_next_slot_def next_slot_def)
  from life_handle [OF life_new [OF demo_new [OF assms]] l np this] w(2) show ?thesis by auto
qed

definition demo_cmd2 :: command where
  "demo_cmd2 = \<lparr>payload = Var 1, cap = None\<rparr>"

definition demo_proposal :: "command \<Rightarrow> proposal" where
  "demo_proposal cmd = propose toy_ed25519 put (demo_keys ! 0) 0 cmd
     (issue_capability toy_ed25519 put (demo_keys ! 1) cmd)"

lemma demo_proposal_ok: "verify_proposal toy_ed25519 put (demo_proposal cmd) (demo_roster q)"
  by (simp add: demo_proposal_def propose_def verify_proposal_def issue_capability_def
      verify_capability_def)

lemma demo_seated: "n \<in> {demo_node q 0, demo_node q 1} \<Longrightarrow> seated toy_ed25519 (demo_roster q) 0 n"
  by (auto simp: seated_def demo_node_def auth_next_slot_def next_slot_def fresh_view_def)

text \<open>The leader with its own vote recorded.\<close>

definition demo_leader :: auth_node where
  "demo_leader = (demo_node Crash 0)\<lparr>an_ballot := [Some demo_cmd, None],
     an_proposing := Some (demo_cmd, [cast_vote toy_ed25519 put (demo_keys ! 0) 0 demo_cmd])\<rparr>"

lemma demo_keys_neq: "demo_keys ! Suc 0 \<noteq> demo_keys ! 0"
  by (simp add: demo_keys_def)

lemma demo_leader_inv: "auth_inv toy_ed25519 put (Var 0) demo_leader"
  using demo_distinct demo_keys_neq
  by (auto simp: auth_inv_def demo_leader_def demo_node_def fresh_view_def view_ok_def ballot_ok_def
      cast_vote_def verify_vote_def auth_next_slot_def next_slot_def less_2_cases_iff)

section \<open>Properties\<close>

text \<open>C14: a node that is not interrupted never panics, and every commit it broadcasts carries a
  certificate that its followers' check accepts.\<close>

theorem broadcast_commits_verify:
  assumes "auth_run L cw r init n" "with_quorum ms q = Some r" "3 * length ms < 2 ^ 32"
    "length (log (an_view n)) + 1 < 2 ^ 32" "\<not> interrupts n msg"
  shows "(\<exists>n' outs. auth_handle L cw n msg = Some (n', outs) \<and> commits_verify L cw r outs) \<and>
    (\<exists>n' outs. auth_submit L cw n cmd cp = Some (n', outs) \<and> commits_verify L cw r outs)"
proof -
  from assms(2,3) have "distinct (members r)" "3 * roster_len r < 2 ^ 32"
    by (auto simp: ok_elim roster_len_def)
  with auth_run_inv [OF assms(1)] have inv: "auth_inv L cw init n" and r: "an_roster n = r" by auto
  from auth_handle_ok [OF inv assms(4,5)] auth_submit_ok [OF inv assms(4), of cmd cp] r
  show ?thesis by blast
qed

theorem broadcast_commits_verify_witness:
  "\<exists>n' outs. auth_submit toy_ed25519 put (demo_node Byzantine 0) demo_cmd
       (issue_capability toy_ed25519 put (demo_keys ! 1) demo_cmd) = Some (n', outs) \<and>
     commits_verify toy_ed25519 put (demo_roster Byzantine) outs"
  by (rule broadcast_commits_verify [THEN conjunct2, OF demo_run demo_roster_ok,
        where msg1 = "AuthPropose (demo_proposal demo_cmd)"])
    (simp_all add: demo_node_def fresh_view_def interrupts_def)

text \<open>C13: agreement or evidence.  Whatever two uninterrupted nodes of one committee have been
  sent, where their logs differ the votes that they hold convict a member: one of them holds
  a vote of its key for the first command, the other a vote of the same key and slot for the second.
  On a Byzantine roster more than a third of the members are convicted so.\<close>

theorem logs_agree_or_evidence:
  assumes "auth_life L cw r init1 n1 V1" "auth_life L cw r init2 n2 V2" "with_quorum ms q = Some r"
    "3 * length ms < 2 ^ 32" "i < length (log (an_view n1))" "i < length (log (an_view n2))"
  shows "\<exists>D. D \<subseteq> set ms \<and> D \<noteq> {} \<and> (q = Byzantine \<longrightarrow> 3 * card D > length ms) \<and>
    (\<forall>k \<in> D. \<exists>v \<in> V1. \<exists>w \<in> V2. voter v = k \<and> voter w = k \<and> v_slot v = of_nat i \<and> v_slot w = of_nat i \<and>
       ed25519_verify L k (vote_msg cw (of_nat i) (log (an_view n1) ! i)) (v_sig v) = Inr () \<and>
       ed25519_verify L k (vote_msg cw (of_nat i) (log (an_view n2) ! i)) (v_sig w) = Inr ())"
proof -
  from assms(3,4) have d: "distinct (members r)" "3 * roster_len r < 2 ^ 32"
    by (auto simp: ok_elim roster_len_def)
  from auth_life_inv [OF assms(1) d] assms(5) obtain qc1 where
    qc1: "verify_qc L cw qc1 (of_nat i) (log (an_view n1) ! i) r" "set (qc_votes qc1) \<subseteq> V1"
    by (auto simp: certified_def)
  from auth_life_inv [OF assms(2) d] assms(6) obtain qc2 where
    qc2: "verify_qc L cw qc2 (of_nat i) (log (an_view n2) ! i) r" "set (qc_votes qc2) \<subseteq> V2"
    by (auto simp: certified_def)
  let ?D = "double_voters L cw r (of_nat i) V1 (log (an_view n1) ! i) V2 (log (an_view n2) ! i)"
  have "\<exists>v \<in> V1. \<exists>w \<in> V2. voter v = k \<and> voter w = k \<and> v_slot v = of_nat i \<and> v_slot w = of_nat i \<and>
       ed25519_verify L k (vote_msg cw (of_nat i) (log (an_view n1) ! i)) (v_sig v) = Inr () \<and>
       ed25519_verify L k (vote_msg cw (of_nat i) (log (an_view n2) ! i)) (v_sig w) = Inr ()"
    if "k \<in> ?D" for k
    using double_votersE [OF that] by metis
  with certificates_conflict [OF assms(3) qc1(1) qc2(1) qc1(2) qc2(2)] show ?thesis by blast
qed

theorem logs_agree_or_evidence_witness:
  "demo_cmd \<noteq> demo_cmd2 \<and>
   (\<exists>k \<in> set demo_keys. \<exists>v \<in> set (qc_votes (demo_qc 0 demo_cmd)). \<exists>w \<in> set (qc_votes (demo_qc 0 demo_cmd2)).
      voter v = k \<and> voter w = k \<and> v_slot v = 0 \<and> v_slot w = 0 \<and>
      ed25519_verify toy_ed25519 k (vote_msg put 0 demo_cmd) (v_sig v) = Inr () \<and>
      ed25519_verify toy_ed25519 k (vote_msg put 0 demo_cmd2) (v_sig w) = Inr ())"
proof -
  obtain n1 n2 where n:
    "auth_life toy_ed25519 put (demo_roster Crash) (Var 0) n1 (set (qc_votes (demo_qc 0 demo_cmd)))"
    "log (an_view n1) = [demo_cmd]"
    "auth_life toy_ed25519 put (demo_roster Crash) (Var 0) n2 (set (qc_votes (demo_qc 0 demo_cmd2)))"
    "log (an_view n2) = [demo_cmd2]"
    using demo_committed [of 0] demo_committed [of 1] by (metis less_2_cases_iff)
  from logs_agree_or_evidence [OF n(1,3) demo_roster_ok, of 0] n(2,4)
  obtain D where D: "D \<subseteq> set demo_keys" "D \<noteq> {}"
    "\<forall>k \<in> D. \<exists>v \<in> set (qc_votes (demo_qc 0 demo_cmd)). \<exists>w \<in> set (qc_votes (demo_qc 0 demo_cmd2)).
      voter v = k \<and> voter w = k \<and> v_slot v = 0 \<and> v_slot w = 0 \<and>
      ed25519_verify toy_ed25519 k (vote_msg put 0 demo_cmd) (v_sig v) = Inr () \<and>
      ed25519_verify toy_ed25519 k (vote_msg put 0 demo_cmd2) (v_sig w) = Inr ()" by auto
  from D(2) obtain k where "k \<in> D" by blast
  with D(1,3) show ?thesis by (intro conjI) (simp add: demo_cmd_def demo_cmd2_def, blast)
qed

text \<open>C25: followers keep no record of their votes.  Asked about two proposals for one slot, every
  honest replica votes for both and does not change; the two sets of replies are valid
  certificates, also on a Byzantine roster.\<close>

theorem honest_replicas_certify_both:
  assumes "ed25519_ok L" "with_quorum (map an_pk ns) q = Some r" "ns \<noteq> []"
    "\<forall>n \<in> set ns. seated L r slot n"
    "p_slot p1 = slot" "p_slot p2 = slot" "verify_proposal L cw p1 r" "verify_proposal L cw p2 r"
  shows "(\<forall>n \<in> set ns. \<exists>v1 v2.
      auth_handle L cw n (AuthPropose p1) = Some (n, [\<lparr>ao_dest = To (an_leader_idx n), ao_msg = AuthVote v1\<rparr>]) \<and>
      auth_handle L cw n (AuthPropose p2) = Some (n, [\<lparr>ao_dest = To (an_leader_idx n), ao_msg = AuthVote v2\<rparr>])) \<and>
    verify_qc L cw \<lparr>qc_votes = replies L cw ns p1\<rparr> slot (p_cmd p1) r \<and>
    verify_qc L cw \<lparr>qc_votes = replies L cw ns p2\<rparr> slot (p_cmd p2) r"
proof -
  from assms(2) have m: "members r = map an_pk ns" "distinct (members r)" by (auto simp: ok_elim)
  have "auth_handle L cw n (AuthPropose p) = Some (n, [\<lparr>ao_dest = To (an_leader_idx n),
      ao_msg = AuthVote (cast_vote L cw (an_seed n) slot (p_cmd p))\<rparr>])"
    if "n \<in> set ns" "p \<in> {p1, p2}" for n p
    using that assms(4-8) follower_votes [of p n L cw] by (auto simp: seated_def)
  moreover have "verify_qc L cw \<lparr>qc_votes = replies L cw ns p\<rparr> slot (p_cmd p) r" if "p \<in> {p1, p2}" for p
    using replies_certify [OF assms(1) m assms(3), of p cw] that assms(4-8) by auto
  ultimately show ?thesis by blast
qed

theorem honest_replicas_certify_both_witness:
  "demo_cmd \<noteq> demo_cmd2 \<and>
   verify_qc toy_ed25519 put \<lparr>qc_votes = replies toy_ed25519 put [demo_node Byzantine 0, demo_node Byzantine 1]
     (demo_proposal demo_cmd)\<rparr> 0 demo_cmd (demo_roster Byzantine) \<and>
   verify_qc toy_ed25519 put \<lparr>qc_votes = replies toy_ed25519 put [demo_node Byzantine 0, demo_node Byzantine 1]
     (demo_proposal demo_cmd2)\<rparr> 0 demo_cmd2 (demo_roster Byzantine)"
proof -
  have keys: "with_quorum (map an_pk [demo_node Byzantine 0, demo_node Byzantine 1]) Byzantine =
      Some (demo_roster Byzantine)"
    using demo_roster_ok [of Byzantine] by (simp add: demo_node_def demo_keys_def)
  have cmds: "p_cmd (demo_proposal c) = c" "p_slot (demo_proposal c) = 0" for c
    by (simp_all add: demo_proposal_def propose_def)
  from honest_replicas_certify_both [OF toy_ed25519_ok keys _ _ cmds(2) cmds(2) demo_proposal_ok
      demo_proposal_ok, of demo_cmd demo_cmd2] demo_seated [of _ Byzantine]
  show ?thesis by (auto simp: cmds demo_cmd_def demo_cmd2_def)
qed

text \<open>C26: a commit that reaches a leader with a proposal in flight leaves the proposal and its
  votes behind.  The next vote for that proposal, in the slot that the leader has then reached, makes
  it commit the command and broadcast a certificate as soon as the old votes and the new one are a
  quorum; no member accepts that certificate, nor any other that the leader builds on the old votes.\<close>

theorem interrupted_leader_commit_invalid:
  assumes "auth_inv L cw init n" "auth_is_leader n" "length (log (an_view n)) + 2 < 2 ^ 32"
    "an_proposing n = Some (cmd, v0 # vs)" "verify_commit L cw c (an_roster n)"
    "c_slot c = auth_next_slot n" "verify_vote L cw v (auth_next_slot n + 1) cmd (an_roster n)"
    "voter v \<notin> voter ` set (v0 # vs)" "roster_is_quorum (an_roster n) (Suc (card (voter ` set (v0 # vs))))"
  shows "\<exists>n' n'' d. auth_handle L cw n (AuthCommit c) = Some (n', []) \<and>
    auth_handle L cw n' (AuthVote v) = Some (n'', [\<lparr>ao_dest = Peers, ao_msg = AuthCommit d\<rparr>]) \<and>
    log (an_view n'') = log (an_view n) @ [c_cmd c, cmd] \<and>
    c_slot d = auth_next_slot n + 1 \<and> c_cmd d = cmd \<and> \<not> verify_commit L cw d (an_roster n) \<and>
    (\<forall>v' m outs e. auth_handle L cw n' (AuthVote v') = Some (m, outs) \<longrightarrow>
       AuthCommit e \<in> ao_msg ` set outs \<longrightarrow> \<not> verify_commit L cw e (an_roster n))"
proof -
  from assms(1) have view: "view_ok init (an_idx n) (an_view n)" by (simp add: auth_inv_def)
  have "length (log (an_view n)) + 1 < 2 ^ 32" using assms(3) by simp
  from auth_apply_commit_ok [OF view this, of "c_cmd c"] obtain w where
    w: "auth_apply_commit n (c_cmd c) = Some (n\<lparr>an_view := w\<rparr>)" "log w = log (an_view n) @ [c_cmd c]"
    "view_ok init (an_idx n) w" by blast
  define n' where "n' = n\<lparr>an_view := w\<rparr>"
  have h: "auth_handle L cw n (AuthCommit c) = Some (n', [])" "an_proposing n' = Some (cmd, v0 # vs)"
    "an_roster n' = an_roster n" "auth_is_leader n'"
    using w assms(2,4-6) by (simp_all add: auth_handle_def n'_def auth_is_leader_def)
  have slot: "auth_next_slot n' = auth_next_slot n + 1"
    using w by (simp add: n'_def auth_next_slot_def next_slot_def)
  from assms(1,4) have v0: "v_slot v0 = auth_next_slot n" by (auto simp: auth_inv_def verify_vote_def)
  have bad: "\<not> verify_commit L cw e (an_roster n)"
    if hv: "auth_handle L cw n' (AuthVote v') = Some (m, outs)" "out \<in> set outs"
      "ao_msg out = AuthCommit e" for v' m outs out e
  proof -
    from hv(1) h(4) have "record_vote L cw n' (auth_next_slot n') v' = Some (m, outs)"
      by (simp add: auth_handle_def)
    from record_vote_commit [OF this h(2) hv(2,3)]
    have "v0 \<in> set (qc_votes (c_qc e))" "c_slot e = auth_next_slot n'" by auto
    with v0 slot show ?thesis by (auto simp: verify_commit_def verify_qc_char verify_vote_def)
  qed
  from assms(1,4) have ok: "ballot_ok (an_roster n') (an_ballot n') cmd (v0 # vs)"
    "distinct (members (an_roster n'))" "3 * roster_len (an_roster n') < 2 ^ 32"
    "view_ok init (an_idx n') (an_view n')" "voter ` set (v0 # vs) \<subseteq> set (members (an_roster n'))"
    using w(3) by (auto simp: auth_inv_def n'_def verify_vote_def)
  have "length (log (an_view n')) + 1 < 2 ^ 32" using assms(3) w(2) by (simp add: n'_def)
  from record_vote_decides [OF h(2) ok(1-4) this ok(5) assms(8) slot [symmetric], of L cw] assms(7,9)
  obtain n'' where n'': "record_vote L cw n' (auth_next_slot n + 1) v = Some (n'', [\<lparr>ao_dest = Peers,
      ao_msg = AuthCommit \<lparr>c_slot = auth_next_slot n + 1, c_cmd = cmd, c_qc = \<lparr>qc_votes = (v0 # vs) @ [v]\<rparr>\<rparr>\<rparr>])"
    "log (an_view n'') = log (an_view n') @ [cmd]" by (auto simp: h(3))
  then have hv: "auth_handle L cw n' (AuthVote v) = Some (n'', [\<lparr>ao_dest = Peers,
      ao_msg = AuthCommit \<lparr>c_slot = auth_next_slot n + 1, c_cmd = cmd, c_qc = \<lparr>qc_votes = (v0 # vs) @ [v]\<rparr>\<rparr>\<rparr>])"
    using h(4) slot by (simp add: auth_handle_def)
  from n''(2) w(2) have "log (an_view n'') = log (an_view n) @ [c_cmd c, cmd]" by (simp add: n'_def)
  with h(1) hv bad [OF hv] bad show ?thesis by (intro exI conjI) (assumption | force)+
qed

theorem interrupted_leader_commit_invalid_witness:
  "\<exists>n' n'' d. auth_handle toy_ed25519 put demo_leader
       (AuthCommit \<lparr>c_slot = 0, c_cmd = demo_cmd2, c_qc = demo_qc 0 demo_cmd2\<rparr>) = Some (n', []) \<and>
     auth_handle toy_ed25519 put n' (AuthVote (cast_vote toy_ed25519 put (demo_keys ! 1) 1 demo_cmd)) =
       Some (n'', [\<lparr>ao_dest = Peers, ao_msg = AuthCommit d\<rparr>]) \<and>
     log (an_view n'') = [demo_cmd2, demo_cmd] \<and> \<not> verify_commit toy_ed25519 put d (demo_roster Crash)"
proof -
  let ?own = "cast_vote toy_ed25519 put (demo_keys ! 0) 0 demo_cmd"
  let ?late = "cast_vote toy_ed25519 put (demo_keys ! 1) 1 demo_cmd"
  let ?c = "\<lparr>c_slot = 0, c_cmd = demo_cmd2, c_qc = demo_qc 0 demo_cmd2\<rparr>"
  have l: "an_roster demo_leader = demo_roster Crash" "log (an_view demo_leader) = []"
    "auth_next_slot demo_leader = 0" "auth_is_leader demo_leader"
    "an_proposing demo_leader = Some (demo_cmd, [?own])"
    by (simp_all add: demo_leader_def demo_node_def fresh_view_def auth_next_slot_def next_slot_def auth_is_leader_def)
  have vc: "verify_commit toy_ed25519 put ?c (demo_roster Crash)"
    using demo_qc_ok [of 0 demo_cmd2 Crash] by (simp add: verify_commit_def)
  have vv: "verify_vote toy_ed25519 put ?late (0 + 1) demo_cmd (demo_roster Crash)"
    by (simp add: verify_vote_def cast_vote_def)
  have vn: "voter ?late \<notin> voter ` set [?own]" using demo_keys_neq by (simp add: cast_vote_def)
  have q: "roster_is_quorum (demo_roster Crash) (Suc (card (voter ` set [?own])))"
    by (simp add: roster_is_quorum_def quorum_reached_def) (simp add: demo_roster_def)
  have "length (log (an_view demo_leader)) + 2 < 2 ^ 32" "c_slot ?c = auth_next_slot demo_leader"
    by (simp_all add: l)
  from interrupted_leader_commit_invalid [OF demo_leader_inv l(4) this(1) l(5) _ this(2), unfolded l(1,2,3), OF vc vv vn q]
  show ?thesis by auto
qed

end
