(* ===== verification/Codec.thy ===== *)
theory Codec
  imports Auth
begin

text \<open>
  The byte format of authenticated messages (\<open>crates/dlc-d-node/src/codec.rs\<close>), on top of
  the term encoding, with its round trip and what crosses a link unchanged.
\<close>

section \<open>Helpers\<close>

text \<open>\<open>CodecPanic\<close> is the panic of a nested term decoder.\<close>

datatype codec_error = CodecError string | CodecPanic

definition protocol_display :: "protocol_error \<Rightarrow> codec_error" where
  "protocol_display e = (case e of
     Cbor s \<Rightarrow> CodecError (''cbor decode error: '' @ s)
   | Cose s \<Rightarrow> CodecError (''cose decode error: '' @ s)
   | Panicked \<Rightarrow> CodecPanic)"

definition lift_protocol :: "protocol_error + 'a \<Rightarrow> codec_error + 'a" where
  "lift_protocol r = (case r of Inl e \<Rightarrow> Inl (protocol_display e) | Inr x \<Rightarrow> Inr x)"

definition codec_array :: "string \<Rightarrow> cbor \<Rightarrow> codec_error + cbor list" where
  "codec_array ctx v = (case v of CArr a \<Rightarrow> Inr a | _ \<Rightarrow> Inl (CodecError (ctx @ '': expected array'')))"

definition codec_bytes :: "string \<Rightarrow> cbor \<Rightarrow> codec_error + bytes" where
  "codec_bytes ctx v = (case v of CBytes b \<Rightarrow> Inr b | _ \<Rightarrow> Inl (CodecError (ctx @ '': expected bytes'')))"

definition codec_u32 :: "string \<Rightarrow> cbor \<Rightarrow> codec_error + u32" where
  "codec_u32 ctx v = (case v of
     CInt i \<Rightarrow> if 0 \<le> i \<and> i < 2 ^ 32 then Inr (word_of_int i)
       else Inl (CodecError (ctx @ '': integer out of u32 range''))
   | _ \<Rightarrow> Inl (CodecError (ctx @ '': expected integer'')))"

definition fixed :: "nat \<Rightarrow> string \<Rightarrow> bytes \<Rightarrow> codec_error + bytes" where
  "fixed n ctx bs = (if length bs = n then Inr bs
     else Inl (CodecError (ctx @ '': expected '' @ show_nat n @ '' bytes, got '' @ show_nat (length bs))))"

section \<open>Commands\<close>

definition enc_command :: "(cbor \<Rightarrow> bytes) \<Rightarrow> command \<Rightarrow> cbor" where
  "enc_command cw c = (let cp = (case cap c of Some p \<Rightarrow> CBytes (encode_prop cw p) | None \<Rightarrow> CNull) in
     CArr [CBytes (encode cw (payload c)), cp])"

definition dec_command :: "(bytes \<Rightarrow> string + cbor) \<Rightarrow> cbor \<Rightarrow> codec_error + command" where
  "dec_command cr v = and_then (codec_array ''command'' v) (\<lambda>a.
     if length a \<noteq> 2 then Inl (CodecError ''command: expected [payload, cap]'')
     else and_then (codec_bytes ''command.payload'' (a ! 0)) (\<lambda>pb.
       and_then (lift_protocol (decode cr pb)) (\<lambda>t.
         and_then (case a ! 1 of
             CNull \<Rightarrow> Inr None
           | other \<Rightarrow> and_then (codec_bytes ''command.cap'' other) (\<lambda>cb.
               and_then (lift_protocol (decode_prop cr cb)) (\<lambda>p. Inr (Some p)))) (\<lambda>cp.
           Inr \<lparr>payload = t, cap = cp\<rparr>))))"

section \<open>Protocol structures\<close>

definition enc_cap :: "capability \<Rightarrow> cbor" where
  "enc_cap c = CArr [CBytes (issuer c), CBytes (cap_sig c)]"

definition dec_cap :: "cbor \<Rightarrow> codec_error + capability" where
  "dec_cap v = and_then (codec_array ''capability'' v) (\<lambda>a.
     if length a \<noteq> 2 then Inl (CodecError ''capability: expected [issuer, sig]'')
     else and_then (codec_bytes ''capability.issuer'' (a ! 0)) (\<lambda>ib.
       and_then (fixed 32 ''capability.issuer'' ib) (\<lambda>i.
         and_then (codec_bytes ''capability.sig'' (a ! 1)) (\<lambda>sb.
           and_then (fixed 64 ''capability.sig'' sb) (\<lambda>s.
             Inr \<lparr>issuer = i, cap_sig = s\<rparr>)))))"

definition enc_proposal :: "(cbor \<Rightarrow> bytes) \<Rightarrow> proposal \<Rightarrow> cbor" where
  "enc_proposal cw p = CArr [CBytes (leader p), u32_int (p_slot p), enc_command cw (p_cmd p),
     enc_cap (p_cap p), CBytes (p_sig p)]"

definition dec_proposal :: "(bytes \<Rightarrow> string + cbor) \<Rightarrow> cbor \<Rightarrow> codec_error + proposal" where
  "dec_proposal cr v = and_then (codec_array ''proposal'' v) (\<lambda>a.
     if length a \<noteq> 5 then Inl (CodecError ''proposal: expected [leader, slot, cmd, cap, sig]'')
     else and_then (codec_bytes ''proposal.leader'' (a ! 0)) (\<lambda>lb.
       and_then (fixed 32 ''proposal.leader'' lb) (\<lambda>l.
         and_then (codec_u32 ''proposal.slot'' (a ! 1)) (\<lambda>slot.
           and_then (dec_command cr (a ! 2)) (\<lambda>cmd.
             and_then (dec_cap (a ! 3)) (\<lambda>c.
               and_then (codec_bytes ''proposal.sig'' (a ! 4)) (\<lambda>sb.
                 and_then (fixed 64 ''proposal.sig'' sb) (\<lambda>s.
                   Inr \<lparr>leader = l, p_slot = slot, p_cmd = cmd, p_cap = c, p_sig = s\<rparr>))))))))"

definition enc_vote :: "vote \<Rightarrow> cbor" where
  "enc_vote v = CArr [CBytes (voter v), u32_int (v_slot v), CBytes (v_sig v)]"

definition dec_vote :: "cbor \<Rightarrow> codec_error + vote" where
  "dec_vote v = and_then (codec_array ''vote'' v) (\<lambda>a.
     if length a \<noteq> 3 then Inl (CodecError ''vote: expected [voter, slot, sig]'')
     else and_then (codec_bytes ''vote.voter'' (a ! 0)) (\<lambda>kb.
       and_then (fixed 32 ''vote.voter'' kb) (\<lambda>k.
         and_then (codec_u32 ''vote.slot'' (a ! 1)) (\<lambda>slot.
           and_then (codec_bytes ''vote.sig'' (a ! 2)) (\<lambda>sb.
             and_then (fixed 64 ''vote.sig'' sb) (\<lambda>s.
               Inr \<lparr>voter = k, v_slot = slot, v_sig = s\<rparr>))))))"

definition enc_commit :: "(cbor \<Rightarrow> bytes) \<Rightarrow> commit_msg \<Rightarrow> cbor" where
  "enc_commit cw c = (let votes = map enc_vote (qc_votes (c_qc c)) in
     CArr [u32_int (c_slot c), enc_command cw (c_cmd c), CArr votes])"

definition dec_commit :: "(bytes \<Rightarrow> string + cbor) \<Rightarrow> cbor \<Rightarrow> codec_error + commit_msg" where
  "dec_commit cr v = and_then (codec_array ''commit'' v) (\<lambda>a.
     if length a \<noteq> 3 then Inl (CodecError ''commit: expected [slot, cmd, votes]'')
     else and_then (codec_array ''commit.votes'' (a ! 2)) (\<lambda>vs.
       and_then (collect_results dec_vote vs) (\<lambda>votes.
         and_then (codec_u32 ''commit.slot'' (a ! 0)) (\<lambda>slot.
           and_then (dec_command cr (a ! 1)) (\<lambda>cmd.
             Inr \<lparr>c_slot = slot, c_cmd = cmd, c_qc = \<lparr>qc_votes = votes\<rparr>\<rparr>)))))"

section \<open>Messages\<close>

definition enc_msg :: "(cbor \<Rightarrow> bytes) \<Rightarrow> auth_msg \<Rightarrow> cbor" where
  "enc_msg cw m = (case m of
     AuthPropose p \<Rightarrow> CArr [CInt 0, enc_proposal cw p]
   | AuthVote v \<Rightarrow> CArr [CInt 1, enc_vote v]
   | AuthCommit c \<Rightarrow> CArr [CInt 2, enc_commit cw c])"

definition encode_msg :: "(cbor \<Rightarrow> bytes) \<Rightarrow> auth_msg \<Rightarrow> bytes" where
  "encode_msg cw m = cw (enc_msg cw m)"

definition dec_msg :: "(bytes \<Rightarrow> string + cbor) \<Rightarrow> cbor \<Rightarrow> codec_error + auth_msg" where
  "dec_msg cr v = and_then (codec_array ''authmsg'' v) (\<lambda>a.
     if length a \<noteq> 2 then Inl (CodecError ''authmsg: expected [tag, body]'')
     else and_then (codec_u32 ''authmsg.tag'' (a ! 0)) (\<lambda>t.
       if t = 0 then and_then (dec_proposal cr (a ! 1)) (\<lambda>p. Inr (AuthPropose p))
       else if t = 1 then and_then (dec_vote (a ! 1)) (\<lambda>v. Inr (AuthVote v))
       else if t = 2 then and_then (dec_commit cr (a ! 1)) (\<lambda>c. Inr (AuthCommit c))
       else Inl (CodecError (''authmsg: unknown tag '' @ show_nat (unat t)))))"

definition decode_msg :: "(bytes \<Rightarrow> string + cbor) \<Rightarrow> bytes \<Rightarrow> codec_error + auth_msg" where
  "decode_msg cr bs = (case cr bs of Inl e \<Rightarrow> Inl (CodecError e) | Inr v \<Rightarrow> dec_msg cr v)"

section \<open>Round trips\<close>

lemma codec_simps [simp]:
  "codec_array ctx (CArr a) = Inr a"
  "codec_bytes ctx (CBytes b) = Inr b"
  "lift_protocol (Inr x) = Inr x"
  "length bs = n \<Longrightarrow> fixed n ctx bs = Inr bs"
  by (simp_all add: codec_array_def codec_bytes_def lift_protocol_def fixed_def)

lemma codec_u32_int [simp]: "codec_u32 ctx (u32_int n) = Inr n"
  using uint_bounded [of n] by (simp add: codec_u32_def u32_int_def)

definition wf_cap :: "capability \<Rightarrow> bool" where
  "wf_cap c \<longleftrightarrow> length (issuer c) = 32 \<and> length (cap_sig c) = 64"

definition wf_vote :: "vote \<Rightarrow> bool" where
  "wf_vote v \<longleftrightarrow> length (voter v) = 32 \<and> length (v_sig v) = 64"

text \<open>What the Rust types guarantee of a message, and that its terms are shallow enough.\<close>

definition wf_msg :: "nat \<Rightarrow> auth_msg \<Rightarrow> bool" where
  "wf_msg limit m \<longleftrightarrow> (case m of
     AuthPropose p \<Rightarrow> length (leader p) = 32 \<and> length (p_sig p) = 64 \<and> wf_cap (p_cap p) \<and>
       wf_command (p_cmd p) \<and> shallow limit (p_cmd p)
   | AuthVote v \<Rightarrow> wf_vote v
   | AuthCommit c \<Rightarrow> wf_command (c_cmd c) \<and> shallow limit (c_cmd c) \<and>
       (\<forall>v \<in> set (qc_votes (c_qc c)). wf_vote v))"

lemma dec_command_enc:
  assumes "cbor_codec cw cr limit" "wf_command c" "shallow limit c"
  shows "dec_command cr (enc_command cw c) = Inr c"
proof -
  have "decode cr (encode cw (payload c)) = Inr (payload c)"
    using assms by (intro decode_encode) (auto simp: wf_command_def shallow_def)
  moreover have "decode_prop cr (encode_prop cw p) = Inr p" if "cap c = Some p" for p
    using assms that by (intro decode_encode_prop) (auto simp: wf_command_def shallow_def)
  ultimately show ?thesis
    by (cases "cap c") (auto simp: dec_command_def enc_command_def Let_def)
qed

lemma dec_cap_enc: "wf_cap c \<Longrightarrow> dec_cap (enc_cap c) = Inr c"
  by (simp add: dec_cap_def enc_cap_def wf_cap_def)

lemma dec_vote_enc: "wf_vote v \<Longrightarrow> dec_vote (enc_vote v) = Inr v"
  by (simp add: dec_vote_def enc_vote_def wf_vote_def)

interpretation cap_codec: codec enc_cap dec_cap wf_cap
  by unfold_locales (rule dec_cap_enc)

interpretation vote_codec: codec enc_vote dec_vote wf_vote
  by unfold_locales (rule dec_vote_enc)

lemma dec_msg_enc:
  assumes "cbor_codec cw cr limit" "wf_msg limit m"
  shows "dec_msg cr (enc_msg cw m) = Inr m"
proof (cases m)
  case (AuthPropose p)
  with assms(2) dec_command_enc [OF assms(1), of "p_cmd p"] show ?thesis
    by (simp add: dec_msg_def enc_msg_def wf_msg_def dec_proposal_def enc_proposal_def
        dec_cap_enc codec_u32_def [of "''authmsg.tag''"])
next
  case (AuthVote v)
  with assms(2) show ?thesis
    by (simp add: dec_msg_def enc_msg_def wf_msg_def dec_vote_enc codec_u32_def [of "''authmsg.tag''"])
next
  case (AuthCommit c)
  with assms(2) dec_command_enc [OF assms(1), of "c_cmd c"] show ?thesis
    by (simp add: dec_msg_def enc_msg_def wf_msg_def dec_commit_def enc_commit_def Let_def
        vote_codec.dec_enc_list codec_u32_def [of "''authmsg.tag''"])
qed

lemma plain_msg: "plain (enc_msg cw m)"
  by (cases m) (auto simp: enc_msg_def enc_proposal_def enc_vote_def enc_commit_def enc_command_def
      enc_cap_def Let_def split: option.splits)

lemma cdepth_msg: "cdepth (enc_msg cw m) \<le> 4"
proof -
  have "cdepth (enc_msg cw m) \<le> Suc (Suc (Suc (Suc 0)))"
    by (cases m) (auto simp: enc_msg_def enc_proposal_def enc_vote_def enc_commit_def enc_command_def
        enc_cap_def Let_def u32_int_def simp del: cdepth.simps(4) split: option.splits)
  then show ?thesis by simp
qed

lemma decode_encoded_msg:
  assumes "cbor_codec cw cr limit" "4 \<le> limit" "wf_msg limit m"
  shows "decode_msg cr (encode_msg cw m) = Inr m"
  unfolding decode_msg_def encode_msg_def
  using dec_msg_enc [OF assms(1,3)] cbor_codecD [OF assms(1) plain_msg order_trans [OF cdepth_msg assms(2)]]
  by simp

section \<open>Properties\<close>

text \<open>C31: a message survives the link: decoding the bytes of a proposal, a vote or a commit gives
  it back, for every message whose terms nest no deeper than the CBOR reader allows.\<close>

theorem message_roundtrip:
  assumes "cbor_codec cw cr limit" "4 \<le> limit" "wf_msg limit m"
  shows "decode_msg cr (encode_msg cw m) = Inr m"
  by (rule decode_encoded_msg [OF assms])

theorem message_roundtrip_witness:
  "decode_msg (toy_read 256) (encode_msg put
     (AuthCommit \<lparr>c_slot = 0, c_cmd = demo_cmd, c_qc = \<lparr>qc_votes = [\<lparr>voter = replicate 32 1,
        v_slot = 0, v_sig = replicate 64 2\<rparr>]\<rparr>\<rparr>)) =
   Inr (AuthCommit \<lparr>c_slot = 0, c_cmd = demo_cmd, c_qc = \<lparr>qc_votes = [\<lparr>voter = replicate 32 1,
        v_slot = 0, v_sig = replicate 64 2\<rparr>]\<rparr>\<rparr>)"
  by (rule message_roundtrip [OF toy_codec])
    (simp_all add: wf_msg_def wf_vote_def wf_command_def shallow_def demo_cmd_def u32_int_def)

text \<open>A malformed frame is not always rejected with an error.  Whatever else a proposal
  carries, a payload whose bytes read as an empty array makes the decoder of the message panic.\<close>

theorem malformed_frame_panics:
  assumes "cr frame = Inr (CArr [CInt 0, CArr [CBytes l, CInt (uint (slot :: u32)),
     CArr [CBytes pb, c], a, s]])" "length l = 32" "cr pb = Inr (CArr [])"
  shows "decode_msg cr frame = Inl CodecPanic"
  using assms codec_u32_int [unfolded u32_int_def, of "''proposal.slot''" slot]
  by (simp add: decode_msg_def dec_msg_def dec_proposal_def dec_command_def decode_def dec_term.simps
      lift_protocol_def protocol_display_def codec_u32_def [of "''authmsg.tag''"])

theorem malformed_frame_panics_witness:
  "decode_msg (toy_read 256) (put (CArr [CInt 0, CArr [CBytes (replicate 32 0), CInt (uint (1 :: u32)),
     CArr [CBytes (put (CArr [])), CNull], CNull, CNull]])) = Inl CodecPanic"
proof (rule malformed_frame_panics)
  show "toy_read 256 (put (CArr [CInt 0, CArr [CBytes (replicate 32 0), CInt (uint (1 :: u32)),
      CArr [CBytes (put (CArr [])), CNull], CNull, CNull]])) =
    Inr (CArr [CInt 0, CArr [CBytes (replicate 32 0), CInt (uint (1 :: u32)),
      CArr [CBytes (put (CArr [])), CNull], CNull, CNull]])"
    by (rule cbor_codecD [OF toy_codec]) (simp_all add: numeral_eq_Suc del: cdepth.simps(4))
  show "toy_read 256 (put (CArr [])) = Inr (CArr [])"
    by (rule cbor_codecD [OF toy_codec]) simp_all
qed simp

end
