(* ===== verification/Node.thy ===== *)
theory Node
  imports View Consensus "HOL-Library.Sublist"
begin

text \<open>
  The crash-fault replica (\<open>crates/dlc-d-node/src/lib.rs\<close>): its state and handlers, the
  assembly of node views, and clusters of nodes over a network that may lose,
  delay, duplicate and reorder messages.  \<open>None\<close> is a panic.
\<close>

section \<open>Messages and state\<close>

datatype msg =
    Propose u32 command
  | Vote u32 u32 command
  | Commit u32 command

record out =
  o_dest :: dest
  o_msg :: msg

record node =
  nd_id :: u32
  nd_leader :: u32
  nd_cluster :: u32
  nd_view :: global_config
  nd_ballot :: votes
  nd_proposing :: "command option"

definition node_new :: "u32 \<Rightarrow> u32 \<Rightarrow> u32 \<Rightarrow> trm \<Rightarrow> failure_budget \<Rightarrow> node" where
  "node_new i cluster ldr init bud =
     \<lparr>nd_id = i, nd_leader = ldr, nd_cluster = cluster,
      nd_view = \<lparr>replicas = [\<lparr>rid = i, store = init, applied = 0\<rparr>], log = [], budget = bud\<rparr>,
      nd_ballot = replicate (unat cluster) None, nd_proposing = None\<rparr>"

definition node_is_leader :: "node \<Rightarrow> bool" where
  "node_is_leader n \<longleftrightarrow> nd_id n = nd_leader n"

definition node_next_slot :: "node \<Rightarrow> u32" where
  "node_next_slot n = next_slot (nd_view n)"

section \<open>Handlers\<close>

definition node_apply_commit :: "node \<Rightarrow> command \<Rightarrow> node option" where
  "node_apply_commit n cmd =
     map_option (\<lambda>w. n\<lparr>nd_view := w\<rparr>) (apply_commit_view (nd_view n) cmd)"

definition decide_if_quorum :: "node \<Rightarrow> u32 \<Rightarrow> command \<Rightarrow> (node \<times> out list) option" where
  "decide_if_quorum n slot cmd =
     (if \<not> decided (nd_ballot n) cmd then Some (n, [])
      else let n1 = n\<lparr>nd_proposing := None, nd_ballot := replicate (unat (nd_cluster n)) None\<rparr> in
        map_option (\<lambda>n2. (n2, [\<lparr>o_dest = Peers, o_msg = Commit slot cmd\<rparr>]))
          (node_apply_commit n1 cmd))"

definition node_submit :: "node \<Rightarrow> command \<Rightarrow> (node \<times> out list) option" where
  "node_submit n cmd =
     (if \<not> node_is_leader n \<or> nd_proposing n \<noteq> None then Some (n, [])
      else let slot = node_next_slot n; ballot = replicate (unat (nd_cluster n)) None in
        if unat (nd_id n) \<ge> length ballot then None
        else let n1 = n\<lparr>nd_ballot := ballot[unat (nd_id n) := Some cmd], nd_proposing := Some cmd\<rparr> in
          map_option (\<lambda>(n2, outs). (n2, \<lparr>o_dest = Peers, o_msg = Propose slot cmd\<rparr> # outs))
            (decide_if_quorum n1 slot cmd))"

definition node_handle :: "node \<Rightarrow> msg \<Rightarrow> (node \<times> out list) option" where
  "node_handle n m = (case m of
     Propose slot cmd \<Rightarrow>
       if slot \<noteq> node_next_slot n then Some (n, [])
       else Some (n, [\<lparr>o_dest = To (nd_leader n), o_msg = Vote slot (nd_id n) cmd\<rparr>])
   | Vote slot src cmd \<Rightarrow>
       if \<not> node_is_leader n \<or> slot \<noteq> node_next_slot n then Some (n, [])
       else let n1 = (if unat src < length (nd_ballot n)
             then n\<lparr>nd_ballot := (nd_ballot n)[unat src := Some cmd]\<rparr> else n) in
         decide_if_quorum n1 slot cmd
   | Commit slot cmd \<Rightarrow>
       if slot \<noteq> node_next_slot n then Some (n, [])
       else map_option (\<lambda>n1. (n1, [])) (node_apply_commit n cmd))"

definition assemble :: "global_config list \<Rightarrow> global_config option" where
  "assemble views = (case views of
     [] \<Rightarrow> None
   | v # vs \<Rightarrow> Some \<lparr>replicas = concat (map replicas views), log = log v, budget = budget v\<rparr>)"

section \<open>Clusters\<close>

text \<open>
  A cluster is its nodes, every message sent so far with its sender and
  destination, and every command a client has submitted.  A message may be
  delivered any number of times, in any order, or never: a crashed node is one
  that takes no further step.
\<close>

record cluster =
  nodes :: "node list"
  sent :: "(nat \<times> out) set"
  submitted :: "command set"

definition addressed :: "nat \<Rightarrow> dest \<Rightarrow> nat \<Rightarrow> bool" where
  "addressed sender d j \<longleftrightarrow> (case d of Peers \<Rightarrow> j \<noteq> sender | To k \<Rightarrow> unat k = j)"

inductive cluster_step :: "cluster \<Rightarrow> cluster \<Rightarrow> bool" where
  client: "i < length (nodes c) \<Longrightarrow> length (log (nd_view (nodes c ! i))) + 1 < 2 ^ 32 \<Longrightarrow>
    node_submit (nodes c ! i) cmd = Some (n, outs) \<Longrightarrow>
    cluster_step c \<lparr>nodes = (nodes c)[i := n], sent = sent c \<union> Pair i ` set outs,
      submitted = insert cmd (submitted c)\<rparr>"
| deliver_msg: "(i, out) \<in> sent c \<Longrightarrow> j < length (nodes c) \<Longrightarrow> addressed i (o_dest out) j \<Longrightarrow>
    length (log (nd_view (nodes c ! j))) + 1 < 2 ^ 32 \<Longrightarrow>
    node_handle (nodes c ! j) (o_msg out) = Some (n, outs) \<Longrightarrow>
    cluster_step c \<lparr>nodes = (nodes c)[j := n], sent = sent c \<union> Pair j ` set outs,
      submitted = submitted c\<rparr>"

definition cluster_start :: "nat \<Rightarrow> nat \<Rightarrow> trm \<Rightarrow> failure_budget \<Rightarrow> cluster" where
  "cluster_start sz ldr init bud =
     \<lparr>nodes = map (\<lambda>i. node_new (of_nat i) (of_nat sz) (of_nat ldr) init bud) [0..<sz],
      sent = {}, submitted = {}\<rparr>"

inductive cluster_reach :: "nat \<Rightarrow> nat \<Rightarrow> trm \<Rightarrow> failure_budget \<Rightarrow> cluster \<Rightarrow> bool"
  for sz ldr init bud where
  at_start: "cluster_reach sz ldr init bud (cluster_start sz ldr init bud)"
| later: "cluster_reach sz ldr init bud c \<Longrightarrow> cluster_step c d \<Longrightarrow>
    cluster_reach sz ldr init bud d"

section \<open>What a handler does\<close>

definition node_ok :: "trm \<Rightarrow> nat \<Rightarrow> nat \<Rightarrow> nat \<Rightarrow> node \<Rightarrow> bool" where
  "node_ok init sz ldr i n \<longleftrightarrow> nd_id n = of_nat i \<and> nd_leader n = of_nat ldr \<and>
     nd_cluster n = of_nat sz \<and> length (nd_ballot n) = sz \<and> view_ok init (nd_id n) (nd_view n)"

definition ballot_in :: "command set \<Rightarrow> node \<Rightarrow> bool" where
  "ballot_in S n \<longleftrightarrow> (\<forall>cmd. Some cmd \<in> set (nd_ballot n) \<longrightarrow> cmd \<in> S)"

definition out_in :: "command set \<Rightarrow> out \<Rightarrow> bool" where
  "out_in S out \<longleftrightarrow> (case o_msg out of
     Propose slot cmd \<Rightarrow> cmd \<in> S | Vote slot src cmd \<Rightarrow> cmd \<in> S | Commit slot cmd \<Rightarrow> cmd \<in> S)"

lemma decide_ok:
  assumes "node_ok init sz ldr i n" "ballot_in S n" "cmd \<in> S" "sz < 2 ^ 31"
    "length (log (nd_view n)) + 1 < 2 ^ 32"
  shows "\<exists>n' outs. decide_if_quorum n slot cmd = Some (n', outs) \<and> node_ok init sz ldr i n' \<and>
    ballot_in S n' \<and>
    ((outs = [] \<and> log (nd_view n') = log (nd_view n)) \<or>
     (outs = [\<lparr>o_dest = Peers, o_msg = Commit slot cmd\<rparr>] \<and>
      log (nd_view n') = log (nd_view n) @ [cmd]))"
proof (cases "decided (nd_ballot n) cmd")
  case False
  with assms show ?thesis by (simp add: decide_if_quorum_def)
next
  case True
  from assms(1) have "view_ok init (nd_id n) (nd_view n)" unfolding node_ok_def by blast
  from apply_commit_view_ok [OF this assms(5), of cmd] obtain w where
    "apply_commit_view (nd_view n) cmd = Some w" "view_ok init (nd_id n) w"
    "log w = log (nd_view n) @ [cmd]" by blast
  with True assms show ?thesis
    by (auto simp: decide_if_quorum_def node_apply_commit_def node_ok_def ballot_in_def unat_u32_small)
qed

text \<open>A step either leaves the log alone, or is the leader's decision, or obeys a commit.\<close>

definition quiet :: "node \<Rightarrow> node \<Rightarrow> out list \<Rightarrow> bool" where
  "quiet n n' outs \<longleftrightarrow> log (nd_view n') = log (nd_view n) \<and>
     (\<forall>out s c. out \<in> set outs \<longrightarrow> o_msg out \<noteq> Commit s c)"

definition decides :: "command set \<Rightarrow> node \<Rightarrow> node \<Rightarrow> out list \<Rightarrow> bool" where
  "decides S n n' outs \<longleftrightarrow> node_is_leader n \<and> (\<exists>cmd \<in> S. log (nd_view n') = log (nd_view n) @ [cmd] \<and>
     (\<forall>out s c. out \<in> set outs \<longrightarrow> o_msg out = Commit s c \<longrightarrow>
        o_dest out = Peers \<and> s = node_next_slot n \<and> c = cmd))"

definition obeys :: "msg \<Rightarrow> node \<Rightarrow> node \<Rightarrow> out list \<Rightarrow> bool" where
  "obeys m n n' outs \<longleftrightarrow> (\<exists>cmd. m = Commit (node_next_slot n) cmd \<and>
     log (nd_view n') = log (nd_view n) @ [cmd] \<and> outs = [])"

definition msg_in :: "command set \<Rightarrow> msg \<Rightarrow> bool" where
  "msg_in S m \<longleftrightarrow> (case m of
     Propose slot cmd \<Rightarrow> cmd \<in> S | Vote slot src cmd \<Rightarrow> cmd \<in> S | Commit slot cmd \<Rightarrow> cmd \<in> S)"

lemma out_in_msg: "out_in S out \<longleftrightarrow> msg_in S (o_msg out)"
  by (simp add: out_in_def msg_in_def)

lemma set_update_Some: "Some c \<in> set (xs[i := Some d]) \<Longrightarrow> c = d \<or> Some c \<in> set xs"
  using set_update_subset_insert [of xs i "Some d"] by auto

lemma node_handle_ok:
  assumes "node_ok init sz ldr i n" "ballot_in S n" "msg_in S m" "sz < 2 ^ 31"
    "length (log (nd_view n)) + 1 < 2 ^ 32"
  shows "\<exists>n' outs. node_handle n m = Some (n', outs) \<and> node_ok init sz ldr i n' \<and> ballot_in S n' \<and>
    (\<forall>out \<in> set outs. msg_in S (o_msg out)) \<and>
    (quiet n n' outs \<or> decides S n n' outs \<or> obeys m n n' outs)"
proof (cases m)
  case (Propose slot cmd)
  with assms show ?thesis by (auto simp: node_handle_def quiet_def msg_in_def)
next
  case (Vote slot src cmd)
  show ?thesis
  proof (cases "node_is_leader n \<and> slot = node_next_slot n")
    case False
    with Vote assms show ?thesis by (auto simp: node_handle_def quiet_def)
  next
    case True
    define n1 where "n1 = (if unat src < length (nd_ballot n)
      then n\<lparr>nd_ballot := (nd_ballot n)[unat src := Some cmd]\<rparr> else n)"
    from Vote assms(3) have cmd: "cmd \<in> S" by (simp add: msg_in_def)
    with assms(1,2) have n1: "node_ok init sz ldr i n1" "ballot_in S n1" "nd_view n1 = nd_view n"
      by (auto simp: n1_def node_ok_def ballot_in_def dest: set_update_Some)
    from decide_ok [OF n1(1,2) cmd assms(4), of slot] assms(5) n1(3)
    obtain n' outs where d: "decide_if_quorum n1 slot cmd = Some (n', outs)" "node_ok init sz ldr i n'"
      "ballot_in S n'" "(outs = [] \<and> log (nd_view n') = log (nd_view n)) \<or>
        (outs = [\<lparr>o_dest = Peers, o_msg = Commit slot cmd\<rparr>] \<and>
         log (nd_view n') = log (nd_view n) @ [cmd])" by auto
    from d(4) True cmd have "quiet n n' outs \<or> decides S n n' outs"
      by (auto simp: quiet_def decides_def)
    moreover have "\<forall>out \<in> set outs. msg_in S (o_msg out)" using d(4) cmd by (auto simp: msg_in_def)
    moreover have "node_handle n m = Some (n', outs)"
      using Vote True d(1) by (simp add: node_handle_def n1_def Let_def)
    ultimately show ?thesis using d(2,3) by blast
  qed
next
  case (Commit slot cmd)
  from assms(1) have "view_ok init (nd_id n) (nd_view n)" unfolding node_ok_def by blast
  from apply_commit_view_ok [OF this assms(5), of cmd] obtain w where
    "apply_commit_view (nd_view n) cmd = Some w" "view_ok init (nd_id n) w"
    "log w = log (nd_view n) @ [cmd]" by blast
  with Commit assms(1,2) show ?thesis
    by (cases "slot = node_next_slot n")
      (auto simp: node_handle_def node_apply_commit_def node_ok_def ballot_in_def obeys_def quiet_def)
qed

lemma node_submit_ok:
  assumes "node_ok init sz ldr i n" "ballot_in S n" "cmd \<in> S" "sz < 2 ^ 31" "i < sz"
    "length (log (nd_view n)) + 1 < 2 ^ 32"
  shows "\<exists>n' outs. node_submit n cmd = Some (n', outs) \<and> node_ok init sz ldr i n' \<and> ballot_in S n' \<and>
    (\<forall>out \<in> set outs. msg_in S (o_msg out)) \<and> (quiet n n' outs \<or> decides S n n' outs)"
proof (cases "node_is_leader n \<and> nd_proposing n = None")
  case False
  with assms show ?thesis by (auto simp: node_submit_def quiet_def)
next
  case True
  let ?slot = "node_next_slot n"
  define n1 where "n1 = n\<lparr>nd_ballot := (replicate sz None)[i := Some cmd], nd_proposing := Some cmd\<rparr>"
  have u: "unat (nd_cluster n) = sz" "unat (nd_id n) = i"
    using assms(1,4,5) by (simp_all add: node_ok_def unat_u32_small)
  have n1: "node_ok init sz ldr i n1" "ballot_in S n1" "nd_view n1 = nd_view n"
    using assms(1,3) by (auto simp: n1_def node_ok_def ballot_in_def dest!: set_update_Some)
  from decide_ok [OF n1(1,2) assms(3,4), of ?slot] assms(6) n1(3)
  obtain n' outs where d: "decide_if_quorum n1 ?slot cmd = Some (n', outs)" "node_ok init sz ldr i n'"
    "ballot_in S n'" "(outs = [] \<and> log (nd_view n') = log (nd_view n)) \<or>
      (outs = [\<lparr>o_dest = Peers, o_msg = Commit ?slot cmd\<rparr>] \<and>
       log (nd_view n') = log (nd_view n) @ [cmd])" by auto
  let ?outs = "\<lparr>o_dest = Peers, o_msg = Propose ?slot cmd\<rparr> # outs"
  from d(4) True assms(3) have "quiet n n' ?outs \<or> decides S n n' ?outs"
    by (auto simp: quiet_def decides_def)
  moreover have "\<forall>out \<in> set ?outs. msg_in S (o_msg out)" using d(4) assms(3) by (auto simp: msg_in_def)
  moreover have "node_submit n cmd = Some (n', ?outs)"
    using True d(1) u assms(5) by (simp add: node_submit_def n1_def Let_def)
  ultimately show ?thesis using d(2,3) by blast
qed

section \<open>The invariant of a cluster\<close>

definition log_of :: "cluster \<Rightarrow> nat \<Rightarrow> command list" where
  "log_of c i = log (nd_view (nodes c ! i))"

text \<open>A commit on the network comes from the leader and repeats an entry of its log.\<close>

definition commit_ok :: "nat \<Rightarrow> command list \<Rightarrow> nat \<Rightarrow> out \<Rightarrow> bool" where
  "commit_ok ldr lg i out \<longleftrightarrow> (\<forall>s cmd. o_msg out = Commit s cmd \<longrightarrow>
     i = ldr \<and> o_dest out = Peers \<and> unat s < length lg \<and> lg ! unat s = cmd)"

definition cluster_inv :: "trm \<Rightarrow> nat \<Rightarrow> nat \<Rightarrow> cluster \<Rightarrow> bool" where
  "cluster_inv init sz ldr c \<longleftrightarrow> length (nodes c) = sz \<and>
     (\<forall>i < sz. node_ok init sz ldr i (nodes c ! i) \<and> ballot_in (submitted c) (nodes c ! i) \<and>
        prefix (log_of c i) (log_of c ldr)) \<and>
     set (log_of c ldr) \<subseteq> submitted c \<and>
     (\<forall>(i, out) \<in> sent c. msg_in (submitted c) (o_msg out) \<and> commit_ok ldr (log_of c ldr) i out)"

lemma cluster_start_inv:
  assumes "sz < 2 ^ 31" "ldr < sz"
  shows "cluster_inv init sz ldr (cluster_start sz ldr init bud)"
proof -
  have "node_ok init sz ldr i (node_new (of_nat i) (of_nat sz) (of_nat ldr) init bud)" for i
    using assms(1) by (simp add: node_ok_def node_new_def view_ok_def unat_u32_small)
  moreover have "ballot_in {} (node_new (of_nat i) (of_nat sz) (of_nat ldr) init bud)" for i
    by (auto simp: ballot_in_def node_new_def)
  ultimately show ?thesis
    using assms(2) by (simp add: cluster_inv_def cluster_start_def log_of_def) (simp add: node_new_def)
qed

text \<open>
  The effect of one node's step on the invariant: the commands it knew may have
  grown to \<open>S\<close>, its log is as the step says, and what it sent is added.
\<close>

lemma cluster_inv_update:
  assumes inv: "cluster_inv init sz ldr c" and "ldr < sz" "j < sz" "submitted c \<subseteq> S"
    and n: "node_ok init sz ldr j n" "ballot_in S n"
    and outs: "\<forall>out \<in> set outs. msg_in S (o_msg out)"
    and mine: "prefix (log_of c j) (log (nd_view n))"
    and lead: "j = ldr \<Longrightarrow> set (log (nd_view n)) \<subseteq> S"
    and follow: "j \<noteq> ldr \<Longrightarrow> prefix (log (nd_view n)) (log_of c ldr)"
    and commits: "\<forall>out \<in> set outs. commit_ok ldr (if j = ldr then log (nd_view n) else log_of c ldr) j out"
  shows "cluster_inv init sz ldr \<lparr>nodes = (nodes c)[j := n], sent = sent c \<union> Pair j ` set outs, submitted = S\<rparr>"
proof -
  let ?d = "\<lparr>nodes = (nodes c)[j := n], sent = sent c \<union> Pair j ` set outs, submitted = S\<rparr>"
  have len: "length (nodes c) = sz" using inv by (simp add: cluster_inv_def)
  have logs: "log_of ?d i = (if i = j then log (nd_view n) else log_of c i)" if "i < sz" for i
    using that len by (simp add: log_of_def)
  have ldr: "prefix (log_of c ldr) (log_of ?d ldr)" using mine logs [OF assms(2)] by simp
  have pre: "prefix (log_of ?d i) (log_of ?d ldr)" if "i < sz" for i
  proof (cases "i = j")
    case True
    with follow ldr logs [OF that] logs [OF assms(2)] show ?thesis by (cases "j = ldr") auto
  next
    case False
    with inv that have "prefix (log_of c i) (log_of c ldr)" by (simp add: cluster_inv_def)
    with False ldr logs [OF that] show ?thesis by (auto intro: prefix_order.trans)
  qed
  have mono: "ballot_in S m" if "ballot_in (submitted c) m" for m
    using that assms(4) by (auto simp: ballot_in_def)
  have msg: "msg_in S m" if "msg_in (submitted c) m" for m
    using that assms(4) by (cases m) (auto simp: msg_in_def)
  have com: "commit_ok ldr (log_of ?d ldr) i out" if "commit_ok ldr (log_of c ldr) i out" for i out
    using that ldr by (auto simp: commit_ok_def prefix_def nth_append)
  have sub: "set (log_of ?d ldr) \<subseteq> S"
    using inv assms(4) lead logs [OF assms(2)] by (auto simp: cluster_inv_def)
  have new: "\<forall>out \<in> set outs. commit_ok ldr (log_of ?d ldr) j out"
    using commits logs [OF assms(2)] by auto
  have nodes: "node_ok init sz ldr i (nodes ?d ! i) \<and> ballot_in S (nodes ?d ! i)" if "i < sz" for i
    using inv n mono that len by (cases "i = j") (auto simp: cluster_inv_def)
  show ?thesis
    using inv len pre sub nodes new com msg outs by (fastforce simp: cluster_inv_def)
qed

lemma leader_iff:
  assumes "node_ok init sz ldr i n" "sz < 2 ^ 31" "i < sz" "ldr < sz"
  shows "node_is_leader n \<longleftrightarrow> i = ldr"
proof -
  from assms have "i < 2 ^ 31" "ldr < 2 ^ 31" by linarith+
  then have "(of_nat i :: u32) = of_nat ldr \<longleftrightarrow> i = ldr" by (metis unat_u32_small)
  with assms(1) show ?thesis by (simp add: node_ok_def node_is_leader_def)
qed

lemma cluster_inv_step:
  assumes "cluster_step c d" "cluster_inv init sz ldr c" "sz < 2 ^ 31" "ldr < sz"
  shows "cluster_inv init sz ldr d"
  using assms(1,2)
proof (induction rule: cluster_step.induct)
  case (client i c cmd n outs)
  from client.prems client.hyps(1) have i: "i < sz" "prefix (log_of c i) (log_of c ldr)"
    "set (log_of c ldr) \<subseteq> submitted c"
    and ok: "node_ok init sz ldr i (nodes c ! i)" and b: "ballot_in (submitted c) (nodes c ! i)"
    by (auto simp: cluster_inv_def)
  let ?S = "insert cmd (submitted c)"
  from b have "ballot_in ?S (nodes c ! i)" by (auto simp: ballot_in_def)
  from node_submit_ok [OF ok this _ assms(3) i(1) client.hyps(2), of cmd] client.hyps(3)
  have n: "node_ok init sz ldr i n" "ballot_in ?S n" "\<forall>out \<in> set outs. msg_in ?S (o_msg out)"
    "quiet (nodes c ! i) n outs \<or> decides ?S (nodes c ! i) n outs" by auto
  note lead = leader_iff [OF ok assms(3) i(1) assms(4)]
  show ?case
    by (rule cluster_inv_update [OF client.prems assms(4) i(1) _ n(1-3)])
      (use n(4) i lead client.hyps(2) in
        \<open>auto simp: quiet_def decides_def log_of_def commit_ok_def node_next_slot_def next_slot_eq\<close>)
next
  case (deliver_msg i out c j n outs)
  from deliver_msg.prems deliver_msg.hyps(1,2) have j: "j < sz" "prefix (log_of c j) (log_of c ldr)"
    "set (log_of c ldr) \<subseteq> submitted c"
    and ok: "node_ok init sz ldr j (nodes c ! j)" and b: "ballot_in (submitted c) (nodes c ! j)"
    and m: "msg_in (submitted c) (o_msg out)" "commit_ok ldr (log_of c ldr) i out"
    by (auto simp: cluster_inv_def)
  from node_handle_ok [OF ok b m(1) assms(3) deliver_msg.hyps(4)] deliver_msg.hyps(5)
  have n: "node_ok init sz ldr j n" "ballot_in (submitted c) n"
    "\<forall>out \<in> set outs. msg_in (submitted c) (o_msg out)"
    "quiet (nodes c ! j) n outs \<or> decides (submitted c) (nodes c ! j) n outs \<or>
      obeys (o_msg out) (nodes c ! j) n outs" by auto
  note lead = leader_iff [OF ok assms(3) j(1) assms(4)]
  have ob: "j \<noteq> ldr \<and> prefix (log (nd_view n)) (log_of c ldr)" if "obeys (o_msg out) (nodes c ! j) n outs"
  proof -
    from that obtain cmd where o: "o_msg out = Commit (node_next_slot (nodes c ! j)) cmd"
      "log (nd_view n) = log_of c j @ [cmd]" by (auto simp: obeys_def log_of_def)
    with m(2) deliver_msg.hyps(3,4) have "j \<noteq> ldr" "length (log_of c j) < length (log_of c ldr)"
      "log_of c ldr ! length (log_of c j) = cmd"
      by (auto simp: commit_ok_def addressed_def node_next_slot_def next_slot_eq log_of_def)
    with o(2) j(2) show ?thesis by (auto simp: prefix_def nth_append) (metis append_Cons append_Nil list.exhaust nth_Cons_0)
  qed
  show ?case
    by (rule cluster_inv_update [OF deliver_msg.prems assms(4) j(1) _ n(1-3)])
      (use n(4) j lead deliver_msg.hyps(4) ob in
        \<open>auto simp: quiet_def decides_def obeys_def log_of_def commit_ok_def node_next_slot_def next_slot_eq\<close>)
qed

lemma cluster_reach_inv:
  "cluster_reach sz ldr init bud c \<Longrightarrow> sz < 2 ^ 31 \<Longrightarrow> ldr < sz \<Longrightarrow> cluster_inv init sz ldr c"
  by (induction rule: cluster_reach.induct) (auto intro: cluster_start_inv cluster_inv_step)

section \<open>Assembling views\<close>

lemma assemble_simp:
  "vs \<noteq> [] \<Longrightarrow> assemble vs = Some \<lparr>replicas = concat (map replicas vs), log = log (hd vs), budget = budget (hd vs)\<rparr>"
  by (cases vs) (simp_all add: assemble_def)

section \<open>Properties\<close>

text \<open>C15: agreement and validity of a crash-fault cluster.  Over a network that loses,
  duplicates and reorders, any two logs are prefixes of one another, every entry was
  submitted by a client, and each store is the fold of its node's log.\<close>

theorem cluster_agreement:
  assumes "cluster_reach sz ldr init bud c" "sz < 2 ^ 31" "ldr < sz" "i < sz" "j < sz"
  shows "(prefix (log_of c i) (log_of c j) \<or> prefix (log_of c j) (log_of c i)) \<and>
    set (log_of c i) \<subseteq> submitted c \<and>
    map store (replicas (nd_view (nodes c ! i))) = [apply_prefix init (log_of c i)]"
proof -
  from cluster_reach_inv [OF assms(1-3)] assms(4,5)
  have p: "prefix (log_of c i) (log_of c ldr)" "prefix (log_of c j) (log_of c ldr)"
    "set (log_of c ldr) \<subseteq> submitted c" and "node_ok init sz ldr i (nodes c ! i)"
    by (simp_all add: cluster_inv_def)
  then have "view_ok init (nd_id (nodes c ! i)) (nd_view (nodes c ! i))"
    unfolding node_ok_def by blast
  with p prefix_same_cases [OF p(1,2)] show ?thesis
    by (auto simp: view_ok_def log_of_def dest: set_mono_prefix)
qed

theorem cluster_agreement_witness:
  "map store (replicas (nd_view (nodes (cluster_start 3 0 (Var 4) (fb_zero 1)) ! 2))) = [apply_prefix (Var 4) []]"
  using cluster_agreement [OF at_start, of 3 0 2 1 "Var 4" "fb_zero 1"]
  by (simp add: log_of_def cluster_start_def node_new_def)

text \<open>The leader commits exactly on a majority: a vote for the current slot makes it append
  and announce the command when, with that vote, more than half of the ballot holds it,
  and otherwise only fills the ballot.\<close>

theorem leader_commits_on_majority:
  assumes "node_ok init sz ldr i n" "node_is_leader n" "sz < 2 ^ 31" "unat src < sz"
    "length (log (nd_view n)) + 1 < 2 ^ 32"
  shows "let ballot = (nd_ballot n)[unat src := Some cmd];
      majority = 2 * card {k. k < sz \<and> ballot ! k = Some cmd} > sz in
    \<exists>n'. node_handle n (Vote (node_next_slot n) src cmd) =
        Some (n', if majority then [\<lparr>o_dest = Peers, o_msg = Commit (node_next_slot n) cmd\<rparr>] else []) \<and>
      log (nd_view n') = log (nd_view n) @ (if majority then [cmd] else []) \<and>
      nd_ballot n' = (if majority then replicate sz None else ballot)"
proof -
  let ?ballot = "(nd_ballot n)[unat src := Some cmd]" and ?slot = "node_next_slot n"
  define n1 where "n1 = n\<lparr>nd_ballot := ?ballot\<rparr>"
  from assms(1) have len: "length (nd_ballot n) = sz" "unat (nd_cluster n) = sz"
    using assms(3) by (simp_all add: node_ok_def unat_u32_small)
  then have maj: "decided ?ballot cmd \<longleftrightarrow> 2 * card {k. k < sz \<and> ?ballot ! k = Some cmd} > sz"
    using assms(3) by (simp add: decided_iff crash_reached_def voters_def)
  have h: "node_handle n (Vote ?slot src cmd) = decide_if_quorum n1 ?slot cmd"
    using assms(2,4) len by (simp add: node_handle_def n1_def Let_def)
  from assms(1) have "view_ok init (nd_id n) (nd_view n)" unfolding node_ok_def by blast
  from apply_commit_view_ok [OF this assms(5), of cmd] obtain w where
    "apply_commit_view (nd_view n) cmd = Some w" "log w = log (nd_view n) @ [cmd]" by blast
  with h len show ?thesis
    by (simp add: Let_def decide_if_quorum_def n1_def maj node_apply_commit_def)
qed

theorem leader_commits_on_majority_witness:
  "\<exists>n'. node_handle (node_new 0 1 0 (Var 0) (fb_zero 0)) (Vote 0 0 \<lparr>payload = Var 1, cap = None\<rparr>) =
     Some (n', [\<lparr>o_dest = Peers, o_msg = Commit 0 \<lparr>payload = Var 1, cap = None\<rparr>\<rparr>])"
proof -
  let ?n = "node_new 0 1 0 (Var 0) (fb_zero 0)"
  have "node_ok (Var 0) 1 0 0 ?n" "node_is_leader ?n" "length (log (nd_view ?n)) + 1 < 2 ^ 32"
    by (simp_all add: node_ok_def node_new_def view_ok_def node_is_leader_def)
  note h = leader_commits_on_majority [OF this(1,2) _ _ this(3), of 0 "\<lparr>payload = Var 1, cap = None\<rparr>"]
  have "{k. k < (1 :: nat) \<and> (nd_ballot ?n)[unat (0 :: u32) := Some \<lparr>payload = Var 1, cap = None\<rparr>] ! k =
      Some \<lparr>payload = Var 1, cap = None\<rparr>} = {0}"
    by (auto simp: node_new_def)
  moreover have "node_next_slot ?n = 0" by (simp add: node_next_slot_def next_slot_def node_new_def)
  ultimately show ?thesis using h unfolding Let_def by auto
qed

text \<open>Stepping nodes one by one is stepping the assembled system: the views of nodes that
  share a log assemble to the world step of their assembly.\<close>

theorem assemble_world_step:
  assumes "\<forall>v \<in> set vs. log v = lg"
  shows "assemble (map world_step vs) = map_option world_step (assemble vs)"
proof (cases vs)
  case (Cons v ws)
  have "concat (map (\<lambda>v. map (deliver (log v)) (replicas v)) vs) = map (deliver lg) (concat (map replicas vs))"
    using assms by (induction vs) simp_all
  with assms Cons show ?thesis by (simp add: assemble_simp o_def world_step_map)
qed (simp add: assemble_def)

theorem assemble_world_step_witness:
  "assemble (map world_step [nd_view (node_new 0 2 0 (Var 0) (fb_zero 0)), nd_view (node_new 1 2 0 (Var 0) (fb_zero 0))]) =
   map_option world_step (assemble [nd_view (node_new 0 2 0 (Var 0) (fb_zero 0)), nd_view (node_new 1 2 0 (Var 0) (fb_zero 0))])"
  by (rule assemble_world_step [of _ "[]"]) (simp add: node_new_def)

end
