(* ===== verification/Net.thy ===== *)
theory Net
  imports Codec Node
begin

text \<open>
  The event loops around the replicas (\<open>crates/dlc-d-node/src/net.rs\<close>, \<open>netauth.rs\<close>): the
  driver that feeds a leader its workload, the delivery of messages to channels, the
  frames of the authenticated cluster, and the outcome of a run.  The tasks themselves
  and their scheduling are \<open>tokio\<close>'s; the interleavings they allow are those of
  \<open>cluster_step\<close>.  \<open>None\<close> is a panic.
\<close>

section \<open>Driving a workload\<close>

definition applied_of :: "global_config \<Rightarrow> nat option" where
  "applied_of view = map_option (\<lambda>r. unat (applied r)) (get_nth (replicas view) 0)"

function drive :: "node \<Rightarrow> nat \<Rightarrow> command list \<Rightarrow> (node \<times> nat \<times> out list) option" where
  "drive n next_cmd workload =
     (if node_is_leader n \<and> next_cmd < length workload \<and> length (log (nd_view n)) = next_cmd
      then case applied_of (nd_view n) of
          None \<Rightarrow> None
        | Some a \<Rightarrow>
            if a = next_cmd
            then (case node_submit n (workload ! next_cmd) of
                None \<Rightarrow> None
              | Some (n1, outs) \<Rightarrow>
                  map_option (\<lambda>(n2, k, more). (n2, k, outs @ more)) (drive n1 (next_cmd + 1) workload))
            else Some (n, next_cmd, [])
      else Some (n, next_cmd, []))"
  by pat_completeness auto
termination by (relation "measure (\<lambda>(n, next_cmd, workload). length workload - next_cmd)") auto

function auth_drive ::
    "ed25519_lib \<Rightarrow> (cbor \<Rightarrow> bytes) \<Rightarrow> auth_node \<Rightarrow> nat \<Rightarrow> (command \<times> capability) list \<Rightarrow>
     (auth_node \<times> nat \<times> auth_out list) option" where
  "auth_drive L cw n next_cmd workload =
     (if auth_is_leader n \<and> next_cmd < length workload \<and> length (log (an_view n)) = next_cmd
      then case applied_of (an_view n) of
          None \<Rightarrow> None
        | Some a \<Rightarrow>
            if a = next_cmd
            then (case workload ! next_cmd of (cmd, c) \<Rightarrow>
              (case auth_submit L cw n cmd c of
                None \<Rightarrow> None
              | Some (n1, outs) \<Rightarrow>
                  map_option (\<lambda>(n2, k, more). (n2, k, outs @ more))
                    (auth_drive L cw n1 (next_cmd + 1) workload)))
            else Some (n, next_cmd, [])
      else Some (n, next_cmd, []))"
  by pat_completeness auto
termination by (relation "measure (\<lambda>(L, cw, n, next_cmd, workload). length workload - next_cmd)") auto

declare drive.simps [simp del] auth_drive.simps [simp del]

section \<open>Delivery\<close>

text \<open>
  A live replica has a channel, here the messages sent to it so far; a crashed one has
  none.  A send to a channel whose reader has finished is a message nobody reads.
\<close>

definition send_to :: "'m list option \<Rightarrow> 'm \<Rightarrow> 'm list option" where
  "send_to box m = map_option (\<lambda>q. q @ [m]) box"

definition deliver_out :: "u32 \<Rightarrow> dest \<Rightarrow> 'm \<Rightarrow> 'm list option list \<Rightarrow> 'm list option list" where
  "deliver_out sender d m boxes = (case d of
     Peers \<Rightarrow> map (\<lambda>(i, box). if of_nat i = sender then box else send_to box m)
       (zip [0..<length boxes] boxes)
   | To k \<Rightarrow> if unat k < length boxes then boxes[unat k := send_to (boxes ! unat k) m] else boxes)"

definition dispatch :: "msg list option list \<Rightarrow> u32 \<Rightarrow> out list \<Rightarrow> msg list option list" where
  "dispatch boxes sender outs =
     foldl (\<lambda>boxes out. deliver_out sender (o_dest out) (o_msg out) boxes) boxes outs"

definition auth_dispatch ::
    "(cbor \<Rightarrow> bytes) \<Rightarrow> bytes list option list \<Rightarrow> u32 \<Rightarrow> auth_out list \<Rightarrow> bytes list option list" where
  "auth_dispatch cw boxes sender outs =
     foldl (\<lambda>boxes out. deliver_out sender (ao_dest out) (encode_msg cw (ao_msg out)) boxes) boxes outs"

text \<open>What a replica does with a frame: \<open>let Ok(msg) = decode_msg(&frame) else { continue }\<close>.\<close>

definition on_frame ::
    "ed25519_lib \<Rightarrow> (cbor \<Rightarrow> bytes) \<Rightarrow> (bytes \<Rightarrow> string + cbor) \<Rightarrow> auth_node \<Rightarrow> bytes \<Rightarrow>
     (auth_node \<times> auth_out list) option" where
  "on_frame L cw cr n frame = (case decode_msg cr frame of
     Inl (CodecError e) \<Rightarrow> Some (n, [])
   | Inl CodecPanic \<Rightarrow> None
   | Inr m \<Rightarrow> auth_handle L cw n m)"

section \<open>The outcome of a run\<close>

text \<open>The views of the live replicas in the order of their identifiers.\<close>

definition stores :: "global_config list \<Rightarrow> trm list option" where
  "stores views = those (map (\<lambda>v. map_option store (get_nth (replicas v) 0)) views)"

definition converged :: "global_config list \<Rightarrow> bool option" where
  "converged views = (case views of
     [] \<Rightarrow> Some True
   | first # rest \<Rightarrow>
       foldr (\<lambda>v acc. case (get_nth (replicas v) 0, get_nth (replicas first) 0) of
           (Some r, Some r0) \<Rightarrow> if store r = store r0 then acc else Some False
         | _ \<Rightarrow> None) rest (Some True))"

definition committed :: "global_config list \<Rightarrow> nat" where
  "committed views = foldl max 0 (map (\<lambda>v. length (log v)) views)"

section \<open>Lemmas\<close>

lemma deliver_out_nth:
  assumes "j < length boxes" "length boxes \<le> 2 ^ 32" "i < length boxes"
  shows "deliver_out (of_nat i) d m boxes ! j =
    (if addressed i d j then send_to (boxes ! j) m else boxes ! j)"
proof -
  have "(of_nat j :: u32) = of_nat i \<longleftrightarrow> j = i"
    using assms by (simp add: word_of_nat_eq_iff take_bit_nat_eq_self)
  with assms(1) show ?thesis by (cases d) (auto simp: deliver_out_def addressed_def)
qed

lemma length_deliver_out [simp]: "length (deliver_out sender d m boxes) = length boxes"
  by (simp add: deliver_out_def split: dest.split)

lemma deliver_all_nth:
  assumes "j < length boxes" "length boxes \<le> 2 ^ 32" "i < length boxes"
  shows "foldl (\<lambda>boxes out. deliver_out (of_nat i) (f out) (g out) boxes) boxes outs ! j =
    map_option (\<lambda>q. q @ map g (filter (\<lambda>out. addressed i (f out) j) outs)) (boxes ! j)"
  using assms
proof (induction outs arbitrary: boxes)
  case Nil
  then show ?case by (simp add: option.map_ident)
next
  case (Cons out outs)
  then show ?case
    by (simp add: deliver_out_nth send_to_def option.map_comp o_def)
qed

lemma applied_of_ok: "view_ok init me view \<Longrightarrow> applied_of view = Some (length (log view))"
  by (auto simp: view_ok_def applied_of_def)

lemma node_ok_view: "node_ok init sz ldr i n \<Longrightarrow> view_ok init (nd_id n) (nd_view n)"
  unfolding node_ok_def by blast

text \<open>A cluster of one is a quorum of itself.\<close>

lemma submit_alone:
  assumes "node_ok init 1 0 0 n" "nd_proposing n = None" "length (log (nd_view n)) + 1 < 2 ^ 32"
  shows "\<exists>n' outs. node_submit n cmd = Some (n', outs) \<and> node_ok init 1 0 0 n' \<and>
    nd_proposing n' = None \<and> log (nd_view n') = log (nd_view n) @ [cmd]"
proof -
  from apply_commit_view_ok [OF node_ok_view [OF assms(1)] assms(3), of cmd] obtain w where
    "apply_commit_view (nd_view n) cmd = Some w" "view_ok init (nd_id n) w"
    "log w = log (nd_view n) @ [cmd]" by blast
  moreover have "decided [Some cmd] cmd"
    by (simp add: decided_def count_vote_def is_quorum_def)
  ultimately show ?thesis
    using assms(1,2) by (simp add: node_submit_def node_is_leader_def node_ok_def Let_def
        decide_if_quorum_def node_apply_commit_def)
qed

lemma drive_alone:
  assumes "node_ok init 1 0 0 n" "nd_proposing n = None" "log (nd_view n) = take k wl"
    "k \<le> length wl" "length wl < 2 ^ 32"
  shows "\<exists>n' outs. drive n k wl = Some (n', length wl, outs) \<and> node_ok init 1 0 0 n' \<and>
    log (nd_view n') = wl"
  using assms
proof (induction "length wl - k" arbitrary: n k)
  case 0
  then show ?case by (subst drive.simps) simp
next
  case (Suc d)
  then have k: "k < length wl" by simp
  with Suc.prems have len: "length (log (nd_view n)) = k" by simp
  from submit_alone [OF Suc.prems(1,2), of "wl ! k"] len k Suc.prems(3,5)
  obtain n1 outs where n1: "node_submit n (wl ! k) = Some (n1, outs)" "node_ok init 1 0 0 n1"
    "nd_proposing n1 = None" "log (nd_view n1) = take (k + 1) wl"
    by (auto simp: take_Suc_conv_app_nth)
  have "node_is_leader n" using Suc.prems(1) by (simp add: node_ok_def node_is_leader_def)
  moreover have "applied_of (nd_view n) = Some k"
    using applied_of_ok [OF node_ok_view [OF Suc.prems(1)]] len by simp
  moreover from Suc.hyps(2) k have "d = length wl - (k + 1)" by simp
  from Suc.hyps(1) [OF this n1(2-4) _ Suc.prems(5)] k obtain n' more where
    "drive n1 (k + 1) wl = Some (n', length wl, more)" "node_ok init 1 0 0 n'" "log (nd_view n') = wl"
    by auto
  ultimately show ?case using k len n1(1) by (subst drive.simps) simp
qed

lemma converged_iff:
  assumes "\<forall>v \<in> set views. \<exists>r. replicas v = [r] \<and> store r = s"
  shows "converged views = Some True"
proof (cases views)
  case (Cons v vs)
  with assms obtain r where r: "replicas v = [r]" "store r = s" by auto
  have "\<forall>v \<in> set vs. \<exists>r. replicas v = [r] \<and> store r = s" using Cons assms by simp
  then have "foldr (\<lambda>v acc. case (get_nth (replicas v) 0, Some r) of
      (Some r, Some r0) \<Rightarrow> if store r = store r0 then acc else Some False
    | _ \<Rightarrow> None) vs (Some True) = Some True"
    using r(2) by (induction vs) auto
  with Cons r(1) show ?thesis by (simp add: converged_def)
qed (simp add: converged_def)

section \<open>Properties\<close>

text \<open>Dispatching puts into the channel of each live replica exactly the messages that are
  addressed to it, in order, and encodes each in the authenticated cluster; a crashed
  replica stays without a channel.\<close>

theorem dispatch_addressed:
  assumes "j < length boxes" "j < length frames" "i < length boxes" "i < length frames"
    "length boxes \<le> 2 ^ 32" "length frames \<le> 2 ^ 32"
  shows "dispatch boxes (of_nat i) outs ! j =
      map_option (\<lambda>q. q @ map o_msg (filter (\<lambda>out. addressed i (o_dest out) j) outs)) (boxes ! j) \<and>
    auth_dispatch cw frames (of_nat i) aouts ! j =
      map_option (\<lambda>q. q @ map (\<lambda>out. encode_msg cw (ao_msg out))
        (filter (\<lambda>out. addressed i (ao_dest out) j) aouts)) (frames ! j)"
  unfolding dispatch_def auth_dispatch_def using assms by (simp add: deliver_all_nth)

theorem dispatch_addressed_witness:
  "dispatch [Some [], Some [], None] (of_nat 0) [\<lparr>o_dest = Peers, o_msg = Commit 0 \<lparr>payload = Var 0, cap = None\<rparr>\<rparr>] ! 1 =
   Some [Commit 0 \<lparr>payload = Var 0, cap = None\<rparr>]"
  using dispatch_addressed [of 1 "[Some [], Some [], None]" "[None, None]" 0
      "[\<lparr>o_dest = Peers, o_msg = Commit 0 \<lparr>payload = Var 0, cap = None\<rparr>\<rparr>]"]
  by (simp add: addressed_def)

text \<open>A cluster of one runs its whole workload inside the driver: it commits every command in
  order, and its store is the fold of the workload.\<close>

theorem single_node_completes:
  assumes "length wl < 2 ^ 32"
  shows "\<exists>n outs r. drive (node_new 0 1 0 init bud) 0 wl = Some (n, length wl, outs) \<and>
    log (nd_view n) = wl \<and> replicas (nd_view n) = [r] \<and> store r = apply_prefix init wl"
proof -
  have "node_ok init 1 0 0 (node_new 0 1 0 init bud)"
    by (simp add: node_ok_def node_new_def view_ok_def)
  from drive_alone [OF this _ _ _ assms, of 0] obtain n outs where
    "drive (node_new 0 1 0 init bud) 0 wl = Some (n, length wl, outs)" "node_ok init 1 0 0 n"
    "log (nd_view n) = wl" by (auto simp: node_new_def)
  moreover from node_ok_view [OF this(2)] obtain r where "replicas (nd_view n) = [r]"
    "store r = apply_prefix init (log (nd_view n))" by (auto simp: view_ok_def)
  ultimately show ?thesis by auto
qed

theorem single_node_completes_witness:
  "\<exists>n outs r. drive (node_new 0 1 0 (Var 0) (fb_zero 0)) 0 [\<lparr>payload = Var 1, cap = None\<rparr>] = Some (n, 1, outs) \<and>
    log (nd_view n) = [\<lparr>payload = Var 1, cap = None\<rparr>] \<and> replicas (nd_view n) = [r] \<and>
    store r = apply_prefix (Var 0) [\<lparr>payload = Var 1, cap = None\<rparr>]"
  using single_node_completes [of "[\<lparr>payload = Var 1, cap = None\<rparr>]" "Var 0" "fb_zero 0"] by simp

text \<open>Replicas of a cluster that have committed equally many slots have converged, whatever the
  network did.\<close>

theorem equal_progress_converges:
  assumes "cluster_reach sz ldr init bud c" "sz < 2 ^ 31" "ldr < sz" "set live \<subseteq> {..<sz}"
    "\<forall>i \<in> set live. length (log_of c i) = m"
  shows "converged (map (\<lambda>i. nd_view (nodes c ! i)) live) = Some True"
proof -
  have inv: "cluster_inv init sz ldr c" by (rule cluster_reach_inv [OF assms(1-3)])
  show ?thesis
  proof (rule converged_iff)
    show "\<forall>v \<in> set (map (\<lambda>i. nd_view (nodes c ! i)) live).
        \<exists>r. replicas v = [r] \<and> store r = apply_prefix init (take m (log_of c ldr))"
    proof
      fix v assume "v \<in> set (map (\<lambda>i. nd_view (nodes c ! i)) live)"
      then obtain i where i: "i \<in> set live" "v = nd_view (nodes c ! i)" by auto
      with assms(4) inv have "prefix (log_of c i) (log_of c ldr)" "node_ok init sz ldr i (nodes c ! i)"
        by (auto simp: cluster_inv_def)
      moreover have "length (log_of c i) = m" using assms(5) i(1) by blast
      ultimately have "log_of c i = take m (log_of c ldr)" "view_ok init (nd_id (nodes c ! i)) v"
        using i(2) by (auto simp: prefix_def node_ok_view)
      then show "\<exists>r. replicas v = [r] \<and> store r = apply_prefix init (take m (log_of c ldr))"
        using i(2) by (auto simp: view_ok_def log_of_def)
    qed
  qed
qed

theorem equal_progress_converges_witness:
  "converged (map (\<lambda>i. nd_view (nodes (cluster_start 3 0 (Var 4) (fb_zero 1)) ! i)) [0, 2]) = Some True"
  by (rule equal_progress_converges [OF at_start, where m = 0]) (simp_all add: log_of_def cluster_start_def node_new_def)

text \<open>Frames are transparent: what a replica does with the bytes of a message is what it does
  with the message.\<close>

theorem frames_transparent:
  assumes "cbor_codec cw cr limit" "4 \<le> limit" "wf_msg limit m"
  shows "on_frame L cw cr n (encode_msg cw m) = auth_handle L cw n m"
  by (simp add: on_frame_def decode_encoded_msg [OF assms])

theorem frames_transparent_witness:
  "on_frame toy_ed25519 put (toy_read 256) (demo_node Crash 0)
     (encode_msg put (AuthVote \<lparr>voter = replicate 32 1, v_slot = 0, v_sig = replicate 64 2\<rparr>)) =
   auth_handle toy_ed25519 put (demo_node Crash 0)
     (AuthVote \<lparr>voter = replicate 32 1, v_slot = 0, v_sig = replicate 64 2\<rparr>)"
  by (rule frames_transparent [OF toy_codec]) (simp_all add: wf_msg_def wf_vote_def)

end
