(* ===== verification/Cli.thy ===== *)
theory Cli
  imports Interop Envelope
begin

text \<open>
  The command line (\<open>crates/dlc-cli/src/main.rs\<close>) and the WebAssembly entry point
  (\<open>crates/dlc-verifier-wasm/src/lib.rs\<close>): the subcommands from their arguments to their
  output and exit code, the grammar of claims, and the pipeline from issuing a token to
  verifying it.  A string is its UTF-8 bytes.
\<close>

section \<open>Results\<close>

text \<open>
  A subcommand prints lines and then fails with a message, panics, or returns an exit
  code.  A failed verification prints its reason, kept as a value.
\<close>

datatype cli_error = Msg string | Panic_c

datatype cli_line = Line string | FailLine fail_reason

type_synonym cli = "cli_line list \<times> (cli_error + nat)"

definition or_fail :: "cli_error + 'a \<Rightarrow> ('a \<Rightarrow> cli) \<Rightarrow> cli" where
  "or_fail r f = (case r of Inl e \<Rightarrow> ([], Inl e) | Inr x \<Rightarrow> f x)"

definition protocol_msg :: "string \<Rightarrow> protocol_error \<Rightarrow> cli_error" where
  "protocol_msg pre e = (case e of
     Cbor s \<Rightarrow> Msg (pre @ ''cbor decode error: '' @ s)
   | Cose s \<Rightarrow> Msg (pre @ ''cose decode error: '' @ s)
   | Panicked \<Rightarrow> Panic_c)"

section \<open>Strings of the standard library\<close>

text \<open>The UTF-8 encodings of Unicode white space, for \<open>trim\<close>.\<close>

definition white_space :: "string list" where
  "white_space = map (map char_of)
     ([[9], [10], [11], [12], [13], [32], [0xC2, 0x85], [0xC2, 0xA0], [0xE1, 0x9A, 0x80],
       [0xE2, 0x80, 0xA8], [0xE2, 0x80, 0xA9], [0xE2, 0x80, 0xAF], [0xE2, 0x81, 0x9F],
       [0xE3, 0x80, 0x80]] @ map (\<lambda>k. [0xE2, 0x80, k]) [0x80..<(0x8B :: nat)])"

definition starts :: "string \<Rightarrow> string \<Rightarrow> bool" where
  "starts w s \<longleftrightarrow> take (length w) s = w"

lemma starts_shorter: "starts w s \<Longrightarrow> w \<noteq> [] \<Longrightarrow> length (drop (length w) s) < length s"
  by (cases s) (auto simp: starts_def)

lemma white_space_nonempty: "w \<in> set white_space \<Longrightarrow> w \<noteq> []"
  by (auto simp: white_space_def)

function trim_with :: "string list \<Rightarrow> string \<Rightarrow> string" where
  "trim_with ws s = (case find (\<lambda>w. w \<noteq> [] \<and> starts w s) ws of
     Some w \<Rightarrow> trim_with ws (drop (length w) s)
   | None \<Rightarrow> s)"
  by pat_completeness auto
termination
  by (relation "measure (\<lambda>(ws, s). length s)")
    (auto simp: find_Some_iff dest: starts_shorter)

declare trim_with.simps [simp del]

definition trim :: "string \<Rightarrow> string" where
  "trim s = rev (trim_with (map rev white_space) (rev (trim_with white_space s)))"

definition strip_prefix :: "string \<Rightarrow> string \<Rightarrow> string option" where
  "strip_prefix w s = (if starts w s then Some (drop (length w) s) else None)"

fun split_once :: "char \<Rightarrow> string \<Rightarrow> (string \<times> string) option" where
  "split_once c [] = None"
| "split_once c (x # xs) =
     (if x = c then Some ([], xs) else map_option (\<lambda>(a, b). (x # a, b)) (split_once c xs))"

text \<open>\<open>str::parse\<close> of an unsigned integer with the given maximum.\<close>

fun parse_digits :: "nat \<Rightarrow> nat \<Rightarrow> string \<Rightarrow> string + nat" where
  "parse_digits mx acc [] = Inr acc"
| "parse_digits mx acc (c # cs) =
     (let d = (of_char c :: nat) in
      if d < 48 \<or> 57 < d then Inl ''invalid digit found in string''
      else if mx < 10 * acc + (d - 48) then Inl ''number too large to fit in target type''
      else parse_digits mx (10 * acc + (d - 48)) cs)"

definition parse_uint :: "nat \<Rightarrow> string \<Rightarrow> string + nat" where
  "parse_uint mx s =
     (if s = [] then Inl ''cannot parse integer from empty string''
      else if s = ''+'' \<or> s = ''-'' then Inl ''invalid digit found in string''
      else parse_digits mx 0 (if hd s = CHR ''+'' then tl s else s))"

section \<open>Arguments and hexadecimal\<close>

definition flag :: "string list \<Rightarrow> string \<Rightarrow> string option" where
  "flag args name = (case position (\<lambda>a. a = name) args of
     None \<Rightarrow> None
   | Some i \<Rightarrow> get_nth args (i + 1))"

fun flags :: "string list \<Rightarrow> string \<Rightarrow> string list" where
  "flags (a # b # rest) name = (if a = name then b # flags rest name else flags (b # rest) name)"
| "flags args name = []"

definition hex_encode :: "bytes \<Rightarrow> string" where
  "hex_encode bs = concat (map hex2 bs)"

definition hex_decode :: "string \<Rightarrow> cli_error + bytes" where
  "hex_decode s0 = (let s = trim s0 in
     if length s mod 2 \<noteq> 0 then Inl (Msg ''hex: odd length'')
     else collect_results (\<lambda>i. case hex_byte s i of
         Inr b \<Rightarrow> Inr b
       | Inl e \<Rightarrow> Inl (if e = Panic_b then Panic_c else Msg ''hex: invalid digit found in string''))
       (map (\<lambda>k. 2 * k) [0..<length s div 2]))"

definition hex_decode32 :: "string \<Rightarrow> cli_error + bytes" where
  "hex_decode32 s = and_then (hex_decode s) (\<lambda>v.
     if length v = 32 then Inr v else Inl (Msg ''hex: expected 32 bytes''))"

definition require_seed :: "string list \<Rightarrow> cli_error + bytes" where
  "require_seed args = (case flag args ''--seed'' of
     None \<Rightarrow> Inl (Msg ''--seed <hex32> required'')
   | Some s \<Rightarrow> hex_decode32 s)"

definition decode_token_flag ::
    "(bytes \<Rightarrow> string + cbor) \<Rightarrow> string list \<Rightarrow> string \<Rightarrow> cli_error + trm" where
  "decode_token_flag cr args name = (case flag args name of
     None \<Rightarrow> Inl (Msg (name @ '' required''))
   | Some hex \<Rightarrow> and_then (hex_decode hex) (\<lambda>bs.
       case decode cr bs of
         Inl e \<Rightarrow> Inl (protocol_msg (name @ '': decode failed: '') e)
       | Inr t \<Rightarrow> Inr t))"

section \<open>Claims and assumptions\<close>

definition expect :: "string \<Rightarrow> string \<Rightarrow> string \<Rightarrow> cli_error + string" where
  "expect w msg s = (case strip_prefix w s of None \<Rightarrow> Inl (Msg msg) | Some rest \<Rightarrow> Inr rest)"

text \<open>\<open>input.split_at(64)\<close> panics inside a character.\<close>

function (domintros) split_principal :: "string \<Rightarrow> cli_error + principal \<times> string" where
  "split_principal input = (case strip_prefix ''acting('' input of
     Some rest \<Rightarrow>
       and_then (split_principal rest) (\<lambda>(a, rest).
         and_then (expect '','' ''acting: expected `,`'' rest) (\<lambda>rest.
           and_then (split_principal rest) (\<lambda>(b, rest).
             and_then (expect '')'' ''acting: expected `)`'' rest) (\<lambda>rest. Inr (Acting a b, rest)))))
   | None \<Rightarrow>
       if length input \<ge> 64 then
         if \<not> char_boundary input 64 then Inl Panic_c
         else and_then (hex_decode32 (take 64 input)) (\<lambda>pid. Inr (Atom_p (PrincipalId pid), drop 64 input))
       else Inl (Msg (''expected principal at: '' @ input)))"
  by pat_completeness auto

lemma strip_prefix_length: "strip_prefix w s = Some r \<Longrightarrow> length r = length s - length w \<and> length w \<le> length s"
  by (auto simp: strip_prefix_def starts_def split: if_splits dest: arg_cong [where f = length])

lemma expect_length: "expect w msg s = Inr r \<Longrightarrow> length r \<le> length s"
  by (auto simp: expect_def split: option.splits dest: strip_prefix_length)

lemma split_principal_length:
  "split_principal_dom input \<Longrightarrow> split_principal input = Inr (p, rest) \<Longrightarrow> length rest \<le> length input"
proof (induction input arbitrary: p rest rule: split_principal.pinduct)
  case (1 input)
  show ?case
  proof (cases "strip_prefix ''acting('' input")
    case None
    with "1.prems" show ?thesis
      by (auto simp: split_principal.psimps [OF "1.hyps"] and_then_Inr_iff split: if_splits)
  next
    case (Some r)
    with "1.prems" obtain a r1 r2 b r3 where
      r: "split_principal r = Inr (a, r1)" "expect '','' ''acting: expected `,`'' r1 = Inr r2"
         "split_principal r2 = Inr (b, r3)" "expect '')'' ''acting: expected `)`'' r3 = Inr rest"
      by (auto simp: split_principal.psimps [OF "1.hyps"] and_then_Inr_iff)
    from "1.IH"(1) [OF Some r(1)] "1.IH"(2) [OF Some r(1) refl r(2) r(3)]
      expect_length [OF r(2)] expect_length [OF r(4)] strip_prefix_length [OF Some]
    show ?thesis by simp
  qed
qed

lemma split_principal_total: "split_principal_dom input"
proof (induction input rule: measure_induct_rule [of length])
  case (less input)
  have dom: "split_principal_dom r" if "strip_prefix ''acting('' input = Some r" for r
    using strip_prefix_length [OF that] by (intro less.IH) auto
  have "split_principal_dom r2"
    if "strip_prefix ''acting('' input = Some r" "split_principal r = Inr (a, b)"
      "expect '','' msg b = Inr r2" for r a b r2 msg
    using strip_prefix_length [OF that(1)] split_principal_length [OF dom [OF that(1)] that(2)]
      expect_length [OF that(3)] by (intro less.IH) auto
  note dom2 = this
  show ?case
  proof (rule split_principal.domintros, goal_cases)
    case 1
    then show ?case by (rule dom)
  next
    case prems: (2 r2 r a b)
    from prems(2) have "split_principal r = Inr (a, b)" by simp
    with prems show ?case by (intro dom2)
  qed
qed

termination split_principal
  by (simp add: split_principal_total)

declare split_principal.simps [simp del]

function parse_claim :: "string \<Rightarrow> cli_error + dprop" where
  "parse_claim spec =
     (if spec = ''top'' then Inr Top
      else case strip_prefix ''atom:'' spec of
        Some n \<Rightarrow> (case parse_uint (2 ^ 32 - 1) n of
            Inl e \<Rightarrow> Inl (Msg (''atom: '' @ e))
          | Inr k \<Rightarrow> Inr (Atom (of_nat k)))
      | None \<Rightarrow> (case strip_prefix ''says:'' spec of
          Some rest \<Rightarrow>
            and_then (split_principal rest) (\<lambda>(p, inner).
              and_then (expect '':'' ''says: expected `:` after principal'' inner) (\<lambda>inner.
                and_then (parse_claim inner) (\<lambda>\<phi>. Inr (Says p \<phi>))))
        | None \<Rightarrow> Inl (Msg (''unrecognized claim spec: '' @ spec))))"
  by pat_completeness auto
termination
proof (relation "measure length", goal_cases)
  case prems: (2 spec rest x p inner i2)
  from prems(4,5) have "split_principal rest = Inr (p, inner)" by simp
  from split_principal_length [OF split_principal_total this] expect_length [OF prems(6)]
    strip_prefix_length [OF prems(3)] show ?case by auto
qed simp

declare parse_claim.simps [simp del]

definition parse_assumption :: "string \<Rightarrow> cli_error + dprop" where
  "parse_assumption spec = (case strip_prefix ''speaksfor:'' spec of
     Some rest \<Rightarrow>
       (case split_once CHR '':'' rest of
          None \<Rightarrow> Inl (Msg ''--assume speaksfor: expected <q-pid>:<p-pid>'')
        | Some (q_hex, p_hex) \<Rightarrow>
            and_then (hex_decode32 q_hex) (\<lambda>q.
              and_then (hex_decode32 p_hex) (\<lambda>p.
                Inr (SpeaksFor (Atom_p (PrincipalId q)) (Atom_p (PrincipalId p))))))
   | None \<Rightarrow> Inl (Msg (''unrecognized assumption spec: '' @ spec)))"

section \<open>Subcommands\<close>

definition sign_over ::
    "ed25519_lib \<Rightarrow> (cbor \<Rightarrow> bytes) \<Rightarrow> (bytes \<Rightarrow> bytes) \<Rightarrow> bytes \<Rightarrow> trm \<Rightarrow> trm" where
  "sign_over L cw sha256 seed inner =
     (let pk = ed25519_public_key L seed;
          pid = principal_id_of sha256 pk;
          canonical = canonical_bytes cw inner;
          sig_bytes = ed25519_sign L seed canonical
      in Sign (Atom_p (PrincipalId pid)) inner \<lparr>sig_alg = ALG_ED25519, sig_bytes = sig_bytes\<rparr>)"

definition token_line :: "(cbor \<Rightarrow> bytes) \<Rightarrow> trm \<Rightarrow> cli" where
  "token_line cw t = ([Line (''token='' @ hex_encode (encode cw t))], Inr 0)"

definition cmd_keygen :: "ed25519_lib \<Rightarrow> (bytes \<Rightarrow> bytes) \<Rightarrow> string list \<Rightarrow> cli" where
  "cmd_keygen L sha256 args = or_fail (require_seed args) (\<lambda>seed.
     let pk = ed25519_public_key L seed; pid = principal_id_of sha256 pk in
     ([Line (''principal='' @ hex_encode pid), Line (''public_key='' @ hex_encode pk)], Inr 0))"

definition cmd_issue ::
    "ed25519_lib \<Rightarrow> (cbor \<Rightarrow> bytes) \<Rightarrow> (bytes \<Rightarrow> bytes) \<Rightarrow> string list \<Rightarrow> cli" where
  "cmd_issue L cw sha256 args = or_fail (require_seed args) (\<lambda>seed.
     or_fail (case flag args ''--epoch-ms'' of
         None \<Rightarrow> Inr 0
       | Some s \<Rightarrow> (case parse_uint (2 ^ 64 - 1) s of
             Inl e \<Rightarrow> Inl (Msg (''--epoch-ms: '' @ e))
           | Inr n \<Rightarrow> Inr (of_nat n))) (\<lambda>epoch.
       token_line cw (sign_over L cw sha256 seed (Now \<lparr>epoch_ms = epoch\<rparr>))))"

definition cmd_grant ::
    "ed25519_lib \<Rightarrow> (cbor \<Rightarrow> bytes) \<Rightarrow> (bytes \<Rightarrow> bytes) \<Rightarrow> string list \<Rightarrow> cli" where
  "cmd_grant L cw sha256 args = or_fail (require_seed args) (\<lambda>seed.
     token_line cw (sign_over L cw sha256 seed (Var 0)))"

definition cmd_delegate ::
    "(cbor \<Rightarrow> bytes) \<Rightarrow> (bytes \<Rightarrow> string + cbor) \<Rightarrow> string list \<Rightarrow> cli" where
  "cmd_delegate cw cr args = or_fail (decode_token_flag cr args ''--grant'') (\<lambda>grant.
     or_fail (decode_token_flag cr args ''--token'') (\<lambda>token.
       token_line cw (Delegate grant token)))"

definition cmd_attenuate ::
    "(cbor \<Rightarrow> bytes) \<Rightarrow> (bytes \<Rightarrow> string + cbor) \<Rightarrow> string list \<Rightarrow> cli" where
  "cmd_attenuate cw cr args = or_fail (decode_token_flag cr args ''--token'') (\<lambda>token.
     token_line cw (Attenuate token Top))"

definition cmd_wrap ::
    "cose_lib \<Rightarrow> ed25519_lib \<Rightarrow> (bytes \<Rightarrow> bytes) \<Rightarrow> string list \<Rightarrow> cli" where
  "cmd_wrap C L sha256 args = or_fail (require_seed args) (\<lambda>seed.
     case flag args ''--token'' of
       None \<Rightarrow> ([], Inl (Msg ''wrap: --token required''))
     | Some token_hex \<Rightarrow> or_fail (hex_decode token_hex) (\<lambda>token.
         case wrap_sign1 C L sha256 token seed of
           Inl e \<Rightarrow> ([], Inl (protocol_msg ''wrap: '' e))
         | Inr cose \<Rightarrow> ([Line (''cose='' @ hex_encode cose)], Inr 0)))"

definition parse_key :: "string \<Rightarrow> cli_error + key_record" where
  "parse_key k = (case split_once CHR '':'' k of
     None \<Rightarrow> Inl (Msg ''--key: expected <pid-hex>:<pk-hex>'')
   | Some (pid_hex, pk_hex) \<Rightarrow>
       and_then (hex_decode32 pid_hex) (\<lambda>pid. and_then (hex_decode pk_hex) (\<lambda>pk.
         Inr \<lparr>kr_principal = PrincipalId pid, kr_alg = ALG_ED25519, public_key = pk\<rparr>)))"

definition run_verifier ::
    "ed25519_lib \<Rightarrow> (cbor \<Rightarrow> bytes) \<Rightarrow> (bytes \<Rightarrow> string + cbor) \<Rightarrow> string list \<Rightarrow> bytes \<Rightarrow> dprop \<Rightarrow>
     key_ring \<Rightarrow> cli" where
  "run_verifier L cw cr args wire_bytes claimed keyring =
     or_fail (collect_results parse_assumption (flags args ''--assume'')) (\<lambda>assumptions.
       case verify_with_assumptions L cw cr wire_bytes claimed keyring assumptions of
         None \<Rightarrow> ([], Inl Panic_c)
       | Some VOk \<Rightarrow> ([Line ''verify=ok''], Inr 0)
       | Some (VFail path reason) \<Rightarrow> ([FailLine reason], Inr 1))"

definition cmd_verify ::
    "cose_lib \<Rightarrow> ed25519_lib \<Rightarrow> (cbor \<Rightarrow> bytes) \<Rightarrow> (bytes \<Rightarrow> string + cbor) \<Rightarrow> string list \<Rightarrow> cli" where
  "cmd_verify C L cw cr args = (case flag args ''--token'' of
     None \<Rightarrow> ([], Inl (Msg ''verify: --token required''))
   | Some token_hex \<Rightarrow> or_fail (hex_decode token_hex) (\<lambda>wire_bytes.
       case flag args ''--claim'' of
         None \<Rightarrow> ([], Inl (Msg ''verify: --claim required''))
       | Some spec \<Rightarrow> or_fail (parse_claim spec) (\<lambda>claimed.
           or_fail (collect_results parse_key (flags args ''--key'')) (\<lambda>rows.
             let keyring = \<lparr>entries = rows\<rparr> in
             if ''--cose'' \<in> set args then
               (case unwrap_sign1 C L wire_bytes keyring of
                  Inl e \<Rightarrow> ([], Inl (protocol_msg ''cose: '' e))
                | Inr (payload, presenter) \<Rightarrow>
                    (let (lines, r) = run_verifier L cw cr args payload claimed keyring in
                     (Line (''presenter='' @ hex_encode (pid_bytes presenter)) # lines, r)))
             else run_verifier L cw cr args wire_bytes claimed keyring))))"

definition USAGE :: string where
  "USAGE = ''dlc '' @ map char_of [0xE2, 0x80, 0x94 :: nat] @ '' Delegation Logic Calculus CLI'' @ [CHR 0x0A] @
     ''usage: dlc <keygen|issue|grant|delegate|attenuate|wrap|verify> [options]'' @ [CHR 0x0A] @
     ''see crate docs for the full flow''"

text \<open>The exit code of the process: 2 for a failed subcommand, 101 for a panic.\<close>

definition cli_main ::
    "cose_lib \<Rightarrow> ed25519_lib \<Rightarrow> (cbor \<Rightarrow> bytes) \<Rightarrow> (bytes \<Rightarrow> string + cbor) \<Rightarrow> (bytes \<Rightarrow> bytes) \<Rightarrow>
     string list \<Rightarrow> cli_line list \<times> string option \<times> nat" where
  "cli_main C L cw cr sha256 args =
     (let (lines, r) = (case args of
          [] \<Rightarrow> ([], Inl (Msg USAGE))
        | sub # rest \<Rightarrow>
            if sub = ''keygen'' then cmd_keygen L sha256 rest
            else if sub = ''issue'' then cmd_issue L cw sha256 rest
            else if sub = ''grant'' then cmd_grant L cw sha256 rest
            else if sub = ''delegate'' then cmd_delegate cw cr rest
            else if sub = ''attenuate'' then cmd_attenuate cw cr rest
            else if sub = ''wrap'' then cmd_wrap C L sha256 rest
            else if sub = ''verify'' then cmd_verify C L cw cr rest
            else ([], Inl (Msg USAGE)))
      in case r of
           Inr code \<Rightarrow> (lines, None, code)
         | Inl (Msg msg) \<Rightarrow> (lines, Some msg, 2)
         | Inl Panic_c \<Rightarrow> (lines, None, 101))"

section \<open>The WebAssembly entry point\<close>

definition verify_raw ::
    "ed25519_lib \<Rightarrow> (cbor \<Rightarrow> bytes) \<Rightarrow> (bytes \<Rightarrow> string + cbor) \<Rightarrow> bytes \<Rightarrow> bytes \<Rightarrow> bytes \<Rightarrow> u32 option" where
  "verify_raw L cw cr wire claimed keyring = (case decode_prop cr claimed of
     Inl Panicked \<Rightarrow> None
   | Inl e \<Rightarrow> Some 0
   | Inr p \<Rightarrow> (case decode_keyring cr keyring of
         Inl Panicked \<Rightarrow> None
       | Inl e \<Rightarrow> Some 0
       | Inr k \<Rightarrow> map_option (\<lambda>r. case r of VOk \<Rightarrow> 1 | VFail path reason \<Rightarrow> 0)
           (verify L cw cr wire p k)))"

section \<open>Hexadecimal text\<close>

definition hex_chars :: "char set" where
  "hex_chars = set ''0123456789abcdef''"

lemma hex_encode_chars: "c \<in> set (hex_encode bs) \<Longrightarrow> c \<in> hex_chars"
proof -
  have "digit_char n \<in> hex_chars" for n
    unfolding digit_char_def hex_chars_def by (rule nth_mem) simp
  then show "c \<in> set (hex_encode bs) \<Longrightarrow> ?thesis" by (auto simp: hex_encode_def hex2_def)
qed

lemma length_hex_encode [simp]: "length (hex_encode bs) = 2 * length bs"
  by (simp add: hex_encode_def)

lemma white_space_no_hex: "\<forall>w \<in> set white_space. w \<noteq> [] \<and> hd w \<notin> hex_chars \<and> last w \<notin> hex_chars"
  by (simp add: white_space_def hex_chars_def upt_rec char_of_def bit_Suc_0_iff)

lemma trim_with_id:
  assumes "\<forall>w \<in> set ws. w \<noteq> [] \<and> hd w \<notin> H" "set s \<subseteq> H"
  shows "trim_with ws s = s"
proof -
  have "find (\<lambda>w. w \<noteq> [] \<and> starts w s) ws = None"
    unfolding find_None_iff
  proof
    assume "\<exists>w. w \<in> set ws \<and> w \<noteq> [] \<and> starts w s"
    then obtain w where w: "w \<in> set ws" "w \<noteq> []" "starts w s" by blast
    from w(2) obtain c u where "w = c # u" by (cases w) simp
    with w(3) have "hd w \<in> set s" by (cases s) (auto simp: starts_def)
    with assms w(1) show False by blast
  qed
  then show ?thesis by (simp add: trim_with.simps)
qed

lemma trim_hex: "trim (hex_encode bs) = hex_encode bs"
proof -
  have s: "set (hex_encode bs) \<subseteq> hex_chars" by (auto dest: hex_encode_chars)
  have "trim_with white_space (hex_encode bs) = hex_encode bs"
    using white_space_no_hex s by (intro trim_with_id) auto
  moreover have "trim_with (map rev white_space) (rev (hex_encode bs)) = rev (hex_encode bs)"
    using white_space_no_hex s by (intro trim_with_id [of _ hex_chars]) (auto simp: hd_rev)
  ultimately show ?thesis by (simp add: trim_def)
qed

lemma hex_decode_encode [roundtrip]: "hex_decode (hex_encode bs) = Inr bs"
proof -
  have "collect_results (\<lambda>i. case hex_byte (hex_encode bs) i of
         Inr b \<Rightarrow> Inr b
       | Inl e \<Rightarrow> Inl (if e = Panic_b then Panic_c else Msg ''hex: invalid digit found in string''))
      (map (\<lambda>k. 2 * k) [0..<length bs]) = Inr (map (\<lambda>k. bs ! k) [0..<length bs])"
    by (rule collect_results_map)
      (simp add: hex_byte_def hex_encode_def hex_boundary hex_slice radix16_hex2)
  then show ?thesis by (simp add: hex_decode_def trim_hex Let_def map_nth)
qed

lemma hex_decode32_encode [roundtrip]: "length bs = 32 \<Longrightarrow> hex_decode32 (hex_encode bs) = Inr bs"
  by (simp add: hex_decode32_def roundtrip)

section \<open>The claim grammar\<close>

primrec claim_principal :: "principal \<Rightarrow> bool" where
  "claim_principal (Atom_p i) \<longleftrightarrow> length (pid_bytes i) = 32"
| "claim_principal (And_p a b) \<longleftrightarrow> False"
| "claim_principal (Or_p a b) \<longleftrightarrow> False"
| "claim_principal (Acting a b) \<longleftrightarrow> claim_principal a \<and> claim_principal b"

primrec print_principal :: "principal \<Rightarrow> string" where
  "print_principal (Atom_p i) = hex_encode (pid_bytes i)"
| "print_principal (And_p a b) = []"
| "print_principal (Or_p a b) = []"
| "print_principal (Acting a b) = ''acting('' @ print_principal a @ '','' @ print_principal b @ '')''"

fun print_claim :: "dprop \<Rightarrow> string" where
  "print_claim (Atom n) = ''atom:'' @ show_nat (unat n)"
| "print_claim (Says p \<phi>) = ''says:'' @ print_principal p @ '':'' @ print_claim \<phi>"
| "print_claim \<phi> = ''top''"

fun claim_ok :: "dprop \<Rightarrow> bool" where
  "claim_ok Top \<longleftrightarrow> True"
| "claim_ok (Atom n) \<longleftrightarrow> True"
| "claim_ok (Says p \<phi>) \<longleftrightarrow> claim_principal p \<and> claim_ok \<phi>"
| "claim_ok \<phi> \<longleftrightarrow> False"

definition ascii_head :: "string \<Rightarrow> bool" where
  "ascii_head s \<longleftrightarrow> (case s of [] \<Rightarrow> True | c # cs \<Rightarrow> (of_char c :: nat) < 128)"

lemma strip_prefix_append [simp]: "strip_prefix w (w @ s) = Some s"
  by (simp add: strip_prefix_def starts_def)

lemma hex_not_acting: "length bs = 32 \<Longrightarrow> strip_prefix ''acting('' (hex_encode bs @ s) = None"
proof -
  assume "length bs = 32"
  then have "hex_encode bs ! 2 \<in> set (hex_encode bs)" by (intro nth_mem) simp
  then have "hex_encode bs ! 2 \<noteq> CHR ''t''"
    using hex_encode_chars [of "hex_encode bs ! 2" bs] by (auto simp: hex_chars_def)
  moreover have "(hex_encode bs @ s) ! 2 = hex_encode bs ! 2"
    using \<open>length bs = 32\<close> by (simp add: nth_append)
  ultimately have "take 7 (hex_encode bs @ s) ! 2 \<noteq> ''acting('' ! 2"
    by (simp del: take_append)
  then have "\<not> starts ''acting('' (hex_encode bs @ s)"
    unfolding starts_def by (auto simp del: take_append dest: arg_cong [where f = "\<lambda>xs. xs ! 2"])
  then show ?thesis by (simp add: strip_prefix_def)
qed

lemma split_hex:
  assumes "length bs = 32" "ascii_head s"
  shows "split_principal (hex_encode bs @ s) = Inr (Atom_p (PrincipalId bs), s)"
proof -
  have "char_boundary (hex_encode bs @ s) 64"
    using assms by (cases s) (auto simp: char_boundary_def nth_append ascii_head_def)
  with assms show ?thesis
    by (subst split_principal.simps) (simp add: hex_not_acting roundtrip)
qed

lemma split_print:
  "claim_principal p \<Longrightarrow> ascii_head s \<Longrightarrow> split_principal (print_principal p @ s) = Inr (p, s)"
proof (induction p arbitrary: s)
  case (Atom_p i)
  then show ?case by (cases i) (simp add: split_hex)
next
  case (Acting a b)
  have "strip_prefix ''acting('' (''acting('' @ print_principal a @ '','' @ print_principal b @ '')'' @ s) =
      Some (print_principal a @ '','' @ print_principal b @ '')'' @ s)"
    by (rule strip_prefix_append)
  moreover have "expect w msg (w @ u) = Inr u" for w msg u by (simp add: expect_def)
  ultimately show ?case
    using Acting.IH(1) [of "'','' @ print_principal b @ '')'' @ s"] Acting.IH(2) [of "'')'' @ s"] Acting.prems
    by (subst split_principal.simps) (simp add: ascii_head_def expect_def strip_prefix_def starts_def)
qed simp_all

lemma parse_digits_append:
  "parse_digits mx acc (xs @ [c]) = and_then (parse_digits mx acc xs) (\<lambda>a. parse_digits mx a [c])"
  by (induction xs arbitrary: acc) (simp_all add: Let_def)

lemma parse_digit: "d < 10 \<Longrightarrow> 10 * a + d \<le> mx \<Longrightarrow> parse_digits mx a [digit_char d] = Inr (10 * a + d)"
proof -
  have "\<forall>d \<in> set [0..<10]. (of_char (digit_char d) :: nat) = 48 + d"
    by (simp add: upt_rec digit_char_def of_char_def)
  then have "d < 10 \<Longrightarrow> (of_char (digit_char d) :: nat) = 48 + d" by simp
  then show "d < 10 \<Longrightarrow> 10 * a + d \<le> mx \<Longrightarrow> ?thesis" by simp
qed

lemma parse_show_digits: "n \<le> mx \<Longrightarrow> parse_digits mx 0 (show_nat n) = Inr n"
proof (induction n rule: less_induct)
  case (less n)
  show ?case
  proof (cases "n < 10")
    case True
    with parse_digit [of n 0 mx] less.prems show ?thesis by (simp add: show_nat.simps [of n])
  next
    case False
    with less.prems have "parse_digits mx 0 (show_nat (n div 10)) = Inr (n div 10)"
      by (intro less.IH) auto
    with False less.prems show ?thesis
      by (simp add: show_nat.simps [of n] parse_digits_append parse_digit del: parse_digits.simps)
  qed
qed

lemma show_nat_head: "\<exists>d cs. d < 10 \<and> show_nat n = digit_char d # cs"
proof (induction n rule: less_induct)
  case (less n)
  show ?case
  proof (cases "n < 10")
    case True
    then show ?thesis by (auto simp: show_nat.simps [of n])
  next
    case False
    then have "n div 10 < n" by simp
    from less.IH [OF this] obtain d cs where "d < 10" "show_nat (n div 10) = digit_char d # cs" by blast
    with False show ?thesis by (auto simp: show_nat.simps [of n])
  qed
qed

lemma parse_show [roundtrip]: "n \<le> mx \<Longrightarrow> parse_uint mx (show_nat n) = Inr n"
proof -
  assume n: "n \<le> mx"
  obtain d cs where d: "d < 10" "show_nat n = digit_char d # cs" using show_nat_head by blast
  from d(1) have "digit_char d \<noteq> CHR ''+'' \<and> digit_char d \<noteq> CHR ''-''"
    using parse_digit [of d 0 9] by auto
  with d(2) parse_show_digits [OF n] show ?thesis by (simp add: parse_uint_def)
qed

lemma claim_roundtrip_aux: "claim_ok \<phi> \<Longrightarrow> parse_claim (print_claim \<phi>) = Inr \<phi>"
proof (induction \<phi> rule: claim_ok.induct)
  case (2 n)
  have "unat n \<le> 2 ^ 32 - 1" using unat_le_max [of n] by simp
  then show ?case by (subst parse_claim.simps) (simp add: strip_prefix_def starts_def roundtrip)
next
  case (3 p \<phi>)
  then have "split_principal (print_principal p @ '':'' @ print_claim \<phi>) = Inr (p, '':'' @ print_claim \<phi>)"
    by (intro split_print) (simp_all add: ascii_head_def)
  with 3 show ?case
    by (subst parse_claim.simps) (simp add: strip_prefix_def starts_def expect_def)
qed (simp_all add: parse_claim.simps)

section \<open>The pipeline\<close>

lemma flag_simps [simp]:
  "flag [] name = None"
  "flag [a] name = None"
  "flag (a # b # rest) name = (if a = name then Some b else flag (b # rest) name)"
  by (auto simp: flag_def get_nth_def split: option.splits)

lemma hex_not_flag [simp]: "hex_encode bs \<noteq> CHR ''-'' # s" "CHR ''-'' # s \<noteq> hex_encode bs"
proof -
  have "CHR ''-'' \<notin> hex_chars" by (simp add: hex_chars_def)
  then show "hex_encode bs \<noteq> CHR ''-'' # s" using hex_encode_chars [of "CHR ''-''" bs] by auto
  then show "CHR ''-'' # s \<noteq> hex_encode bs" by metis
qed

lemma hex_append_not_flag:
  assumes "bs \<noteq> []"
  shows "hex_encode bs @ s \<noteq> CHR ''-'' # u"
proof -
  from assms have "hex_encode bs \<noteq> []" by (metis length_0_conv length_hex_encode mult_eq_0_iff numeral_neq_zero)
  then show ?thesis using hex_not_flag(1) [of bs] by (cases "hex_encode bs") auto
qed

lemma split_once_hex: "split_once CHR '':'' (hex_encode bs @ CHR '':'' # s) = Some (hex_encode bs, s)"
proof -
  have "CHR '':'' \<notin> hex_chars" by (simp add: hex_chars_def)
  moreover have "CHR '':'' \<notin> set xs \<Longrightarrow> split_once CHR '':'' (xs @ CHR '':'' # s) = Some (xs, s)" for xs
    by (induction xs) auto
  ultimately show ?thesis using hex_encode_chars [of "CHR '':''" bs] by blast
qed

lemma parse_key_hex:
  "length pid = 32 \<Longrightarrow> parse_key (hex_encode pid @ CHR '':'' # hex_encode pk) =
     Inr \<lparr>kr_principal = PrincipalId pid, kr_alg = ALG_ED25519, public_key = pk\<rparr>"
  by (simp add: parse_key_def split_once_hex roundtrip)

text \<open>What one identity signs, under the keyring that the verifier's \<open>--key\<close> option gives.\<close>

definition key_arg :: "ed25519_lib \<Rightarrow> (bytes \<Rightarrow> bytes) \<Rightarrow> bytes \<Rightarrow> string" where
  "key_arg L sha256 seed = (let pk = ed25519_public_key L seed in
     hex_encode (principal_id_of sha256 pk) @ '':'' @ hex_encode pk)"

definition pid_of_seed :: "ed25519_lib \<Rightarrow> (bytes \<Rightarrow> bytes) \<Rightarrow> bytes \<Rightarrow> bytes" where
  "pid_of_seed L sha256 seed = principal_id_of sha256 (ed25519_public_key L seed)"

definition key_row :: "ed25519_lib \<Rightarrow> (bytes \<Rightarrow> bytes) \<Rightarrow> bytes \<Rightarrow> key_record" where
  "key_row L sha256 seed = \<lparr>kr_principal = PrincipalId (pid_of_seed L sha256 seed), kr_alg = ALG_ED25519,
     public_key = ed25519_public_key L seed\<rparr>"

lemma sign_over_sign_as:
  "sign_over L cw sha256 seed m = sign_as L cw (PrincipalId (pid_of_seed L sha256 seed)) seed m"
  by (simp add: sign_over_def sign_as_def pid_of_seed_def Let_def)

lemma sign_over_ok:
  assumes "ed25519_ok L" "length seed = 32" "find (\<lambda>r. kr_principal r = PrincipalId (pid_of_seed L sha256 seed)) rows =
    Some (key_row L sha256 seed)"
  shows "sig_ok L cw \<lparr>entries = rows\<rparr> (sign_over L cw sha256 seed m)"
  unfolding sign_over_sign_as using assms
  by (intro sign_as_ok) (simp_all add: holds_key_def key_row_def)

lemma issue_verifies:
  assumes "ed25519_ok L" "cbor_codec cw cr limit" "2 \<le> limit" "length seed = 32"
    "length (pid_of_seed L sha256 seed) = 32"
  shows "verify_with_assumptions L cw cr (encode cw (sign_over L cw sha256 seed (Now t)))
    (Says (Atom_p (PrincipalId (pid_of_seed L sha256 seed))) Top) \<lparr>entries = [key_row L sha256 seed]\<rparr> [] = Some VOk"
proof -
  let ?t = "sign_over L cw sha256 seed (Now t)"
  have "cdepth (enc_term ?t) \<le> Suc (Suc 0)"
    by (simp add: sign_over_sign_as sign_as_def u64_int_def enc_time_def enc_signature_def enc_principal_id_def)
  then have "decode cr (encode cw ?t) = Inr ?t"
    using assms by (intro decode_encode) (auto simp: sign_over_sign_as sign_as_def wf_pid_def)
  moreover have "sig_ok L cw \<lparr>entries = [key_row L sha256 seed]\<rparr> ?t"
    using assms by (intro sign_over_ok) (simp_all add: key_row_def)
  ultimately show ?thesis
    by (auto simp: verify_accepts sign_over_sign_as sign_as_def sig_ok_def)
qed

section \<open>Properties\<close>

text \<open>The claim grammar is unambiguous and complete for what it covers: printing a claim built
  from \<open>top\<close>, atoms and \<open>says\<close> with atomic and acting principals, and parsing it, gives
  the claim back.\<close>

theorem claim_roundtrip:
  assumes "claim_ok \<phi>"
  shows "parse_claim (print_claim \<phi>) = Inr \<phi>"
  using assms by (rule claim_roundtrip_aux)

theorem claim_roundtrip_witness:
  "parse_claim (print_claim (Says (Acting (Atom_p demo_id) (Atom_p demo_id)) (Says (Atom_p demo_id) (Atom 70)))) =
   Inr (Says (Acting (Atom_p demo_id) (Atom_p demo_id)) (Says (Atom_p demo_id) (Atom 70)))"
  by (rule claim_roundtrip) (simp add: demo_id_def)

text \<open>C38: the pipeline works end to end: the token that \<open>issue\<close> prints for a seed and a time is
  accepted by \<open>verify\<close> with the claim that the seed's principal says \<open>top\<close> and the seed's key.\<close>

theorem issue_then_verify:
  assumes "ed25519_ok L" "cbor_codec cw cr limit" "2 \<le> limit" "length seed = 32"
    "length (pid_of_seed L sha256 seed) = 32" "e < 2 ^ 64"
  shows "\<exists>tok. cmd_issue L cw sha256 [''--seed'', hex_encode seed, ''--epoch-ms'', show_nat e] =
      ([Line (''token='' @ tok)], Inr 0) \<and>
    cmd_verify C L cw cr [''--token'', tok, ''--claim'',
        ''says:'' @ hex_encode (pid_of_seed L sha256 seed) @ '':top'', ''--key'', key_arg L sha256 seed] =
      ([Line ''verify=ok''], Inr 0)"
proof -
  let ?pid = "pid_of_seed L sha256 seed"
  let ?t = "sign_over L cw sha256 seed (Now \<lparr>epoch_ms = of_nat e\<rparr>)"
  let ?tok = "hex_encode (encode cw ?t)"
  have "parse_uint 18446744073709551615 (show_nat e) = Inr e" using assms(6) by (intro parse_show) simp
  then have "cmd_issue L cw sha256 [''--seed'', hex_encode seed, ''--epoch-ms'', show_nat e] =
      ([Line (''token='' @ ?tok)], Inr 0)"
    using assms(4) by (simp add: cmd_issue_def require_seed_def or_fail_def roundtrip token_line_def)
  moreover have "parse_claim (''says:'' @ hex_encode ?pid @ '':top'') = Inr (Says (Atom_p (PrincipalId ?pid)) Top)"
    using claim_roundtrip_aux [of "Says (Atom_p (PrincipalId ?pid)) Top"] assms(5) by simp
  moreover have "key_arg L sha256 seed = hex_encode ?pid @ CHR '':'' # hex_encode (ed25519_public_key L seed)"
    by (simp add: key_arg_def pid_of_seed_def Let_def)
  moreover have "parse_key (key_arg L sha256 seed) = Inr (key_row L sha256 seed)"
    using assms(5) calculation(3) by (simp add: parse_key_hex key_row_def)
  moreover from assms(5) have "?pid \<noteq> []" by auto
  note hex_append_not_flag [OF this] hex_append_not_flag [OF this, THEN not_sym]
  ultimately show ?thesis
    using issue_verifies [OF assms(1-5), of "\<lparr>epoch_ms = of_nat e\<rparr>"]
    by (auto simp: cmd_verify_def run_verifier_def or_fail_def roundtrip Let_def)
qed

theorem issue_then_verify_witness:
  "\<exists>tok. cmd_issue toy_ed25519 put (\<lambda>pk. replicate 32 2)
        [''--seed'', hex_encode (replicate 32 1), ''--epoch-ms'', show_nat 5] = ([Line (''token='' @ tok)], Inr 0) \<and>
    cmd_verify toy_cose toy_ed25519 put (toy_read 16) [''--token'', tok, ''--claim'',
        ''says:'' @ hex_encode (pid_of_seed toy_ed25519 (\<lambda>pk. replicate 32 2) (replicate 32 1)) @ '':top'',
        ''--key'', key_arg toy_ed25519 (\<lambda>pk. replicate 32 2) (replicate 32 1)] =
      ([Line ''verify=ok''], Inr 0)"
  by (rule issue_then_verify [OF toy_ed25519_ok toy_codec])
    (simp_all add: pid_of_seed_def principal_id_of_def)

text \<open>Exit code 0 of \<open>verify\<close> means acceptance: the verifier accepted the bytes of the token,
  or of the envelope's payload, for the parsed claim under the given keys and assumptions.\<close>

theorem verify_exit_zero:
  assumes "snd (cmd_verify C L cw cr args) = Inr 0"
  shows "\<exists>hex spec token bs claimed rows as.
    flag args ''--token'' = Some hex \<and> hex_decode hex = Inr token \<and>
    flag args ''--claim'' = Some spec \<and> parse_claim spec = Inr claimed \<and>
    collect_results parse_key (flags args ''--key'') = Inr rows \<and>
    collect_results parse_assumption (flags args ''--assume'') = Inr as \<and>
    (if ''--cose'' \<in> set args then \<exists>who. unwrap_sign1 C L token \<lparr>entries = rows\<rparr> = Inr (bs, who)
     else bs = token) \<and>
    verify_with_assumptions L cw cr bs claimed \<lparr>entries = rows\<rparr> as = Some VOk"
proof -
  have run: "snd (run_verifier L cw cr args bs claimed k) = Inr 0 \<longleftrightarrow>
      (\<exists>as. collect_results parse_assumption (flags args ''--assume'') = Inr as \<and>
        verify_with_assumptions L cw cr bs claimed k as = Some VOk)" for bs claimed k
    by (auto simp: run_verifier_def or_fail_def split: sum.splits option.splits verify_result.splits)
  from assms show ?thesis
    by (auto simp: cmd_verify_def or_fail_def Let_def run case_prod_unfold
        split: option.splits sum.splits if_splits)
qed

theorem verify_exit_zero_witness:
  "\<exists>bs. verify_with_assumptions toy_ed25519 put (toy_read 16) bs (Says (Atom_p demo_id) Top) demo_ring [] = Some VOk"
proof -
  let ?sha = "\<lambda>pk :: bytes. replicate 32 (2 :: u8)" and ?seed = "replicate 32 (1 :: u8)"
  let ?t = "sign_over toy_ed25519 put ?sha ?seed (Now \<lparr>epoch_ms = 5\<rparr>)"
  let ?claim = "''says:'' @ hex_encode (replicate 32 2) @ '':top''"
  let ?key = "hex_encode (replicate 32 2) @ CHR '':'' # hex_encode ?seed"
  let ?args = "[''--token'', hex_encode (encode put ?t), ''--claim'', ?claim, ''--key'', ?key]"
  have pid: "pid_of_seed toy_ed25519 ?sha ?seed = replicate 32 2"
    by (simp add: pid_of_seed_def principal_id_of_def)
  have pk: "ed25519_public_key toy_ed25519 ?seed = ?seed"
    by (simp add: ed25519_public_key_def toy_ed25519_def)
  have claim: "parse_claim ?claim = Inr (Says (Atom_p demo_id) Top)"
    using claim_roundtrip_aux [of "Says (Atom_p demo_id) Top"] by (simp add: demo_id_def)
  have rows: "parse_key ?key = Inr (key_row toy_ed25519 ?sha ?seed)"
    using pk by (simp add: parse_key_hex key_row_def pid)
  have ring: "\<lparr>entries = [key_row toy_ed25519 ?sha ?seed]\<rparr> = demo_ring"
    by (simp add: key_row_def demo_ring_def demo_id_def pid)
  have neq: "?key \<noteq> CHR ''-'' # u" "CHR ''-'' # u \<noteq> ?key" for u
    using hex_append_not_flag [of "replicate 32 2" "CHR '':'' # hex_encode ?seed" u] by (auto simp: not_sym)
  have "verify_with_assumptions toy_ed25519 put (toy_read 16) (encode put ?t)
      (Says (Atom_p demo_id) Top) demo_ring [] = Some VOk"
    using issue_verifies [OF toy_ed25519_ok toy_codec, of 16 ?seed ?sha "\<lparr>epoch_ms = 5\<rparr>"]
    by (simp add: pid ring demo_id_def)
  then have "snd (cmd_verify toy_cose toy_ed25519 put (toy_read 16) ?args) = Inr 0"
    using claim rows neq by (simp add: cmd_verify_def run_verifier_def or_fail_def roundtrip ring Let_def)
  from verify_exit_zero [OF this] claim rows neq show ?thesis by (auto simp: ring)
qed

text \<open>A grant binds nothing: one grant token is accepted for every proposition that a verifier
  cares to assume, whatever its issuer had in mind.\<close>

theorem grant_binds_nothing:
  assumes "ed25519_ok L" "cbor_codec cw cr limit" "2 \<le> limit" "length seed = 32"
    "length (pid_of_seed L sha256 seed) = 32"
  shows "\<exists>tok. cmd_grant L cw sha256 [''--seed'', hex_encode seed] = ([Line (''token='' @ hex_encode tok)], Inr 0) \<and>
    (\<forall>\<phi>. verify_with_assumptions L cw cr tok (Says (Atom_p (PrincipalId (pid_of_seed L sha256 seed))) \<phi>)
      \<lparr>entries = [key_row L sha256 seed]\<rparr> [\<phi>] = Some VOk)"
proof -
  let ?t = "sign_over L cw sha256 seed (Var 0)"
  have "cdepth (enc_term ?t) \<le> Suc (Suc 0)"
    by (simp add: sign_over_sign_as sign_as_def u32_int_def enc_signature_def enc_principal_id_def)
  then have "decode cr (encode cw ?t) = Inr ?t"
    using assms by (intro decode_encode) (auto simp: sign_over_sign_as sign_as_def wf_pid_def)
  moreover have "sig_ok L cw \<lparr>entries = [key_row L sha256 seed]\<rparr> ?t"
    using assms by (intro sign_over_ok) (simp_all add: key_row_def)
  ultimately have "verify_with_assumptions L cw cr (encode cw ?t)
      (Says (Atom_p (PrincipalId (pid_of_seed L sha256 seed))) \<phi>) \<lparr>entries = [key_row L sha256 seed]\<rparr> [\<phi>] = Some VOk" for \<phi>
    by (auto simp: verify_accepts sign_over_sign_as sign_as_def sig_ok_def infer_var_def)
  moreover have "cmd_grant L cw sha256 [''--seed'', hex_encode seed] =
      ([Line (''token='' @ hex_encode (encode cw ?t))], Inr 0)"
    using assms(4) by (simp add: cmd_grant_def require_seed_def or_fail_def roundtrip token_line_def)
  ultimately show ?thesis by blast
qed

theorem grant_binds_nothing_witness:
  "\<exists>tok. cmd_grant toy_ed25519 put (\<lambda>pk. replicate 32 2) [''--seed'', hex_encode (replicate 32 1)] =
      ([Line (''token='' @ hex_encode tok)], Inr 0) \<and>
    (\<forall>\<phi>. verify_with_assumptions toy_ed25519 put (toy_read 16) tok
      (Says (Atom_p (PrincipalId (pid_of_seed toy_ed25519 (\<lambda>pk. replicate 32 2) (replicate 32 1)))) \<phi>)
      \<lparr>entries = [key_row toy_ed25519 (\<lambda>pk. replicate 32 2) (replicate 32 1)]\<rparr> [\<phi>] = Some VOk)"
  by (rule grant_binds_nothing [OF toy_ed25519_ok toy_codec])
    (simp_all add: pid_of_seed_def principal_id_of_def)

text \<open>The WebAssembly entry point returns 1 exactly when claim and keyring decode and the
  verifier accepts, and otherwise returns 0 or, on inputs that make a decoder index out
  of range, panics.\<close>

theorem verify_raw_exact:
  "(verify_raw L cw cr wire claimed keyring = Some 1 \<longleftrightarrow>
      (\<exists>p k. decode_prop cr claimed = Inr p \<and> decode_keyring cr keyring = Inr k \<and>
         verify L cw cr wire p k = Some VOk)) \<and>
   (verify_raw L cw cr wire claimed keyring \<in> {None, Some 0, Some 1}) \<and>
   verify_raw L cw (\<lambda>bs. Inr (CArr [])) wire claimed keyring = None"
proof -
  have "decode_prop (\<lambda>bs. Inr (CArr [])) claimed = Inl Panicked"
    by (simp add: decode_prop_def dec_prop.simps)
  then have "verify_raw L cw (\<lambda>bs. Inr (CArr [])) wire claimed keyring = None"
    by (simp add: verify_raw_def)
  moreover have "map_option (\<lambda>r. case r of VOk \<Rightarrow> 1 | VFail path reason \<Rightarrow> 0) x = Some (1 :: u32) \<longleftrightarrow> x = Some VOk"
    "map_option (\<lambda>r. case r of VOk \<Rightarrow> 1 | VFail path reason \<Rightarrow> 0) x \<in> {None, Some 0, Some (1 :: u32)}" for x
    by (cases x; auto split: verify_result.splits)+
  ultimately show ?thesis
    by (cases "decode_prop cr claimed"; cases "decode_keyring cr keyring")
      (simp_all add: verify_raw_def split: protocol_error.splits)
qed

end
