(* ===== verification/Authority.thy ===== *)
theory Authority
  imports Admission
begin

text \<open>
  The compile-time authority envelope: the declarations of a crate and their gates
  (\<open>crates/dlc-d/src/lib.rs\<close>), the attribute macro that parses and lowers an envelope, and the
  certificate it emits (\<open>crates/dlc-d-macro/src\<close>).  A declaration or a service is accepted
  when the trait bounds and constants that it expands to are; the theory says what that
  acceptance is worth.

  A path stands for the type it resolves to, so two spellings of one type are one path.
  The parsers of paths and integer literals are those of the \<open>syn\<close> crate, parameters here.
\<close>

section \<open>Declarations\<close>

type_synonym path = "string list"

text \<open>One issuer of \<open>grants!\<close>, one delegate of \<open>delegates!\<close>.\<close>

datatype decl =
    Grants (declared: path) (listed: "path list")
  | Delegates (parent: path) (declared: path) (listed: "path list")

text \<open>
  A crate: the \<open>Tool::NAME\<close> of the types that derive \<open>Tool\<close>, its declarations, and the
  edges \<open>impl FlowsInto<Dst> for Src\<close>.
\<close>

record crate =
  tool_names :: "path \<Rightarrow> bytes option"
  decls :: "decl list"
  flows :: "(path \<times> path) list"

text \<open>\<open>impl Grants<Invoke<Tool>> for Issuer\<close>, and \<open>impl NarrowingLineage for Issuer\<close>.\<close>

definition granted :: "crate \<Rightarrow> path \<Rightarrow> path \<Rightarrow> bool" where
  "granted C i t \<longleftrightarrow> (\<exists>d \<in> set (decls C). declared d = i \<and> t \<in> set (listed d))"

definition lineage :: "crate \<Rightarrow> path \<Rightarrow> bool" where
  "lineage C i \<longleftrightarrow> i \<in> declared ` set (decls C)"

text \<open>\<open>IssuerGrants::GRANTS\<close>.\<close>

definition issuer_grants :: "crate \<Rightarrow> path \<Rightarrow> bytes list option" where
  "issuer_grants C i = map_option (\<lambda>d. map (\<lambda>t. case tool_names C t of Some n \<Rightarrow> n | None \<Rightarrow> []) (listed d))
     (find (\<lambda>d. declared d = i) (decls C))"

text \<open>The reflexive implementation and the declared edges; edges do not compose.\<close>

definition flows_into :: "crate \<Rightarrow> path \<Rightarrow> path \<Rightarrow> bool" where
  "flows_into C s d \<longleftrightarrow> s = d \<or> (s, d) \<in> set (flows C)"

text \<open>The bounds of one expansion: the tools derive \<open>Tool\<close>, and \<open>assert_granted\<close> of the parent.\<close>

definition decl_ok :: "crate \<Rightarrow> decl \<Rightarrow> bool" where
  "decl_ok C d \<longleftrightarrow> listed d \<noteq> [] \<and> (\<forall>t \<in> set (listed d). tool_names C t \<noteq> None) \<and>
     (case d of
        Grants i ts \<Rightarrow> True
      | Delegates p i ts \<Rightarrow> (\<forall>t \<in> set ts. granted C p t))"

text \<open>A crate compiles: every expansion does, and no two implementations overlap.\<close>

definition crate_ok :: "crate \<Rightarrow> bool" where
  "crate_ok C \<longleftrightarrow> (\<forall>d \<in> set (decls C). decl_ok C d \<and> distinct (listed d)) \<and>
     distinct (map declared (decls C)) \<and>
     distinct (flows C) \<and> (\<forall>(s, d) \<in> set (flows C). s \<noteq> d)"

text \<open>\<open>assert_tolerates::<F, G>()\<close>, and the name that \<open>derive(Tool)\<close> gives.\<close>

definition assert_tolerates :: "nat \<Rightarrow> nat \<Rightarrow> bool" where
  "assert_tolerates f g \<longleftrightarrow> g \<le> f"

datatype tool_meta = NameMeta bytes | BadName string | OtherMeta

fun derive_tool :: "bytes \<Rightarrow> tool_meta list \<Rightarrow> string + bytes" where
  "derive_tool name [] = Inr name"
| "derive_tool name (NameMeta lit # rest) = derive_tool lit rest"
| "derive_tool name (BadName e # rest) = Inl e"
| "derive_tool name (OtherMeta # rest) =
     Inl (''expected `#[tool(name = '' @ map char_of [0x22, 0xE2, 0x80, 0xA6, 0x22 :: nat] @ '')]`'')"

section \<open>The envelope and its lowering\<close>

record envelope =
  env_cap :: "(path \<times> path) option"
  env_flow :: "(path \<times> path) option"
  env_budget :: "nat option"
  env_delegate :: "unit option"

definition env_default :: envelope where
  "env_default = \<lparr>env_cap = None, env_flow = None, env_budget = None, env_delegate = None\<rparr>"

datatype emitted =
    AssertGranted path path
  | AssertFlows path path
  | AnchorFaults nat
  | AssertLineage path
  | CompileError string

definition lower :: "envelope \<Rightarrow> emitted list" where
  "lower env =
     (case env_cap env of Some (tool, iss) \<Rightarrow> [AssertGranted iss tool] | None \<Rightarrow> []) @
     (case env_flow env of Some (src, dst) \<Rightarrow> [AssertFlows src dst] | None \<Rightarrow> []) @
     (case env_budget env of Some f \<Rightarrow> [AnchorFaults f] | None \<Rightarrow> []) @
     (case env_delegate env of
        Some u \<Rightarrow> (case env_cap env of
            Some (tool, iss) \<Rightarrow> [AssertLineage iss]
          | None \<Rightarrow> [CompileError ''`delegate = attenuate_only` needs a `cap` axis: the delegation posture is about the issuer the cap axis names''])
      | None \<Rightarrow> [])"

definition emitted_ok :: "crate \<Rightarrow> emitted \<Rightarrow> bool" where
  "emitted_ok C e = (case e of
     AssertGranted iss tool \<Rightarrow> granted C iss tool
   | AssertFlows src dst \<Rightarrow> flows_into C src dst
   | AnchorFaults f \<Rightarrow> True
   | AssertLineage iss \<Rightarrow> lineage C iss
   | CompileError msg \<Rightarrow> False)"

definition service_ok :: "crate \<Rightarrow> envelope \<Rightarrow> bool" where
  "service_ok C env \<longleftrightarrow> (\<forall>e \<in> set (lower env). emitted_ok C e)"

text \<open>
  The hidden test's problem: \<open>None\<close> without a \<open>cap\<close> axis, or when the issuer has no \<open>GRANTS\<close>
  or the tool no \<open>NAME\<close> and the test does not compile.  Names are their ASCII bytes.
\<close>

definition certificate_test :: "crate \<Rightarrow> envelope \<Rightarrow> typing_problem option" where
  "certificate_test C env = (case env_cap env of
     None \<Rightarrow> None
   | Some (tool, iss) \<Rightarrow> (case (issuer_grants C iss, tool_names C tool) of
         (Some gs, Some n) \<Rightarrow> Some (cap_problem gs (ascii (last iss)) n)
       | _ \<Rightarrow> None))"

section \<open>Witnesses of a capability\<close>

text \<open>A value of \<open>Cap<Invoke<T>, I>\<close>; both parameters are phantoms.  \<open>None\<close>: \<open>T\<close> is no tool.\<close>

datatype cap_witness = CapWitness path path

definition cap_admit :: "crate \<Rightarrow> ed25519_lib \<Rightarrow> path \<Rightarrow> path \<Rightarrow> key_ring \<Rightarrow> principal \<Rightarrow> signature \<Rightarrow>
    (admit_error + cap_witness) option" where
  "cap_admit C L t i keyring p sig = map_option (\<lambda>name.
     and_then (admit L keyring p name sig) (\<lambda>u. Inr (CapWitness t i))) (tool_names C t)"

definition cap_unchecked :: "path \<Rightarrow> path \<Rightarrow> cap_witness" where
  "cap_unchecked t i = CapWitness t i"

section \<open>The grammar of envelopes\<close>

text \<open>
  Rust tokens: a punctuation character knows whether the next one is joined to it, so that
  \<open><=\<close> is two tokens.  \<open>lits\<close> is the type of integer literals.
\<close>

datatype 'l token = Id string | Punct char bool | Lit 'l | Other_tok

text \<open>What the macro takes from \<open>syn\<close>: paths, integer literals and their value at \<open>u32\<close>.\<close>

record 'l syn_lib =
  parse_path :: "'l token list \<Rightarrow> string + path \<times> 'l token list"
  parse_lit :: "'l token list \<Rightarrow> string + 'l \<times> 'l token list"
  base10_parse :: "'l \<Rightarrow> string + nat"

datatype axis_error = Duplicate string | Expected string | Syn string | Spent

fun keyword :: "string \<Rightarrow> 'l token list \<Rightarrow> axis_error + 'l token list" where
  "keyword k (Id w # ts) = (if w = k then Inr ts else Inl (Expected k))"
| "keyword k ts = Inl (Expected k)"

fun punct :: "char \<Rightarrow> 'l token list \<Rightarrow> axis_error + 'l token list" where
  "punct c (Punct d j # ts) = (if d = c then Inr ts else Inl (Expected [c]))"
| "punct c ts = Inl (Expected [c])"

fun punct_le :: "'l token list \<Rightarrow> axis_error + 'l token list" where
  "punct_le (Punct c j # Punct d k # ts) =
     (if c = CHR ''<'' \<and> j \<and> d = CHR ''='' then Inr ts else Inl (Expected ''<=''))"
| "punct_le ts = Inl (Expected ''<='')"

definition by_syn :: "('l token list \<Rightarrow> string + 'b) \<Rightarrow> 'l token list \<Rightarrow> axis_error + 'b" where
  "by_syn f ts = map_sum Syn id (f ts)"

definition cap_axis :: "'l syn_lib \<Rightarrow> 'l token list \<Rightarrow> axis_error + (path \<times> path) \<times> 'l token list" where
  "cap_axis S ts =
     and_then (punct CHR ''='' ts) (\<lambda>ts. and_then (keyword ''Invoke'' ts) (\<lambda>ts.
       and_then (punct CHR ''<'' ts) (\<lambda>ts. and_then (by_syn (parse_path S) ts) (\<lambda>(tool, ts).
         and_then (punct CHR ''>'' ts) (\<lambda>ts. and_then (punct CHR ''@'' ts) (\<lambda>ts.
           and_then (by_syn (parse_path S) ts) (\<lambda>(iss, ts). Inr ((tool, iss), ts))))))))"

definition flow_axis :: "'l syn_lib \<Rightarrow> 'l token list \<Rightarrow> axis_error + (path \<times> path) \<times> 'l token list" where
  "flow_axis S ts =
     and_then (punct CHR ''='' ts) (\<lambda>ts. and_then (by_syn (parse_path S) ts) (\<lambda>(src, ts).
       and_then (punct_le ts) (\<lambda>ts. and_then (by_syn (parse_path S) ts) (\<lambda>(dst, ts).
         Inr ((src, dst), ts)))))"

definition budget_axis :: "'l syn_lib \<Rightarrow> 'l token list \<Rightarrow> axis_error + nat \<times> 'l token list" where
  "budget_axis S ts =
     and_then (punct CHR ''='' ts) (\<lambda>ts. and_then (keyword ''Faults'' ts) (\<lambda>ts.
       and_then (punct CHR ''<'' ts) (\<lambda>ts. and_then (by_syn (parse_lit S) ts) (\<lambda>(lit, ts).
         and_then (by_syn (\<lambda>_. base10_parse S lit) ts) (\<lambda>n.
           and_then (punct CHR ''>'' ts) (\<lambda>ts. Inr (n, ts)))))))"

definition delegate_axis :: "'l token list \<Rightarrow> axis_error + unit \<times> 'l token list" where
  "delegate_axis ts =
     and_then (punct CHR ''='' ts) (\<lambda>ts. and_then (keyword ''attenuate_only'' ts) (\<lambda>ts. Inr ((), ts)))"

text \<open>\<open>replace(..).is_some()\<close> on one axis: its old value decides, its new one is stored.\<close>

definition fill :: "string \<Rightarrow> 'a option \<Rightarrow> ('a option \<Rightarrow> envelope) \<Rightarrow> 'a \<times> 'l token list \<Rightarrow>
    axis_error + envelope \<times> 'l token list" where
  "fill k old upd = (\<lambda>(x, ts). if old \<noteq> None then Inl (Duplicate k) else Inr (upd (Some x), ts))"

definition parse_axis :: "'l syn_lib \<Rightarrow> envelope \<Rightarrow> 'l token list \<Rightarrow> axis_error + envelope \<times> 'l token list" where
  "parse_axis S env ts = (case ts of
     Id k # rest \<Rightarrow>
       if k = ''cap'' then
         and_then (cap_axis S rest) (fill k (env_cap env) (\<lambda>v. env\<lparr>env_cap := v\<rparr>))
       else if k = ''flow'' then
         and_then (flow_axis S rest) (fill k (env_flow env) (\<lambda>v. env\<lparr>env_flow := v\<rparr>))
       else if k = ''budget'' then
         and_then (budget_axis S rest) (fill k (env_budget env) (\<lambda>v. env\<lparr>env_budget := v\<rparr>))
       else if k = ''delegate'' then
         and_then (delegate_axis rest) (fill k (env_delegate env) (\<lambda>v. env\<lparr>env_delegate := v\<rparr>))
       else Inl (Expected ''axis'')
   | _ \<Rightarrow> Inl (Expected ''axis''))"

definition separator :: "'l token list \<Rightarrow> axis_error + 'l token list" where
  "separator ts = (case punct CHR '','' ts of
     Inr rest \<Rightarrow> Inr rest
   | Inl e \<Rightarrow> if ts = [] then Inr [] else Inl (Expected '',''))"

text \<open>Every round takes at least an axis's name, so the tokens bound the rounds.\<close>

fun parse_axes :: "nat \<Rightarrow> 'l syn_lib \<Rightarrow> envelope \<Rightarrow> 'l token list \<Rightarrow> axis_error + envelope" where
  "parse_axes 0 S env ts = (if ts = [] then Inr env else Inl Spent)"
| "parse_axes (Suc n) S env ts =
     (if ts = [] then Inr env
      else and_then (parse_axis S env ts) (\<lambda>(env, ts). and_then (separator ts) (\<lambda>ts. parse_axes n S env ts)))"

definition parse_envelope :: "'l syn_lib \<Rightarrow> 'l token list \<Rightarrow> axis_error + envelope" where
  "parse_envelope S ts = parse_axes (length ts) S env_default ts"

section \<open>The attribute macro\<close>

text \<open>
  The governed function keeps its parameters and gains the witness.  \<open>parse_item\<close> is
  \<open>syn\<close>'s parser of functions.
\<close>

datatype fn_arg = Own string | WitnessArg path path

datatype fn_attr = OwnAttr string | GovernedNote path path

record item_fn =
  fn_ident :: string
  inputs :: "fn_arg list"
  attrs :: "fn_attr list"

record expansion =
  obligations :: "emitted list"
  certificate :: "(string \<times> path \<times> path) option"
  governed :: item_fn

definition agent_service ::
    "'l syn_lib \<Rightarrow> ('i \<Rightarrow> string + item_fn) \<Rightarrow> 'l token list \<Rightarrow> 'i \<Rightarrow> axis_error + expansion" where
  "agent_service S parse_item attr item =
     and_then (parse_envelope S attr) (\<lambda>env. case parse_item item of
       Inl e \<Rightarrow> Inl (Syn e)
     | Inr func \<Rightarrow>
         (let func2 = (case env_cap env of
                Some (tool, iss) \<Rightarrow> func\<lparr>inputs := inputs func @ [WitnessArg tool iss],
                  attrs := attrs func @ [GovernedNote tool iss]\<rparr>
              | None \<Rightarrow> func)
          in Inr \<lparr>obligations = lower env,
               certificate = map_option (\<lambda>(tool, iss). (''__dlc_d_cert_'' @ fn_ident func2, tool, iss)) (env_cap env),
               governed = func2\<rparr>))"

section \<open>What the parser accepts\<close>

text \<open>
  What is relied on: the parsers of \<open>syn\<close> give back a suffix of the tokens.  For the round trip,
  \<open>pp\<close> and \<open>pl\<close> print a path and a number that they read back up to a closing punctuation.  That
  is asked only of paths that can be written: one identifier or more, none of them a
  keyword (the list that \<open>syn\<close> refuses as identifiers, the underscore included), plain ASCII.
\<close>

definition ident_start :: "char \<Rightarrow> bool" where
  "ident_start c \<longleftrightarrow> c \<in> set ''ABCDEFGHIJKLMNOPQRSTUVWXYZabcdefghijklmnopqrstuvwxyz_''"

definition ident_char :: "char \<Rightarrow> bool" where
  "ident_char c \<longleftrightarrow> ident_start c \<or> c \<in> set ''0123456789''"

definition rust_keywords :: "string list" where
  "rust_keywords = [''_'', ''abstract'', ''as'', ''async'', ''await'', ''become'', ''box'', ''break'', ''const'',
     ''continue'', ''crate'', ''do'', ''dyn'', ''else'', ''enum'', ''extern'', ''false'', ''final'', ''fn'', ''for'',
     ''if'', ''impl'', ''in'', ''let'', ''loop'', ''macro'', ''match'', ''mod'', ''move'', ''mut'', ''override'',
     ''priv'', ''pub'', ''ref'', ''return'', ''Self'', ''self'', ''static'', ''struct'', ''super'', ''trait'', ''true'',
     ''try'', ''type'', ''typeof'', ''unsafe'', ''unsized'', ''use'', ''virtual'', ''where'', ''while'', ''yield'']"

definition ident :: "string \<Rightarrow> bool" where
  "ident w \<longleftrightarrow> w \<noteq> [] \<and> ident_start (hd w) \<and> list_all ident_char w \<and> w \<notin> set rust_keywords"

definition path_ok :: "path \<Rightarrow> bool" where
  "path_ok p \<longleftrightarrow> p \<noteq> [] \<and> list_all ident p"

definition syn_consumes :: "'l syn_lib \<Rightarrow> bool" where
  "syn_consumes S \<longleftrightarrow>
     (\<forall>ts p rest. parse_path S ts = Inr (p, rest) \<longrightarrow> length rest \<le> length ts) \<and>
     (\<forall>ts l rest. parse_lit S ts = Inr (l, rest) \<longrightarrow> length rest \<le> length ts)"

definition closes :: "'l token list \<Rightarrow> bool" where
  "closes ts \<longleftrightarrow> ts = [] \<or> (\<exists>c j r. ts = Punct c j # r \<and> c \<in> {CHR '','', CHR ''>''}) \<or>
     (\<exists>k r. ts = Punct CHR ''<'' True # Punct CHR ''='' k # r)"

definition syn_reads :: "'l syn_lib \<Rightarrow> (path \<Rightarrow> 'l token list) \<Rightarrow> (nat \<Rightarrow> 'l) \<Rightarrow> bool" where
  "syn_reads S pp pl \<longleftrightarrow>
     (\<forall>p rest. path_ok p \<and> closes rest \<longrightarrow> parse_path S (pp p @ rest) = Inr (p, rest)) \<and>
     (\<forall>n rest. parse_lit S (Lit (pl n) # rest) = Inr (pl n, rest)) \<and>
     (\<forall>n. n < 2 ^ 32 \<longrightarrow> base10_parse S (pl n) = Inr n)"

datatype axis =
    CapAxis path path
  | FlowAxis path path
  | BudgetAxis nat
  | DelegateAxis

fun axis_name :: "axis \<Rightarrow> string" where
  "axis_name (CapAxis t i) = ''cap''"
| "axis_name (FlowAxis s d) = ''flow''"
| "axis_name (BudgetAxis n) = ''budget''"
| "axis_name DelegateAxis = ''delegate''"

fun set_axis :: "axis \<Rightarrow> envelope \<Rightarrow> envelope" where
  "set_axis (CapAxis t i) env = env\<lparr>env_cap := Some (t, i)\<rparr>"
| "set_axis (FlowAxis s d) env = env\<lparr>env_flow := Some (s, d)\<rparr>"
| "set_axis (BudgetAxis n) env = env\<lparr>env_budget := Some n\<rparr>"
| "set_axis DelegateAxis env = env\<lparr>env_delegate := Some ()\<rparr>"

fun has_axis :: "envelope \<Rightarrow> string \<Rightarrow> bool" where
  "has_axis env k \<longleftrightarrow> k = ''cap'' \<and> env_cap env \<noteq> None \<or> k = ''flow'' \<and> env_flow env \<noteq> None \<or>
     k = ''budget'' \<and> env_budget env \<noteq> None \<or> k = ''delegate'' \<and> env_delegate env \<noteq> None"

fun print_axis :: "(path \<Rightarrow> 'l token list) \<Rightarrow> (nat \<Rightarrow> 'l) \<Rightarrow> axis \<Rightarrow> 'l token list" where
  "print_axis pp pl (CapAxis t i) = [Id ''cap'', Punct CHR ''='' False, Id ''Invoke'', Punct CHR ''<'' False] @
     pp t @ [Punct CHR ''>'' False, Punct CHR ''@'' False] @ pp i"
| "print_axis pp pl (FlowAxis s d) = [Id ''flow'', Punct CHR ''='' False] @
     pp s @ [Punct CHR ''<'' True, Punct CHR ''='' False] @ pp d"
| "print_axis pp pl (BudgetAxis n) =
     [Id ''budget'', Punct CHR ''='' False, Id ''Faults'', Punct CHR ''<'' False, Lit (pl n), Punct CHR ''>'' False]"
| "print_axis pp pl DelegateAxis = [Id ''delegate'', Punct CHR ''='' False, Id ''attenuate_only'']"

fun print_axes :: "(path \<Rightarrow> 'l token list) \<Rightarrow> (nat \<Rightarrow> 'l) \<Rightarrow> axis list \<Rightarrow> 'l token list" where
  "print_axes pp pl [] = []"
| "print_axes pp pl [a] = print_axis pp pl a"
| "print_axes pp pl (a # as) = print_axis pp pl a @ Punct CHR '','' False # print_axes pp pl as"

definition axis_ok :: "axis \<Rightarrow> bool" where
  "axis_ok a = (case a of CapAxis t i \<Rightarrow> path_ok t \<and> path_ok i | FlowAxis s d \<Rightarrow> path_ok s \<and> path_ok d
     | BudgetAxis n \<Rightarrow> n < 2 ^ 32 | DelegateAxis \<Rightarrow> True)"

declare has_axis.simps [simp del]

lemmas path_simps = path_ok_def ident_def rust_keywords_def ident_start_def ident_char_def

lemma env_default_no_axis: "\<not> has_axis env_default k"
  by (simp add: has_axis.simps env_default_def)

lemma closes_simps [simp]:
  "closes []" "closes (Punct CHR ''>'' j # r)" "closes (Punct CHR '','' j # r)"
  "closes (Punct CHR ''<'' True # Punct CHR ''='' k # r)"
  by (simp_all add: closes_def)

lemma read_syn:
  assumes "syn_reads S pp pl"
  shows "path_ok p \<Longrightarrow> closes rest \<Longrightarrow> by_syn (parse_path S) (pp p @ rest) = Inr (p, rest)"
    "by_syn (parse_lit S) (Lit (pl n) # rest) = Inr (pl n, rest)"
    "n < 2 ^ 32 \<Longrightarrow> by_syn (\<lambda>u. base10_parse S (pl n)) ts = Inr n"
  using assms by (simp_all add: syn_reads_def by_syn_def)

lemma parse_print_axis:
  assumes "syn_reads S pp pl" "axis_ok a" "closes rest"
  shows "parse_axis S env (print_axis pp pl a @ rest) =
    (if has_axis env (axis_name a) then Inl (Duplicate (axis_name a)) else Inr (set_axis a env, rest))"
  using assms(2,3)
  by (cases a) (auto simp: parse_axis_def cap_axis_def flow_axis_def budget_axis_def delegate_axis_def
      fill_def axis_ok_def has_axis.simps read_syn [OF assms(1)])

lemma print_axis_length: "print_axis pp pl a \<noteq> []"
  by (cases a) auto

lemma has_set_axis: "has_axis (set_axis a env) k \<longleftrightarrow> k = axis_name a \<or> has_axis env k"
  by (cases a) (auto simp: has_axis.simps)

lemma parse_print_axes:
  assumes "syn_reads S pp pl" "list_all axis_ok as" "length (print_axes pp pl as) \<le> n"
  shows "if distinct (map axis_name as) \<and> (\<forall>a \<in> set as. \<not> has_axis env (axis_name a))
    then parse_axes n S env (print_axes pp pl as) = Inr (fold set_axis as env)
    else \<exists>k. parse_axes n S env (print_axes pp pl as) = Inl (Duplicate k)"
  using assms(2,3)
proof (induction as arbitrary: n env rule: induct_list012)
  case 1
  then show ?case by (cases n) auto
next
  case (2 a)
  then obtain m where "n = Suc m" using print_axis_length [of pp pl a] by (cases n) auto
  moreover have "parse_axes m S env [] = Inr env" for env by (cases m) auto
  ultimately show ?case
    using parse_print_axis [OF assms(1), of a "[]" env] "2.prems" print_axis_length [of pp pl a]
    by (auto simp: separator_def)
next
  case (3 a b as)
  let ?rest = "print_axes pp pl (b # as)"
  from "3.prems" obtain m where m: "n = Suc m" by (cases n) auto
  from "3.prems" m have prems: "list_all axis_ok (b # as)" "length ?rest \<le> m" by auto
  have eq: "parse_axes n S env (print_axes pp pl (a # b # as)) =
      (if has_axis env (axis_name a) then Inl (Duplicate (axis_name a))
       else parse_axes m S (set_axis a env) ?rest)"
    using parse_print_axis [OF assms(1), of a "Punct CHR '','' False # ?rest" env] "3.prems"
    by (simp add: m separator_def print_axis_length)
  show ?case
  proof (cases "has_axis env (axis_name a)")
    case False
    with "3.IH"(2) [OF prems, of "set_axis a env"] show ?thesis
      unfolding eq by (auto simp: has_set_axis image_iff simp del: print_axes.simps split: if_split_asm)
  qed (simp add: eq del: print_axes.simps)
qed

text \<open>The envelope of distinct axes holds each of them.\<close>

lemma fold_set_axis_other:
  "''cap'' \<notin> axis_name ` set as \<Longrightarrow> env_cap (fold set_axis as env) = env_cap env"
  "''flow'' \<notin> axis_name ` set as \<Longrightarrow> env_flow (fold set_axis as env) = env_flow env"
  "''budget'' \<notin> axis_name ` set as \<Longrightarrow> env_budget (fold set_axis as env) = env_budget env"
  "''delegate'' \<notin> axis_name ` set as \<Longrightarrow> env_delegate (fold set_axis as env) = env_delegate env"
proof (induction as arbitrary: env)
  case (Cons a as)
  {
    case 1
    with Cons.IH(1) show ?case by (cases a) auto
  next
    case 2
    with Cons.IH(2) show ?case by (cases a) auto
  next
    case 3
    with Cons.IH(3) show ?case by (cases a) auto
  next
    case 4
    with Cons.IH(4) show ?case by (cases a) auto
  }
qed simp_all

lemma fold_set_axis:
  assumes "distinct (map axis_name as)" "a \<in> set as"
  shows "case a of CapAxis t i \<Rightarrow> env_cap (fold set_axis as env) = Some (t, i)
    | FlowAxis s d \<Rightarrow> env_flow (fold set_axis as env) = Some (s, d)
    | BudgetAxis n \<Rightarrow> env_budget (fold set_axis as env) = Some n
    | DelegateAxis \<Rightarrow> env_delegate (fold set_axis as env) = Some ()"
  using assms
proof (induction as arbitrary: env)
  case (Cons b as)
  show ?case
  proof (cases "a = b")
    case True
    with Cons.prems(1) show ?thesis by (cases b) (simp_all add: fold_set_axis_other)
  next
    case False
    with Cons.prems Cons.IH [of "set_axis b env"] show ?thesis by (cases a) simp_all
  qed
qed simp

lemma fold_set_axis_cap:
  "env_cap (fold set_axis as env) = Some (t, i) \<Longrightarrow> env_cap env = Some (t, i) \<or> CapAxis t i \<in> set as"
proof (induction as arbitrary: env)
  case (Cons a as)
  from Cons.IH [of "set_axis a env"] Cons.prems show ?case by (cases a) auto
qed simp

text \<open>Every piece of the parser gives back no more tokens than it was given, and an axis fewer.\<close>

lemma keyword_shorter: "keyword k ts = Inr r \<Longrightarrow> length r < length ts"
  by (induction k ts rule: keyword.induct) (auto split: if_splits)

lemma punct_shorter: "punct c ts = Inr r \<Longrightarrow> length r < length ts"
  by (induction c ts rule: punct.induct) (auto split: if_splits)

lemma punct_le_shorter: "punct_le ts = Inr r \<Longrightarrow> length r < length ts"
  by (induction ts rule: punct_le.induct) (auto split: if_splits)

lemma by_syn_shorter:
  assumes "syn_consumes S"
  shows "by_syn (parse_path S) ts = Inr (p, r) \<Longrightarrow> length r \<le> length ts"
    "by_syn (parse_lit S) ts = Inr (l, r) \<Longrightarrow> length r \<le> length ts"
  using assms by (auto simp: by_syn_def syn_consumes_def map_sum_def split: sum.splits)

lemmas shorter = keyword_shorter punct_shorter punct_le_shorter

lemma fill_shorter: "fill k old upd (x, ts) = Inr (env, r) \<Longrightarrow> r = ts"
  by (auto simp: fill_def split: if_splits)

lemma axis_shorter:
  assumes "syn_consumes S"
  shows "cap_axis S ts = Inr (x, r) \<Longrightarrow> length r < length ts"
    "flow_axis S ts = Inr (y, r) \<Longrightarrow> length r < length ts"
    "budget_axis S ts = Inr (n, r) \<Longrightarrow> length r < length ts"
    "delegate_axis ts = Inr (u, r) \<Longrightarrow> length r < length ts"
  by (auto simp: cap_axis_def flow_axis_def budget_axis_def delegate_axis_def and_then_Inr_iff
      dest!: shorter by_syn_shorter [OF assms])

lemma parse_axis_shorter:
  assumes "syn_consumes S" "parse_axis S env ts = Inr (env', r)"
  shows "length r < length ts"
  using assms(2)
  by (auto simp: parse_axis_def and_then_Inr_iff split: list.splits token.splits if_splits
      dest!: fill_shorter axis_shorter [OF assms(1)])

lemma separator_shorter: "separator ts = Inr r \<Longrightarrow> length r \<le> length ts"
  by (auto simp: separator_def split: sum.splits if_splits dest: shorter)

lemma not_spent:
  "keyword k ts \<noteq> Inl Spent" "punct c ts \<noteq> Inl Spent" "punct_le ts \<noteq> Inl Spent"
  "by_syn f ts \<noteq> Inl Spent" "fill k old upd xs \<noteq> Inl Spent"
proof -
  show "keyword k ts \<noteq> Inl Spent" by (induction k ts rule: keyword.induct) auto
  show "punct c ts \<noteq> Inl Spent" by (induction c ts rule: punct.induct) auto
  show "punct_le ts \<noteq> Inl Spent" by (cases ts rule: punct_le.cases) (auto split: if_splits)
  show "by_syn f ts \<noteq> Inl Spent" by (auto simp: by_syn_def map_sum_def split: sum.splits)
  show "fill k old upd xs \<noteq> Inl Spent" by (auto simp: fill_def split: prod.splits if_splits)
qed

lemma and_then_Inl_iff: "and_then m f = Inl e \<longleftrightarrow> m = Inl e \<or> (\<exists>a. m = Inr a \<and> f a = Inl e)"
  by (cases m) auto

lemma parse_axis_not_spent: "parse_axis S env ts \<noteq> Inl Spent" "separator ts \<noteq> Inl Spent"
  by (auto simp: parse_axis_def separator_def cap_axis_def flow_axis_def budget_axis_def delegate_axis_def
      and_then_Inl_iff not_spent split: list.splits token.splits sum.splits if_splits)

lemma parse_axes_not_spent:
  "syn_consumes S \<Longrightarrow> length ts \<le> n \<Longrightarrow> parse_axes n S env ts \<noteq> Inl Spent"
proof (induction n arbitrary: env ts)
  case (Suc n)
  show ?case
    by (auto simp: and_then_Inl_iff parse_axis_not_spent dest!: parse_axis_shorter [OF Suc.prems(1)] separator_shorter)
      (use Suc.IH [OF Suc.prems(1)] Suc.prems(2) in fastforce)
qed simp

text \<open>
  A small instance, for the witnesses: identifiers joined by \<open>::\<close>, keywords refused, and literals
  that are numbers.
\<close>

fun toy_path :: "'l token list \<Rightarrow> string + path \<times> 'l token list" where
  "toy_path (Id w # Punct c True # Punct d j # r) =
     (if \<not> ident w then Inl ''expected identifier''
      else if c = CHR '':'' \<and> d = CHR '':'' then and_then (toy_path r) (\<lambda>(p, rest). Inr (w # p, rest))
      else Inr ([w], Punct c True # Punct d j # r))"
| "toy_path (Id w # r) = (if ident w then Inr ([w], r) else Inl ''expected identifier'')"
| "toy_path ts = Inl ''expected identifier''"

fun toy_print :: "path \<Rightarrow> 'l token list" where
  "toy_print [] = []"
| "toy_print [w] = [Id w]"
| "toy_print (w # v # p) = Id w # Punct CHR '':'' True # Punct CHR '':'' False # toy_print (v # p)"

definition toy_syn :: "nat syn_lib" where
  "toy_syn = \<lparr>parse_path = toy_path,
     parse_lit = \<lambda>ts. (case ts of Lit n # r \<Rightarrow> Inr (n, r) | _ \<Rightarrow> Inl ''expected integer literal''),
     base10_parse = \<lambda>n. if n < 2 ^ 32 then Inr n else Inl ''number too large to fit in target type''\<rparr>"

lemma toy_path_print: "path_ok p \<Longrightarrow> closes rest \<Longrightarrow> toy_path (toy_print p @ rest) = Inr (p, rest)"
proof (induction p rule: toy_print.induct)
  case (2 w)
  then show ?case
    by (cases "Id w # rest" rule: toy_path.cases) (auto simp: path_ok_def closes_def)
qed (simp_all add: path_ok_def)

lemma toy_path_shorter: "toy_path ts = Inr (p, rest) \<Longrightarrow> length rest \<le> length ts"
  by (induction ts arbitrary: p rest rule: toy_path.induct)
    (fastforce simp: and_then_Inr_iff split: if_splits)+

lemma toy_syn_ok: "syn_reads toy_syn toy_print id" "syn_consumes toy_syn"
proof -
  show "syn_reads toy_syn toy_print id" by (simp add: syn_reads_def toy_syn_def toy_path_print)
  show "syn_consumes toy_syn"
    using toy_path_shorter by (auto simp: syn_consumes_def toy_syn_def split: list.splits token.splits)
qed

text \<open>What is no path is not read as one: nothing, a keyword, a word that starts with a digit.\<close>

lemma toy_path_refuses:
  "isl (toy_path [])" "isl (toy_path [Id ''crate''])" "isl (toy_path [Id ''7up''])" "isl (toy_path [Lit 3])"
  by (simp_all add: ident_def rust_keywords_def ident_start_def)

section \<open>What acceptance gives\<close>

lemma find_declared:
  "distinct (map declared ds) \<Longrightarrow> d \<in> set ds \<Longrightarrow> find (\<lambda>e. declared e = declared d) ds = Some d"
  by (induction ds) auto

lemma crate_ok_find:
  assumes "crate_ok C" "granted C i t"
  shows "\<exists>d. find (\<lambda>d. declared d = i) (decls C) = Some d \<and> d \<in> set (decls C) \<and> t \<in> set (listed d) \<and>
    tool_names C t \<noteq> None"
proof -
  from assms(2) obtain d where "d \<in> set (decls C)" "declared d = i" "t \<in> set (listed d)"
    by (auto simp: granted_def)
  with assms(1) find_declared [of "decls C" d] show ?thesis by (auto simp: crate_ok_def decl_ok_def)
qed

lemma service_cap: "service_ok C env \<Longrightarrow> env_cap env = Some (tool, iss) \<Longrightarrow> granted C iss tool"
  by (simp add: service_ok_def lower_def emitted_ok_def)

lemma cap_problem_granted: "n \<in> set gs \<Longrightarrow> decide_pure (cap_problem gs i n)"
  by (simp add: cap_problem_def decide_pure_def infer_cap Let_def)

lemma cap_problem_hd:
  "decide_pure (cap_problem gs i n) \<longleftrightarrow> n \<in> set gs \<or> (\<exists>g r. gs = g # r \<and> cap_atom g = cap_atom n)"
  by (cases gs; cases "n \<in> set gs") (auto simp: cap_problem_def decide_pure_def infer_cap Let_def)

lemma demanded_atom_cap: "demanded_atom (cap_problem gs i n) = Some (cap_atom n)"
  by (simp add: cap_problem_def demanded_atom_def Let_def)

section \<open>Where authority comes from\<close>

text \<open>The delegations, as a relation from parent to delegate.\<close>

definition delegation :: "crate \<Rightarrow> (path \<times> path) set" where
  "delegation C = {(parent d, declared d) | d. d \<in> set (decls C) \<and> (\<exists>p i ts. d = Delegates p i ts)}"

definition root_grant :: "crate \<Rightarrow> path \<Rightarrow> path \<Rightarrow> bool" where
  "root_grant C i t \<longleftrightarrow> (\<exists>ts. Grants i ts \<in> set (decls C) \<and> t \<in> set ts)"

lemma delegation_finite: "finite (delegation C)"
  by (rule finite_subset [of _ "(\<lambda>d. (parent d, declared d)) ` set (decls C)"]) (auto simp: delegation_def)

lemma granted_cases:
  assumes "crate_ok C" "granted C i t"
  shows "root_grant C i t \<or> (\<exists>p. (p, i) \<in> delegation C \<and> granted C p t)"
proof -
  from assms(2) obtain d where d: "d \<in> set (decls C)" "declared d = i" "t \<in> set (listed d)"
    by (auto simp: granted_def)
  with assms(1) have "decl_ok C d" by (simp add: crate_ok_def)
  show ?thesis
  proof (cases d)
    case (Grants j ts)
    with d show ?thesis by (auto simp: root_grant_def)
  next
    case (Delegates p j ts)
    with d \<open>decl_ok C d\<close> have "granted C p t" "(p, i) \<in> delegation C"
      by (auto simp: decl_ok_def delegation_def intro!: exI [of _ d])
    then show ?thesis by blast
  qed
qed

lemma granted_from_root:
  assumes "crate_ok C" "wf (delegation C)" "granted C i t"
  shows "\<exists>r. root_grant C r t \<and> (r, i) \<in> (delegation C)\<^sup>*"
  using assms(2,3)
proof (induction i rule: wf_induct_rule)
  case (less i)
  from granted_cases [OF assms(1) less.prems] show ?case
  proof
    assume "\<exists>p. (p, i) \<in> delegation C \<and> granted C p t"
    then obtain p where "(p, i) \<in> delegation C" "granted C p t" by blast
    with less.IH [of p] show ?thesis by (meson rtrancl.rtrancl_into_rtrancl)
  qed blast
qed

text \<open>A crate with a root issuer of two tools, a delegate of one, and a service under the delegate.\<close>

definition demo_crate :: crate where
  "demo_crate = \<lparr>tool_names = [[''Send''] \<mapsto> ascii ''send-email'', [''Write''] \<mapsto> ascii ''Write''],
     decls = [Grants [''Admin''] [[''Send''], [''Write'']], Delegates [''Admin''] [''Intern''] [[''Send'']]],
     flows = []\<rparr>"

definition demo_env :: envelope where
  "demo_env = env_default\<lparr>env_cap := Some ([''Send''], [''Intern'']), env_delegate := Some ()\<rparr>"

lemma demo_crate_ok: "crate_ok demo_crate"
  by (simp add: crate_ok_def demo_crate_def decl_ok_def granted_def)

lemma demo_env_ok: "service_ok demo_crate demo_env"
  by (simp add: service_ok_def lower_def demo_env_def env_default_def emitted_ok_def granted_def
      demo_crate_def lineage_def)

section \<open>Properties\<close>

text \<open>A service that compiles carries a certificate that the checker accepts: with a \<open>cap\<close> axis
  the hidden test compiles, and the demanded capability is discharged by the issuer's
  declaration.\<close>

theorem compiled_service_certified:
  assumes "crate_ok C" "service_ok C env" "env_cap env = Some (tool, iss)"
  shows "\<exists>problem. certificate_test C env = Some problem \<and> decide_pure problem"
proof -
  from crate_ok_find [OF assms(1) service_cap [OF assms(2,3)]] obtain d n where
    d: "find (\<lambda>d. declared d = iss) (decls C) = Some d" "tool \<in> set (listed d)" "tool_names C tool = Some n"
    by auto
  define gs where "gs = map (\<lambda>t. case tool_names C t of Some n \<Rightarrow> n | None \<Rightarrow> []) (listed d)"
  from d(2,3) have "n \<in> set gs" by (force simp: gs_def)
  moreover have "issuer_grants C iss = Some gs" using d(1) by (simp add: issuer_grants_def gs_def)
  ultimately show ?thesis
    using d(3) assms(3) cap_problem_granted by (simp add: certificate_test_def)
qed

theorem compiled_service_certified_witness:
  "\<exists>problem. certificate_test demo_crate demo_env = Some problem \<and> decide_pure problem"
  by (rule compiled_service_certified [OF demo_crate_ok demo_env_ok]) (simp add: demo_env_def)

text \<open>C30: conversely the certificate bites: when the tools' atoms are distinct, the checker accepts
  the certificate of a declared issuer only if the issuer was granted the tool.\<close>

theorem certificate_bites:
  assumes "crate_ok C" "env_cap env = Some (tool, iss)" "certificate_test C env = Some problem"
    "inj_on (\<lambda>t. map_option cap_atom (tool_names C t)) (dom (tool_names C))"
  shows "decide_pure problem \<longleftrightarrow> granted C iss tool"
proof
  assume dec: "decide_pure problem"
  from assms(2,3) obtain d n where d: "find (\<lambda>d. declared d = iss) (decls C) = Some d"
    "tool_names C tool = Some n"
    "problem = cap_problem (map (\<lambda>t. case tool_names C t of Some n \<Rightarrow> n | None \<Rightarrow> []) (listed d)) (ascii (last iss)) n"
    by (auto simp: certificate_test_def issuer_grants_def split: option.splits)
  have in_d: "d \<in> set (decls C)" "declared d = iss" using d(1) by (auto simp: find_Some_iff)
  with assms(1) have named: "\<forall>t \<in> set (listed d). tool_names C t \<noteq> None"
    by (simp add: crate_ok_def decl_ok_def)
  from dec d(3) obtain t where t: "t \<in> set (listed d)"
    "cap_atom (case tool_names C t of Some n \<Rightarrow> n | None \<Rightarrow> []) = cap_atom n"
    by (cases "listed d") (auto simp: cap_problem_hd)
  with named obtain m where "tool_names C t = Some m" "cap_atom m = cap_atom n" by auto
  with d(2) have "t = tool" by (intro inj_onD [OF assms(4)]) auto
  with t(1) in_d show "granted C iss tool" by (auto simp: granted_def)
next
  assume "granted C iss tool"
  from crate_ok_find [OF assms(1) this] obtain d where
    d: "find (\<lambda>d. declared d = iss) (decls C) = Some d" "tool \<in> set (listed d)" by auto
  with assms(2,3) show "decide_pure problem"
    by (force simp: certificate_test_def issuer_grants_def split: option.splits intro: cap_problem_granted)
qed

theorem certificate_bites_witness:
  "decide_pure (cap_problem [ascii ''send-email''] (ascii ''Intern'') (ascii ''send-email'')) \<longleftrightarrow>
    granted demo_crate [''Intern''] [''Send'']"
proof (rule certificate_bites [OF demo_crate_ok, of demo_env])
  show "inj_on (\<lambda>t. map_option cap_atom (tool_names demo_crate t)) (dom (tool_names demo_crate))"
    by (simp add: demo_crate_def cap_atom_def ascii_def of_char_def)
qed (simp_all add: demo_env_def certificate_test_def issuer_grants_def demo_crate_def)

text \<open>Delegation only narrows, where it does not go round in circles: whatever an issuer was
  granted in a crate that compiles, a root issuer was granted by \<open>grants!\<close> and handed down
  to it.\<close>

theorem delegation_narrows:
  assumes "crate_ok C" "acyclic (delegation C)" "granted C i t"
  shows "\<exists>r. root_grant C r t \<and> (r, i) \<in> (delegation C)\<^sup>*"
  using assms finite_acyclic_wf [OF delegation_finite] by (intro granted_from_root)

theorem delegation_narrows_witness:
  "\<exists>r. root_grant demo_crate r [''Send''] \<and> (r, [''Intern'']) \<in> (delegation demo_crate)\<^sup>*"
proof (rule delegation_narrows [OF demo_crate_ok])
  have "delegation demo_crate = {([''Admin''], [''Intern''])}"
    by (force simp: delegation_def demo_crate_def)
  then show "acyclic (delegation demo_crate)" by (simp add: acyclic_insert acyclic_def [of "{}"])
qed (simp add: granted_def demo_crate_def)

text \<open>C27: a delegation to oneself creates authority from nothing: the crate with the single
  declaration that an issuer delegates a tool to itself compiles, a service that demands the tool
  and attenuation compiles, and its certificate is accepted, although nobody was granted
  anything.\<close>

theorem circular_delegation_grants:
  "let C = \<lparr>tool_names = [t \<mapsto> n], decls = [Delegates i i [t]], flows = []\<rparr>;
       env = env_default\<lparr>env_cap := Some (t, i), env_delegate := Some ()\<rparr>
   in crate_ok C \<and> service_ok C env \<and>
     (\<exists>problem. certificate_test C env = Some problem \<and> decide_pure problem) \<and>
     (\<nexists>r u. root_grant C r u)"
  by (simp add: Let_def crate_ok_def decl_ok_def granted_def service_ok_def lower_def env_default_def
      emitted_ok_def lineage_def certificate_test_def issuer_grants_def cap_problem_granted root_grant_def)

text \<open>The envelope's grammar reads back what is written in it: axes in any order parse to the
  envelope that holds them, and a repeated axis is an error that names it.\<close>

theorem axes_roundtrip:
  assumes "syn_reads S pp pl" "list_all axis_ok as"
  shows "if distinct (map axis_name as)
    then parse_envelope S (print_axes pp pl as) = Inr (fold set_axis as env_default)
    else \<exists>k. parse_envelope S (print_axes pp pl as) = Inl (Duplicate k)"
  using parse_print_axes [OF assms order_refl, of env_default]
  by (simp add: parse_envelope_def env_default_no_axis)

theorem axes_roundtrip_witness:
  "parse_envelope toy_syn (print_axes toy_print id [DelegateAxis, BudgetAxis 1, CapAxis [''Send''] [''Intern'']]) =
     Inr \<lparr>env_cap = Some ([''Send''], [''Intern'']), env_flow = None, env_budget = Some 1, env_delegate = Some ()\<rparr>"
  using axes_roundtrip [OF toy_syn_ok(1), of "[DelegateAxis, BudgetAxis 1, CapAxis [''Send''] [''Intern'']]"]
  by (simp add: axis_ok_def path_simps env_default_def)

text \<open>Parsing an envelope ends: the tokens are fuel enough, whatever they are.\<close>

theorem parse_envelope_ends:
  assumes "syn_consumes S"
  shows "parse_envelope S ts \<noteq> Inl Spent"
  unfolding parse_envelope_def using assms by (rule parse_axes_not_spent) simp

theorem parse_envelope_ends_witness:
  "parse_envelope toy_syn [Id ''cap'', Other_tok] \<noteq> Inl Spent"
  by (rule parse_envelope_ends [OF toy_syn_ok(2)])

text \<open>The gated mint and the certificate are about one tool, but not about one issuer: a witness
  for the envelope's tool and issuer is minted on a signature over the very atom that the
  certificate demands, by whatever principal the caller names, and the same signature mints the
  witness of every other issuer.\<close>

theorem gated_mint:
  assumes "env_cap env = Some (tool, iss)" "certificate_test C env = Some problem"
    "cap_admit C L tool iss keyring p sig = Some (Inr w)"
  shows "w = CapWitness tool iss \<and>
    (\<exists>a. demanded_atom problem = Some a \<and> verify_in_keyring L keyring p (cap_message a) sig = Inr ()) \<and>
    cap_admit C L tool other keyring p sig = Some (Inr (CapWitness tool other))"
proof -
  from assms(1,2) obtain gs n where n: "tool_names C tool = Some n" "problem = cap_problem gs (ascii (last iss)) n"
    by (auto simp: certificate_test_def split: option.splits)
  then have "demanded_atom problem = Some (cap_atom n)"
    by (simp add: demanded_atom_cap)
  with assms(3) n(1) show ?thesis by (auto simp: cap_admit_def and_then_Inr_iff admit_ok)
qed

theorem gated_mint_witness:
  "case treasury_credential toy_ed25519 (ascii ''send-email'') of (keyring, p, sig) \<Rightarrow>
    cap_admit demo_crate toy_ed25519 [''Send''] [''Admin''] keyring p sig =
      Some (Inr (CapWitness [''Send''] [''Admin'']))"
proof -
  obtain keyring p sig where c: "treasury_credential toy_ed25519 (ascii ''send-email'') = (keyring, p, sig)"
    by (cases "treasury_credential toy_ed25519 (ascii ''send-email'')")
  have "cap_admit demo_crate toy_ed25519 [''Send''] [''Intern''] keyring p sig =
      Some (Inr (CapWitness [''Send''] [''Intern'']))"
    using treasury_admitted [OF toy_ed25519_ok, of "ascii ''send-email''"] c
    by (simp add: cap_admit_def demo_crate_def)
  moreover obtain problem where "certificate_test demo_crate demo_env = Some problem"
    by (simp add: certificate_test_def demo_env_def demo_crate_def issuer_grants_def)
  ultimately show ?thesis
    using gated_mint [of demo_env "[''Send'']" "[''Intern'']" demo_crate problem toy_ed25519 keyring p sig
        "CapWitness [''Send''] [''Intern'']" "[''Admin'']"] c
    by (simp add: demo_env_def)
qed

text \<open>C39: the macro leaves nothing of a written envelope out.  For axes in any order, each kind at
  most once, whose paths are made of identifiers and whose budget is below \<open>2 ^ 32\<close>, the
  expansion exists and holds the gate of each axis: the grant of a \<open>cap\<close> axis, with the
  certificate and the witness parameter of its tool and issuer, the flow of a \<open>flow\<close> axis, the
  anchor of a budget, and for a \<open>delegate\<close> axis the lineage of the issuer of the \<open>cap\<close> axis or, when
  there is none, a compile error.\<close>

theorem expansion_complete:
  assumes "syn_reads S pp pl" "list_all axis_ok as" "distinct (map axis_name as)" "parse_item item = Inr f"
  shows "\<exists>x. agent_service S parse_item (print_axes pp pl as) item = Inr x \<and>
    obligations x = lower (fold set_axis as env_default) \<and>
    (\<forall>t i. CapAxis t i \<in> set as \<longrightarrow> AssertGranted i t \<in> set (obligations x) \<and>
       certificate x = Some (''__dlc_d_cert_'' @ fn_ident f, t, i) \<and> inputs (governed x) = inputs f @ [WitnessArg t i]) \<and>
    (\<forall>s d. FlowAxis s d \<in> set as \<longrightarrow> AssertFlows s d \<in> set (obligations x)) \<and>
    (\<forall>n. BudgetAxis n \<in> set as \<longrightarrow> AnchorFaults n \<in> set (obligations x)) \<and>
    (DelegateAxis \<in> set as \<longrightarrow> (\<exists>t i. CapAxis t i \<in> set as \<and> AssertLineage i \<in> set (obligations x)) \<or>
       (\<forall>t i. CapAxis t i \<notin> set as) \<and> (\<exists>msg. CompileError msg \<in> set (obligations x)))"
proof -
  let ?env = "fold set_axis as env_default"
  have parse: "parse_envelope S (print_axes pp pl as) = Inr ?env"
    using parse_print_axes [OF assms(1,2) order_refl, of env_default] assms(3)
    by (simp add: parse_envelope_def env_default_no_axis)
  note axis = fold_set_axis [OF assms(3), of _ env_default]
  have lineage: "(\<exists>t i. CapAxis t i \<in> set as \<and> AssertLineage i \<in> set (lower ?env)) \<or>
      (\<forall>t i. CapAxis t i \<notin> set as) \<and> (\<exists>msg. CompileError msg \<in> set (lower ?env))"
    if "DelegateAxis \<in> set as"
  proof (cases "env_cap ?env")
    case None
    with axis [of "CapAxis _ _"] have "CapAxis t i \<notin> set as" for t i by fastforce
    with None axis [OF that] show ?thesis by (auto simp: lower_def)
  next
    case (Some ti)
    with fold_set_axis_cap [of as env_default] axis [OF that] show ?thesis
      by (cases ti) (auto simp: lower_def env_default_def)
  qed
  have "agent_service S parse_item (print_axes pp pl as) item = Inr \<lparr>obligations = lower ?env,
      certificate = map_option (\<lambda>(t, i). (''__dlc_d_cert_'' @ fn_ident f, t, i)) (env_cap ?env),
      governed = (case env_cap ?env of Some (t, i) \<Rightarrow> f\<lparr>inputs := inputs f @ [WitnessArg t i],
         attrs := attrs f @ [GovernedNote t i]\<rparr> | None \<Rightarrow> f)\<rparr>"
    by (simp add: agent_service_def parse assms(4) Let_def split: option.split)
  moreover have "AssertGranted i t \<in> set (lower ?env) \<and> env_cap ?env = Some (t, i)" if "CapAxis t i \<in> set as" for t i
    using axis [OF that] by (simp add: lower_def)
  moreover have "AssertFlows s d \<in> set (lower ?env)" if "FlowAxis s d \<in> set as" for s d
    using axis [OF that] by (simp add: lower_def)
  moreover have "AnchorFaults n \<in> set (lower ?env)" if "BudgetAxis n \<in> set as" for n
    using axis [OF that] by (simp add: lower_def)
  ultimately show ?thesis using lineage by (intro exI conjI) (assumption | fastforce)+
qed

theorem expansion_complete_witness:
  "\<exists>x. agent_service toy_syn Inr (print_axes toy_print id [BudgetAxis 1, CapAxis [''Send''] [''Intern'']])
      \<lparr>fn_ident = ''send'', inputs = [Own ''self''], attrs = []\<rparr> = Inr x \<and>
    AnchorFaults 1 \<in> set (obligations x) \<and> inputs (governed x) = [Own ''self'', WitnessArg [''Send''] [''Intern'']]"
  using expansion_complete [OF toy_syn_ok(1), of "[BudgetAxis 1, CapAxis [''Send''] [''Intern'']]" Inr
      "\<lparr>fn_ident = ''send'', inputs = [Own ''self''], attrs = []\<rparr>"]
  by (auto simp: axis_ok_def path_simps)

end
