(* ===== verification/Demo.thy ===== *)
theory Demo
  imports Admission Net
begin

text \<open>
  The workload and the scenarios that the binaries run (\<open>crates/dlc-d-node/src/demo.rs\<close>,
  \<open>authdemo.rs\<close>, \<open>main.rs\<close>): a leader that equivocates against a crash roster and against a
  Byzantine one.  \<open>None\<close> is a panic, of an \<open>expect\<close> or of a handler.
\<close>

section \<open>The workload of the crash-fault cluster\<close>

definition init :: trm where
  "init = Lam (Atom 0) (Var 0)"

definition dup :: command where
  "dup = \<lparr>payload = Lam (Atom 0) (Pair_t (Var 0) (Var 0)), cap = None\<rparr>"

definition fst_cmd :: command where
  "fst_cmd = \<lparr>payload = Lam (Atom 0) (Fst (Var 0)), cap = None\<rparr>"

definition dup_with_cap :: command where
  "dup_with_cap = \<lparr>payload = payload dup, cap = Some (Atom 7)\<rparr>"

definition workload :: "command list" where
  "workload = [dup_with_cap, dup, fst_cmd]"

section \<open>The authenticated scenarios\<close>

definition demo_seed :: "u8 \<Rightarrow> bytes" where
  "demo_seed n = replicate 32 n"

definition issuer_seed :: bytes where
  "issuer_seed = demo_seed 200"

definition cmd :: "bool \<Rightarrow> command" where
  "cmd d = (let body = (if d then Pair_t (Var 0) (Var 0) else Var 0) in
     \<lparr>payload = Lam (Atom 0) body, cap = Some (Atom 7)\<rparr>)"

definition cap_for :: "ed25519_lib \<Rightarrow> (cbor \<Rightarrow> bytes) \<Rightarrow> command \<Rightarrow> capability" where
  "cap_for L cw c = issue_capability L cw issuer_seed c"

definition keys :: "ed25519_lib \<Rightarrow> u32 \<Rightarrow> bytes list" where
  "keys L n = map (\<lambda>i. ed25519_public_key L (demo_seed (ucast (of_nat i :: u32)))) [0..<unat n]"

definition crash_roster :: "ed25519_lib \<Rightarrow> u32 \<Rightarrow> roster option" where
  "crash_roster L n = roster_new (keys L n)"

definition byz_roster :: "ed25519_lib \<Rightarrow> u32 \<Rightarrow> roster option" where
  "byz_roster L n = roster_new_byzantine (keys L n)"

definition node_at :: "ed25519_lib \<Rightarrow> u32 \<Rightarrow> roster \<Rightarrow> auth_node option" where
  "node_at L idx r = auth_new L (demo_seed (ucast idx)) r idx 0 init (fb_zero 1)"

definition auth_store :: "auth_node \<Rightarrow> trm option" where
  "auth_store n = map_option store (get_nth (replicas (an_view n)) 0)"

definition auth_applied :: "auth_node \<Rightarrow> u32 option" where
  "auth_applied n = map_option applied (get_nth (replicas (an_view n)) 0)"

record equiv_outcome =
  eq_applied :: "(u32 \<times> trm) list"
  eq_diverged :: bool

text \<open>The votes of one side, and the loop that delivers its commit to its group.\<close>

definition side_votes :: "ed25519_lib \<Rightarrow> (cbor \<Rightarrow> bytes) \<Rightarrow> command \<Rightarrow> u32 list \<Rightarrow> vote list" where
  "side_votes L cw c side =
     cast_vote L cw (demo_seed 0) 0 c # map (\<lambda>i. cast_vote L cw (demo_seed (ucast i)) 0 c) side"

fun deliver_side :: "ed25519_lib \<Rightarrow> (cbor \<Rightarrow> bytes) \<Rightarrow> roster \<Rightarrow> commit_msg \<Rightarrow> u32 list \<Rightarrow> (u32 \<times> trm) list option" where
  "deliver_side L cw r c [] = Some []"
| "deliver_side L cw r c (i # js) =
     (case node_at L i r of
        None \<Rightarrow> None
      | Some nd \<Rightarrow> (case auth_handle L cw nd (AuthCommit c) of
          None \<Rightarrow> None
        | Some (nd, outs) \<Rightarrow> (case (auth_applied nd, auth_store nd, deliver_side L cw r c js) of
            (Some a, Some s, Some rest) \<Rightarrow> Some (if a = 1 then (i, s) # rest else rest)
          | _ \<Rightarrow> None)))"

definition equivocation ::
    "ed25519_lib \<Rightarrow> (cbor \<Rightarrow> bytes) \<Rightarrow> roster \<Rightarrow> u32 list \<Rightarrow> u32 list \<Rightarrow> equiv_outcome option" where
  "equivocation L cw r to_a to_b =
     (let a = cmd True; b = cmd False;
          commit_a = \<lparr>c_slot = 0, c_cmd = a, c_qc = \<lparr>qc_votes = side_votes L cw a to_a\<rparr>\<rparr>;
          commit_b = \<lparr>c_slot = 0, c_cmd = b, c_qc = \<lparr>qc_votes = side_votes L cw b to_b\<rparr>\<rparr>
      in case (deliver_side L cw r commit_a to_a, deliver_side L cw r commit_b to_b) of
        (Some xs, Some ys) \<Rightarrow>
          (let app = xs @ ys in
           Some \<lparr>eq_applied = app,
             eq_diverged = list_ex (\<lambda>(i, s1). list_ex (\<lambda>(j, s2). s1 \<noteq> s2) app) app\<rparr>)
      | _ \<Rightarrow> None)"

section \<open>What the commands do to a store\<close>

lemma apply_lam:
  assumes "step (subst body s) = None"
  shows "apply_command \<lparr>payload = Lam p body, cap = c\<rparr> s = subst body s"
proof -
  have "step (App (Lam p body) s) = Some (subst body s)" by simp
  moreover have "unat (1024 :: u32) = Suc (Suc 1022)" by simp
  ultimately show ?thesis using assms
    unfolding apply_command_def reduce_with_fuel_def apply_fuel_def
    by (simp only: reduce_loop_once command.select_convs fst_conv)
qed

lemma apply_dup: "apply_command \<lparr>payload = Lam (Atom 0) (Pair_t (Var 0) (Var 0)), cap = c\<rparr> s = Pair_t s s"
  using apply_lam [of "Pair_t (Var 0) (Var 0)" s] by (simp add: subst_def shift_0)

lemma apply_id: "step s = None \<Longrightarrow> apply_command \<lparr>payload = Lam (Atom 0) (Var 0), cap = c\<rparr> s = s"
  using apply_lam [of "Var 0" s] by (simp add: subst_def shift_0)

lemma reduce_loop_twice:
  "step t = Some u \<Longrightarrow> step u = Some v \<Longrightarrow> step v = None \<Longrightarrow>
     reduce_loop (Suc (Suc (Suc k))) n fuel t = (v, n + 1 + 1)"
  by simp

lemma apply_fst:
  assumes "step a = None"
  shows "apply_command \<lparr>payload = Lam (Atom 0) (Fst (Var 0)), cap = c\<rparr> (Pair_t a b) = a"
proof -
  have "step (App (Lam (Atom 0) (Fst (Var 0))) (Pair_t a b)) = Some (Fst (Pair_t a b))"
    by (simp add: subst_def shift_0)
  moreover have "step (Fst (Pair_t a b)) = Some a" by simp
  moreover have "unat (1024 :: u32) = Suc (Suc (Suc 1021))" by simp
  ultimately show ?thesis using assms
    unfolding apply_command_def reduce_with_fuel_def apply_fuel_def
    by (simp only: reduce_loop_twice command.select_convs fst_conv)
qed

lemma cmd_applied: "apply_command (cmd True) init = Pair_t init init" "apply_command (cmd False) init = init"
  using apply_dup apply_id [of init] by (simp_all add: cmd_def init_def)

section \<open>One side of the equivocation\<close>

lemma keys_nth: "i < unat n \<Longrightarrow> keys L n ! i = ed25519_public_key L (demo_seed (ucast (of_nat i :: u32)))"
  by (simp add: keys_def)

lemma keys_length [simp]: "length (keys L n) = unat n"
  by (simp add: keys_def)

lemma seat_key: "i < n \<Longrightarrow> keys L n ! unat i = ed25519_public_key L (demo_seed (ucast i))"
  by (simp add: keys_nth word_less_nat_alt)

lemma node_at_Some:
  assumes "members r = keys L n" "i < n"
  shows "\<exists>nd. node_at L i r = Some nd \<and> an_roster nd = r \<and> an_idx nd = i \<and> an_view nd = fresh_view i init (fb_zero 1)"
  using assms by (auto simp: node_at_def auth_new_def roster_member_def get_nth_def seat_key word_less_nat_alt Let_def)

lemma deliver_one:
  assumes "members r = keys L n" "i < n" "c_slot c = 0"
  shows "\<exists>nd nd2 outs. node_at L i r = Some nd \<and> auth_handle L cw nd (AuthCommit c) = Some (nd2, outs) \<and>
    (if verify_commit L cw c r
     then auth_applied nd2 = Some 1 \<and> auth_store nd2 = Some (apply_command (c_cmd c) init)
     else auth_applied nd2 = Some 0 \<and> auth_store nd2 = Some init)"
proof -
  from node_at_Some [OF assms(1,2)] obtain nd where nd: "node_at L i r = Some nd" "an_roster nd = r"
    "an_idx nd = i" "an_view nd = fresh_view i init (fb_zero 1)" by blast
  have ok: "view_ok init i (an_view nd)" "log (an_view nd) = []"
    by (simp_all add: nd(4) view_ok_def fresh_view_def)
  then have slot: "auth_next_slot nd = 0" by (simp add: auth_next_slot_def next_slot_def)
  show ?thesis
  proof (cases "verify_commit L cw c r")
    case True
    from apply_commit_view_ok [OF ok(1), of "c_cmd c"] ok(2) obtain w where
      w: "apply_commit_view (an_view nd) (c_cmd c) = Some w" "view_ok init i w" "log w = [c_cmd c]" by auto
    from w(2,3) obtain rep where rep: "replicas w = [rep]" "unat (applied rep) = 1"
      "store rep = apply_command (c_cmd c) init"
      by (auto simp: view_ok_def apply_prefix_fold)
    from rep(2) have "applied rep = 1" by (simp add: word_unat_eq_iff)
    with nd slot True assms(3) w(1) rep show ?thesis
      by (simp add: auth_handle_def auth_apply_commit_def auth_applied_def auth_store_def get_nth_def)
  next
    case False
    with nd slot show ?thesis
      by (simp add: auth_handle_def auth_applied_def auth_store_def get_nth_def fresh_view_def)
  qed
qed

lemma deliver_side_eq:
  assumes "members r = keys L n" "\<forall>i \<in> set side. i < n" "c_slot c = 0"
  shows "deliver_side L cw r c side =
    Some (if verify_commit L cw c r then map (\<lambda>i. (i, apply_command (c_cmd c) init)) side else [])"
  using assms(2)
proof (induction side)
  case (Cons i js)
  from deliver_one [OF assms(1) _ assms(3), of i cw] Cons.prems obtain nd nd2 outs where
    nd: "node_at L i r = Some nd" "auth_handle L cw nd (AuthCommit c) = Some (nd2, outs)"
    "if verify_commit L cw c r
     then auth_applied nd2 = Some 1 \<and> auth_store nd2 = Some (apply_command (c_cmd c) init)
     else auth_applied nd2 = Some 0 \<and> auth_store nd2 = Some init" by auto
  with Cons show ?case by (cases "verify_commit L cw c r") auto
qed simp

lemma side_verifies:
  assumes "ed25519_ok L" "members r = keys L n" "distinct (keys L n)" "0 < n" "\<forall>i \<in> set side. i < n"
  shows "verify_commit L cw \<lparr>c_slot = 0, c_cmd = c, c_qc = \<lparr>qc_votes = side_votes L cw c side\<rparr>\<rparr> r \<longleftrightarrow>
    roster_is_quorum r (card (insert 0 (set side)))"
proof -
  let ?seats = "insert 0 (set side)"
  have seats: "\<forall>i \<in> ?seats. i < n" using assms(4,5) by simp
  have "keys L n ! 0 = ed25519_public_key L (demo_seed 0)" using seat_key [OF assms(4), of L] by simp
  then have voters: "voter ` set (side_votes L cw c side) = (\<lambda>i. keys L n ! unat i) ` ?seats"
    using seats by (auto simp: side_votes_def cast_vote_def seat_key image_iff)
  have "inj_on (\<lambda>i. keys L n ! unat i) ?seats"
    using seats assms(3) by (auto simp: inj_on_def nth_eq_iff_index_eq word_less_nat_alt word_unat_eq_iff)
  then have card: "card (voter ` set (side_votes L cw c side)) = card ?seats"
    unfolding voters by (rule card_image)
  have "verify_vote L cw (cast_vote L cw (demo_seed (ucast i)) 0 c) 0 c r" if "i \<in> ?seats" for i
  proof -
    from that seats have "unat i < length (keys L n)" by (auto simp: word_less_nat_alt)
    then have "keys L n ! unat i \<in> set (members r)" unfolding assms(2) by (rule nth_mem)
    moreover have "keys L n ! unat i = ed25519_public_key L (demo_seed (ucast i))"
      using that seats by (intro seat_key) auto
    moreover have "length (demo_seed (ucast i)) = 32" by (simp add: demo_seed_def)
    ultimately show ?thesis
      using ed25519_sign_verify [OF assms(1)] by (simp add: verify_vote_def cast_vote_def)
  qed
  from this [of 0] this have "\<forall>v \<in> set (side_votes L cw c side). verify_vote L cw v 0 c r"
    by (auto simp: side_votes_def)
  then show ?thesis by (simp add: verify_commit_def verify_qc_char card)
qed

lemma sides_differ:
  assumes "u \<noteq> (v :: trm)"
  shows "list_ex (\<lambda>(i, s1). list_ex (\<lambda>(j, s2). s1 \<noteq> s2)
      ((if qa then map (\<lambda>i. (i :: u32, u)) to_a else []) @ (if qb then map (\<lambda>i. (i, v)) to_b else [])))
    ((if qa then map (\<lambda>i. (i :: u32, u)) to_a else []) @ (if qb then map (\<lambda>i. (i, v)) to_b else [])) \<longleftrightarrow>
    qa \<and> qb \<and> to_a \<noteq> [] \<and> to_b \<noteq> []"
proof (cases "qa \<and> qb \<and> to_a \<noteq> [] \<and> to_b \<noteq> []")
  case True
  then obtain i as j bs where "to_a = i # as" "to_b = j # bs" by (auto simp: neq_Nil_conv)
  with True assms show ?thesis by simp
next
  case False
  then show ?thesis by (auto simp: list_ex_iff)
qed

lemma equivocation_eq:
  assumes "ed25519_ok L" "with_quorum (keys L n) q = Some r" "0 < n" "\<forall>i \<in> set to_a \<union> set to_b. i < n"
  shows "equivocation L cw r to_a to_b = Some
    (let qa = roster_is_quorum r (card (insert 0 (set to_a)));
         qb = roster_is_quorum r (card (insert 0 (set to_b)))
     in \<lparr>eq_applied = (if qa then map (\<lambda>i. (i, Pair_t init init)) to_a else []) @
           (if qb then map (\<lambda>i. (i, init)) to_b else []),
         eq_diverged = (qa \<and> qb \<and> to_a \<noteq> [] \<and> to_b \<noteq> [])\<rparr>)"
proof -
  from assms(2) have r: "members r = keys L n" "distinct (keys L n)" by (auto simp: with_quorum_Some)
  have ab: "\<forall>i \<in> set to_a. i < n" "\<forall>i \<in> set to_b. i < n" using assms(4) by auto
  have neq: "Pair_t init init \<noteq> init" by (simp add: init_def)
  show ?thesis
    by (simp add: equivocation_def deliver_side_eq [OF r(1) ab(1)] deliver_side_eq [OF r(1) ab(2)]
        side_verifies [OF assms(1) r assms(3) ab(1)] side_verifies [OF assms(1) r assms(3) ab(2)]
        cmd_applied Let_def sides_differ [OF neq] del: list_ex_append cong: if_cong split del: if_split)
qed

section \<open>Properties\<close>

text \<open>An equivocating leader splits the cluster exactly when each of the two groups, with the
  leader, reaches the roster's threshold; otherwise the run ends, without a panic, with every
  applied store equal.\<close>

theorem equivocation_splits_iff:
  assumes "ed25519_ok L" "with_quorum (keys L n) q = Some r" "0 < n" "\<forall>i \<in> set to_a \<union> set to_b. i < n"
    "to_a \<noteq> []" "to_b \<noteq> []"
  shows "\<exists>out. equivocation L cw r to_a to_b = Some out \<and>
    (eq_diverged out \<longleftrightarrow> roster_is_quorum r (card (insert 0 (set to_a))) \<and>
       roster_is_quorum r (card (insert 0 (set to_b)))) \<and>
    (\<not> eq_diverged out \<longrightarrow> (\<forall>(i, s) \<in> set (eq_applied out). \<forall>(j, t) \<in> set (eq_applied out). s = t))"
  using equivocation_eq [OF assms(1-4), of cw] assms(5,6) by (auto simp: Let_def)

lemma toy_keys: "keys toy_ed25519 n = map (\<lambda>i. demo_seed (ucast (of_nat i :: u32))) [0..<unat n]"
  by (simp add: keys_def)

lemma toy_roster: "n \<le> 4 \<Longrightarrow> with_quorum (keys toy_ed25519 n) q = Some \<lparr>members = keys toy_ed25519 n, rquorum = q\<rparr>"
proof -
  assume "n \<le> 4"
  then have n: "unat n \<le> 4" by (simp add: word_le_nat_alt)
  have "x = y" if "ucast (of_nat x :: u32) = (ucast (of_nat y :: u32) :: u8)" "x < 4" "y < 4" for x y
  proof -
    from that(2,3) have "x \<in> {0, 1, 2, 3}" "y \<in> {0, 1, 2, 3}" by auto
    with that(1) show ?thesis by auto
  qed
  with n have "inj_on (\<lambda>i. demo_seed (ucast (of_nat i :: u32))) {0..<unat n}"
    by (auto simp: inj_on_def demo_seed_def replicate_eq_replicate)
  then show ?thesis by (simp add: with_quorum_Some toy_keys distinct_map)
qed

theorem equivocation_splits_iff_witness:
  "\<exists>out. equivocation toy_ed25519 put \<lparr>members = keys toy_ed25519 3, rquorum = Crash\<rparr> [1] [2] = Some out \<and> eq_diverged out"
  using equivocation_splits_iff [OF toy_ed25519_ok toy_roster, of 3 "[1]" "[2]" put Crash]
  by (auto simp: roster_is_quorum_def quorum_reached_def roster_len_def)

text \<open>Two sets of seats that meet in one have, together, at most one more than there are seats.\<close>

lemma card_seats:
  assumes "\<forall>i \<in> S. i < (n :: u32)"
  shows "card S \<le> unat n"
proof -
  have "inj_on unat S" by (simp add: inj_on_def word_unat_eq_iff)
  moreover have "unat ` S \<subseteq> {..<unat n}" using assms by (auto simp: word_less_nat_alt)
  ultimately show ?thesis using card_mono [of "{..<unat n}" "unat ` S"] by (simp add: card_image)
qed

lemma card_sides:
  assumes "finite A" "finite B" "A \<inter> B \<subseteq> {z}" "\<forall>i \<in> A \<union> B. i < (n :: u32)"
  shows "card A + card B \<le> unat n + 1"
  using card_Un_Int [OF assms(1,2)] card_seats [OF assms(4)] card_mono [OF _ assms(3)] by simp

text \<open>C21: under a Byzantine roster of two members or more an equivocating leader never splits the
  cluster, whichever two disjoint groups it lies to.\<close>

theorem byzantine_roster_never_splits:
  assumes "ed25519_ok L" "byz_roster L n = Some r" "2 \<le> n" "\<forall>i \<in> set to_a \<union> set to_b. i < n"
    "set to_a \<inter> set to_b = {}"
  shows "\<exists>out. equivocation L cw r to_a to_b = Some out \<and> \<not> eq_diverged out"
proof -
  have n: "0 < n" using assms(3) by unat_arith
  have r: "with_quorum (keys L n) Byzantine = Some r" using assms(2) by (simp add: byz_roster_def roster_new_byzantine_def)
  then have len: "roster_len r = unat n" "rquorum r = Byzantine" by (auto simp: with_quorum_Some roster_len_def)
  let ?A = "insert 0 (set to_a)" and ?B = "insert 0 (set to_b)"
  have "card ?A + card ?B \<le> unat n + 1"
    using assms(4,5) n by (intro card_sides) auto
  moreover have "2 \<le> unat n" using assms(3) by (simp add: word_le_nat_alt)
  ultimately have "\<not> (roster_is_quorum r (card ?A) \<and> roster_is_quorum r (card ?B))"
    by (auto simp: roster_is_quorum_def quorum_reached_def len)
  with equivocation_eq [OF assms(1) r n assms(4), of cw] show ?thesis by (auto simp: Let_def)
qed

theorem byzantine_roster_never_splits_witness:
  "\<exists>out. equivocation toy_ed25519 put \<lparr>members = keys toy_ed25519 4, rquorum = Byzantine\<rparr> [1, 2] [3] = Some out \<and>
    \<not> eq_diverged out"
  by (rule byzantine_roster_never_splits [OF toy_ed25519_ok, of 4])
    (simp_all add: byz_roster_def roster_new_byzantine_def toy_roster)

text \<open>The workload is what its documentation promises: closed terms, a store that changes and
  comes back smaller, and an order that matters.\<close>

theorem workload_observable:
  "closed_at 0 init \<and> (\<forall>c \<in> set workload. closed_at 0 (payload c)) \<and>
   apply_prefix init workload = Pair_t init init \<and>
   apply_prefix init workload \<noteq> apply_prefix init [fst_cmd, dup_with_cap, dup]"
proof -
  have "step init = None" "step (Pair_t init init) = None" by (simp_all add: init_def)
  then have run: "apply_prefix init workload = Pair_t init init"
    by (simp add: apply_prefix_fold workload_def dup_with_cap_def dup_def fst_cmd_def apply_dup apply_fst)
  moreover have "apply_command fst_cmd init = Fst init"
    using apply_lam [of "Fst (Var 0)" init] by (simp add: fst_cmd_def subst_def shift_0 init_def)
  then have "apply_prefix init [fst_cmd, dup_with_cap, dup] =
      Pair_t (Pair_t (Fst init) (Fst init)) (Pair_t (Fst init) (Fst init))"
    by (simp add: apply_prefix_fold dup_with_cap_def dup_def apply_dup)
  ultimately show ?thesis
    by (simp add: workload_def dup_with_cap_def dup_def fst_cmd_def init_def)
qed

end
