(* ===== verification/Broadcast.thy ===== *)
theory Broadcast
  imports Node
begin

text \<open>
  What a crash-fault cluster promises its clients, as an abstract machine: atomic broadcast of the
  commands that clients offer.  The cluster of \<open>Node\<close>, with its messages, ballots and quorums,
  simulates it.
\<close>

section \<open>Atomic broadcast\<close>

text \<open>
  One sequence of chosen commands, and for each replica how many of them it has learned.
  A command is offered before it is chosen, and chosen before it is learned.
\<close>

record broadcast =
  chosen :: "command list"
  learned :: "nat list"
  offered :: "command set"

inductive spec_step :: "broadcast \<Rightarrow> broadcast \<Rightarrow> bool" where
  offer: "spec_step s (s\<lparr>offered := insert cmd (offered s)\<rparr>)"
| choose: "cmd \<in> offered s \<Longrightarrow> spec_step s (s\<lparr>chosen := chosen s @ [cmd]\<rparr>)"
| learn: "i < length (learned s) \<Longrightarrow> learned s ! i < length (chosen s) \<Longrightarrow>
    spec_step s (s\<lparr>learned := (learned s)[i := learned s ! i + 1]\<rparr>)"

definition spec_start :: "nat \<Rightarrow> broadcast" where
  "spec_start sz = \<lparr>chosen = [], learned = replicate sz 0, offered = {}\<rparr>"

text \<open>The state that a cluster presents: the leader's log is what has been chosen.\<close>

definition presents :: "nat \<Rightarrow> cluster \<Rightarrow> broadcast" where
  "presents ldr c = \<lparr>chosen = log_of c ldr, learned = map (\<lambda>n. length (log (nd_view n))) (nodes c),
     offered = submitted c\<rparr>"

section \<open>Steps of a cluster, seen from outside\<close>

definition extends_log :: "node \<Rightarrow> node \<Rightarrow> bool" where
  "extends_log n m \<longleftrightarrow> log (nd_view m) = log (nd_view n) \<or> (\<exists>cmd. log (nd_view m) = log (nd_view n) @ [cmd])"

lemma step_visible:
  assumes "cluster_step c d" "cluster_inv init sz ldr c" "sz < 2 ^ 31"
  shows "\<exists>j n. j < sz \<and> nodes d = (nodes c)[j := n] \<and> extends_log (nodes c ! j) n \<and>
    (submitted d = submitted c \<or> (\<exists>cmd. submitted d = insert cmd (submitted c)))"
  using assms(1,2)
proof (induction rule: cluster_step.induct)
  case (client i c cmd n outs)
  from client.prems client.hyps(1) have i: "i < sz" "node_ok init sz ldr i (nodes c ! i)"
    "ballot_in (insert cmd (submitted c)) (nodes c ! i)"
    by (auto simp: cluster_inv_def ballot_in_def)
  from node_submit_ok [OF i(2,3) _ assms(3) i(1) client.hyps(2), of cmd] client.hyps(3)
  have "extends_log (nodes c ! i) n" by (auto simp: quiet_def decides_def extends_log_def)
  with i(1) show ?case by auto
next
  case (deliver_msg i out c j n outs)
  from deliver_msg.prems deliver_msg.hyps(1,2) have j: "j < sz" "node_ok init sz ldr j (nodes c ! j)"
    "ballot_in (submitted c) (nodes c ! j)" "msg_in (submitted c) (o_msg out)"
    by (auto simp: cluster_inv_def)
  from node_handle_ok [OF j(2-4) assms(3) deliver_msg.hyps(4)] deliver_msg.hyps(5)
  have "extends_log (nodes c ! j) n" by (auto simp: quiet_def decides_def obeys_def extends_log_def)
  with j(1) show ?case by auto
qed

lemma offer_steps:
  "offered t = offered s \<or> (\<exists>cmd. offered t = insert cmd (offered s)) \<Longrightarrow>
     spec_step\<^sup>*\<^sup>* s (s\<lparr>offered := offered t\<rparr>)"
  using offer [of s] by (auto intro: r_into_rtranclp)

text \<open>The leader chooses a command and learns it in one step of the cluster.\<close>

lemma log_steps:
  assumes "cluster_inv init sz ldr c" "cluster_inv init sz ldr d" "j < sz" "ldr < sz"
    "nodes d = (nodes c)[j := n]" "extends_log (nodes c ! j) n"
  shows "spec_step\<^sup>*\<^sup>* ((presents ldr c)\<lparr>offered := submitted d\<rparr>) (presents ldr d)"
proof -
  let ?s = "(presents ldr c)\<lparr>offered := submitted d\<rparr>"
  have len: "length (nodes c) = sz" using assms(1) by (simp add: cluster_inv_def)
  have logs: "log_of d i = (if i = j then log (nd_view n) else log_of c i)" if "i < sz" for i
    using that len assms(5) by (simp add: log_of_def)
  have learned_d: "learned (presents ldr d) = (learned (presents ldr c))[j := length (log (nd_view n))]"
    by (simp add: presents_def assms(5) map_update)
  have learned_j: "learned (presents ldr c) ! j = length (log_of c j)" "j < length (learned (presents ldr c))"
    using assms(3) len by (simp_all add: presents_def log_of_def)
  from assms(6) consider "log (nd_view n) = log_of c j" | cmd where "log (nd_view n) = log_of c j @ [cmd]"
    by (auto simp: extends_log_def log_of_def)
  then show ?thesis
  proof cases
    case 1
    with learned_d learned_j have "learned (presents ldr d) = learned (presents ldr c)"
      by (metis list_update_id)
    moreover have "log_of d ldr = log_of c ldr" using 1 logs [OF assms(4)] by simp
    ultimately have "presents ldr d = ?s" by (simp add: presents_def)
    then show ?thesis by simp
  next
    case (2 cmd)
    let ?learn = "\<lambda>s. s\<lparr>learned := (learned s)[j := learned s ! j + 1]\<rparr>"
    show ?thesis
    proof (cases "j = ldr")
      case True
      let ?t = "?s\<lparr>chosen := chosen ?s @ [cmd]\<rparr>"
      have "cmd \<in> submitted d"
        using assms(2) 2 True logs [OF assms(4)] by (auto simp: cluster_inv_def)
      then have "spec_step ?s ?t" by (intro choose) simp
      moreover have "spec_step ?t (?learn ?t)"
        using learned_j True by (intro learn) (simp_all add: presents_def)
      moreover have "?learn ?t = presents ldr d"
        using learned_d learned_j 2 True logs [OF assms(4)] by (simp add: presents_def)
      ultimately show ?thesis by (metis converse_rtranclp_into_rtranclp r_into_rtranclp)
    next
      case False
      have "prefix (log_of d j) (log_of d ldr)" using assms(2,3) by (simp add: cluster_inv_def)
      with 2 False logs [OF assms(3)] logs [OF assms(4)] have "length (log_of c j) < length (log_of c ldr)"
        by (auto dest: prefix_length_le)
      then have "spec_step ?s (?learn ?s)"
        using learned_j by (intro learn) (simp_all add: presents_def)
      moreover have "?learn ?s = presents ldr d"
        using learned_d learned_j 2 False logs [OF assms(4)] by (simp add: presents_def)
      ultimately show ?thesis by auto
    qed
  qed
qed

lemma cluster_step_simulates:
  assumes "cluster_step c d" "cluster_inv init sz ldr c" "sz < 2 ^ 31" "ldr < sz"
  shows "spec_step\<^sup>*\<^sup>* (presents ldr c) (presents ldr d)"
proof -
  from step_visible [OF assms(1-3)] obtain j n where s: "j < sz" "nodes d = (nodes c)[j := n]"
    "extends_log (nodes c ! j) n" "submitted d = submitted c \<or> (\<exists>cmd. submitted d = insert cmd (submitted c))"
    by blast
  have "spec_step\<^sup>*\<^sup>* (presents ldr c) ((presents ldr c)\<lparr>offered := submitted d\<rparr>)"
    using offer_steps [of "presents ldr d" "presents ldr c"] s(4) by (simp add: presents_def)
  also have "spec_step\<^sup>*\<^sup>* \<dots> (presents ldr d)"
    by (rule log_steps [OF assms(2) cluster_inv_step [OF assms(1-4)] s(1) assms(4) s(2,3)])
  finally show ?thesis .
qed

lemma presents_start: "sz < 2 ^ 31 \<Longrightarrow> ldr < sz \<Longrightarrow> presents ldr (cluster_start sz ldr init bud) = spec_start sz"
  by (simp add: presents_def spec_start_def cluster_start_def log_of_def node_new_def comp_def map_replicate_const)

section \<open>Properties\<close>

text \<open>C18: the cluster implements atomic broadcast.  Whatever the network does, what a reachable cluster
  presents is reachable in the abstract machine, and each replica's log is the part of the chosen
  sequence that it has learned.\<close>

theorem cluster_refines_broadcast:
  assumes "cluster_reach sz ldr init bud c" "sz < 2 ^ 31" "ldr < sz"
  shows "spec_step\<^sup>*\<^sup>* (spec_start sz) (presents ldr c) \<and>
    (\<forall>i < sz. log_of c i = take (learned (presents ldr c) ! i) (chosen (presents ldr c)))"
proof
  from assms(1) show "spec_step\<^sup>*\<^sup>* (spec_start sz) (presents ldr c)"
  proof (induction rule: cluster_reach.induct)
    case at_start
    then show ?case using presents_start [OF assms(2,3)] by simp
  next
    case (later c d)
    from cluster_step_simulates [OF later.hyps(2) cluster_reach_inv [OF later.hyps(1) assms(2,3)] assms(2,3)] later.IH
    show ?case by (rule rtranclp_trans [rotated])
  qed
  have inv: "cluster_inv init sz ldr c" by (rule cluster_reach_inv [OF assms])
  show "\<forall>i < sz. log_of c i = take (learned (presents ldr c) ! i) (chosen (presents ldr c))"
  proof (intro allI impI)
    fix i assume i: "i < sz"
    with inv have "prefix (log_of c i) (log_of c ldr)" "length (nodes c) = sz" by (simp_all add: cluster_inv_def)
    with i show "log_of c i = take (learned (presents ldr c) ! i) (chosen (presents ldr c))"
      by (auto simp: presents_def log_of_def prefix_def)
  qed
qed

theorem cluster_refines_broadcast_witness:
  "spec_step\<^sup>*\<^sup>* (spec_start 3) (presents 0 (cluster_start 3 0 (Var 4) (fb_zero 1)))"
  by (rule conjunct1 [OF cluster_refines_broadcast [OF at_start]]) simp_all

end
