(* ===== verification/Cluster.thy ===== *)
theory Cluster
  imports Net
begin

text \<open>
  What the two event loops of \<open>crates/dlc-d-node/src\<close> (\<open>run_cluster\<close> of \<open>net.rs\<close>, \<open>run_auth_cluster\<close> of
  \<open>netauth.rs\<close>) share: one task per live replica with its channel, a leader that feeds a workload to
  the others, crashed replicas that never start.  The locale says what a replica has to
  do for the run to end with the workload committed; \<open>Run\<close> and \<open>Auth_Run\<close> interpret it.
\<close>

section \<open>Tasks and channels\<close>

text \<open>A channel holds what has been sent and not received; a crashed replica has none.\<close>

record ('n, 'm) run_state =
  rn_nodes :: "'n list"
  rn_boxes :: "'m list option list"
  rn_next :: "nat list"
  rn_started :: "bool list"

definition can_start :: "('n, 'm) run_state \<Rightarrow> nat \<Rightarrow> bool" where
  "can_start s i \<longleftrightarrow> i < length (rn_boxes s) \<and> rn_boxes s ! i \<noteq> None \<and> \<not> rn_started s ! i"

text \<open>What a replica answers: its new state, how far its driver has come, what it sends.\<close>

type_synonym ('n, 'm) reaction = "'n \<times> nat \<times> (dest \<times> 'm) list"

definition posted :: "'m list option list \<Rightarrow> nat \<Rightarrow> (dest \<times> 'm) list \<Rightarrow> 'm list option list" where
  "posted boxes i outs = map (\<lambda>j. map_option (\<lambda>q. q @ map snd (filter (\<lambda>out. addressed i (fst out) j) outs)) (boxes ! j))
     [0..<length boxes]"

definition begun :: "('n \<Rightarrow> ('n, 'm) reaction option) \<Rightarrow> ('n, 'm) run_state \<Rightarrow> nat \<Rightarrow> ('n, 'm) run_state option" where
  "begun f s i = map_option (\<lambda>(n, k, outs). \<lparr>rn_nodes = (rn_nodes s)[i := n], rn_boxes = posted (rn_boxes s) i outs,
     rn_next = (rn_next s)[i := k], rn_started = (rn_started s)[i := True]\<rparr>) (f (rn_nodes s ! i))"

definition served :: "('n \<Rightarrow> nat \<Rightarrow> 'm \<Rightarrow> ('n, 'm) reaction option) \<Rightarrow> ('n, 'm) run_state \<Rightarrow> nat \<Rightarrow> ('n, 'm) run_state option" where
  "served f s i = (case rn_boxes s ! i of
     Some (m # q) \<Rightarrow> map_option (\<lambda>(n, k, outs). \<lparr>rn_nodes = (rn_nodes s)[i := n],
       rn_boxes = posted ((rn_boxes s)[i := Some q]) i outs, rn_next = (rn_next s)[i := k],
       rn_started = rn_started s\<rparr>) (f (rn_nodes s ! i) (rn_next s ! i) m)
   | _ \<Rightarrow> Some s)"

text \<open>The next slot is proposed if there is a command for it.\<close>

definition opened ::
    "nat \<Rightarrow> nat \<Rightarrow> (nat \<Rightarrow> nat set \<Rightarrow> 'n \<Rightarrow> bool) \<Rightarrow> (nat \<Rightarrow> 'm \<Rightarrow> bool) \<Rightarrow> nat \<Rightarrow> ('n, 'm) reaction \<Rightarrow> bool" where
  "opened l W leads entry k r \<longleftrightarrow> (case r of (n, k', outs) \<Rightarrow>
     if k < W then k' = Suc k \<and> (\<exists>m. outs = [(Peers, m)] \<and> entry (2 * k) m) \<and> leads (2 * k + 1) {l} n
     else k' = k \<and> outs = [] \<and> leads (2 * k) {} n)"

text \<open>How many slots the started replicas have committed.\<close>

definition learned_by :: "('n \<Rightarrow> nat) \<Rightarrow> ('n, 'm) run_state \<Rightarrow> nat list" where
  "learned_by slots s = map (\<lambda>i. if rn_started s ! i then slots (rn_nodes s ! i) else 0) [0..<length (rn_nodes s)]"

lemma posted_nth [simp]:
  "j < length boxes \<Longrightarrow> posted boxes i outs ! j =
     map_option (\<lambda>q. q @ map snd (filter (\<lambda>out. addressed i (fst out) j) outs)) (boxes ! j)"
  by (simp add: posted_def)

lemma length_posted [simp]: "length (posted boxes i outs) = length boxes"
  by (simp add: posted_def)

lemma posted_Nil [simp]: "posted boxes i [] = boxes"
  by (rule nth_equalityI) (simp_all add: option.map_ident)

lemma dispatched:
  assumes "length boxes \<le> 2 ^ 32" "i < length boxes"
  shows "foldl (\<lambda>boxes out. deliver_out (of_nat i) (f out) (g out) boxes) boxes outs =
    posted boxes i (map (\<lambda>out. (f out, g out)) outs)"
proof (rule nth_equalityI)
  show len: "length (foldl (\<lambda>boxes out. deliver_out (of_nat i) (f out) (g out) boxes) boxes outs) =
      length (posted boxes i (map (\<lambda>out. (f out, g out)) outs))"
    by (induction outs arbitrary: boxes) simp_all
  fix j assume "j < length (foldl (\<lambda>boxes out. deliver_out (of_nat i) (f out) (g out) boxes) boxes outs)"
  with len have "j < length boxes" by simp
  with assms show "foldl (\<lambda>boxes out. deliver_out (of_nat i) (f out) (g out) boxes) boxes outs ! j =
      posted boxes i (map (\<lambda>out. (f out, g out)) outs) ! j"
    by (simp add: deliver_all_nth filter_map comp_def)
qed

lemma posted_append: "posted (posted boxes i xs) i ys = posted boxes i (xs @ ys)"
  by (rule nth_equalityI) (auto simp: option.map_comp comp_def)

section \<open>What a replica has to do\<close>

text \<open>
  The leader's messages to its peers are one stream: entry \<open>2 k\<close> proposes slot \<open>k\<close>, entry \<open>2 k + 1\<close>
  commits it.  \<open>follows c i n\<close> describes follower \<open>i\<close>, \<open>leads c e S n\<close> a leader that has sent \<open>e\<close>
  entries and holds the votes of the seats \<open>S\<close>, both of a cluster \<open>c\<close>.
\<close>

locale leader_cluster =
  fixes ok :: "'c \<Rightarrow> bool"
    and sz :: "'c \<Rightarrow> nat"
    and l :: "'c \<Rightarrow> nat"
    and W :: "'c \<Rightarrow> nat"
    and alive :: "'c \<Rightarrow> nat set"
    and fresh :: "'c \<Rightarrow> nat \<Rightarrow> 'n"
    and start :: "'c \<Rightarrow> nat \<Rightarrow> 'n \<Rightarrow> ('n, 'm) reaction option"
    and react :: "'c \<Rightarrow> nat \<Rightarrow> 'n \<Rightarrow> nat \<Rightarrow> 'm \<Rightarrow> ('n, 'm) reaction option"
    and slots :: "'n \<Rightarrow> nat"
    and follows :: "'c \<Rightarrow> nat \<Rightarrow> 'n \<Rightarrow> bool"
    and leads :: "'c \<Rightarrow> nat \<Rightarrow> nat set \<Rightarrow> 'n \<Rightarrow> bool"
    and entry :: "'c \<Rightarrow> nat \<Rightarrow> 'm \<Rightarrow> bool"
    and vote :: "'c \<Rightarrow> nat \<Rightarrow> nat \<Rightarrow> 'm"
    and quorum :: "'c \<Rightarrow> nat \<Rightarrow> bool"
  assumes shape: "ok c \<Longrightarrow> 2 \<le> sz c \<and> l c < sz c \<and> sz c \<le> 2 ^ 31 \<and> alive c \<subseteq> {..<sz c}"
    and quorum_mono: "ok c \<Longrightarrow> quorum c a \<Longrightarrow> a \<le> b \<Longrightarrow> quorum c b"
    and no_lone_quorum: "ok c \<Longrightarrow> \<not> quorum c 1"
    and vote_inj: "ok c \<Longrightarrow> k < W c \<Longrightarrow> k' < W c \<Longrightarrow> i \<in> alive c \<Longrightarrow> j \<in> alive c \<Longrightarrow>
      vote c k i = vote c k' j \<Longrightarrow> k = k' \<and> i = j"
    and fresh_follows: "ok c \<Longrightarrow> i \<in> alive c - {l c} \<Longrightarrow> follows c i (fresh c i) \<and> slots (fresh c i) = 0"
    and leads_slots: "leads c e S n \<Longrightarrow> slots n = e div 2"
    and start_follower: "ok c \<Longrightarrow> i \<in> alive c - {l c} \<Longrightarrow> follows c i n \<Longrightarrow> start c i n = Some (n, 0, [])"
    and start_leader: "ok c \<Longrightarrow> l c \<in> alive c \<Longrightarrow>
      \<exists>r. start c (l c) (fresh c (l c)) = Some r \<and> opened (l c) (W c) (leads c) (entry c) 0 r"
    and react_entry: "ok c \<Longrightarrow> i \<in> alive c - {l c} \<Longrightarrow> follows c i n \<Longrightarrow> slots n = p div 2 \<Longrightarrow> p < 2 * W c \<Longrightarrow>
      entry c p m \<Longrightarrow> \<exists>n'. react c i n k m =
        Some (n', k, if even p then [(To (of_nat (l c)), vote c (p div 2) i)] else []) \<and>
        follows c i n' \<and> slots n' = Suc p div 2"
    and react_stale: "ok c \<Longrightarrow> leads c e S n \<Longrightarrow> e \<le> 2 * W c \<Longrightarrow> src \<in> alive c \<Longrightarrow> k \<noteq> e div 2 \<Longrightarrow> 2 * k < e \<Longrightarrow>
      even e \<longrightarrow> e = 2 * W c \<Longrightarrow>
      react c (l c) n (Suc e div 2) (vote c k src) = Some (n, Suc e div 2, [])"
    and react_counts: "ok c \<Longrightarrow> leads c (2 * k + 1) S n \<Longrightarrow> k < W c \<Longrightarrow> src \<in> alive c \<Longrightarrow>
      \<not> quorum c (card (insert src S)) \<Longrightarrow>
      \<exists>n'. react c (l c) n (Suc k) (vote c k src) = Some (n', Suc k, []) \<and> leads c (2 * k + 1) (insert src S) n'"
    and react_decides: "ok c \<Longrightarrow> leads c (2 * k + 1) S n \<Longrightarrow> k < W c \<Longrightarrow> src \<in> alive c \<Longrightarrow>
      quorum c (card (insert src S)) \<Longrightarrow>
      \<exists>n' k' m outs. react c (l c) n (Suc k) (vote c k src) = Some (n', k', (Peers, m) # outs) \<and>
        entry c (2 * k + 1) m \<and> opened (l c) (W c) (leads c) (entry c) (Suc k) (n', k', outs)"
begin

lemma shapeD:
  assumes "ok c"
  shows "2 \<le> sz c" "l c < sz c" "sz c \<le> 2 ^ 31" "finite (alive c)" "i \<in> alive c \<Longrightarrow> i < sz c"
  using shape [OF assms] by (auto dest: finite_subset)

section \<open>The invariant of a run\<close>

text \<open>\<open>e\<close> counts the entries that the leader has sent, \<open>p j\<close> those that replica \<open>j\<close> has received.\<close>

definition follower_ok :: "'c \<Rightarrow> nat \<Rightarrow> (nat \<Rightarrow> nat) \<Rightarrow> ('n, 'm) run_state \<Rightarrow> nat \<Rightarrow> bool" where
  "follower_ok c e p s j \<longleftrightarrow> p j \<le> e \<and> follows c j (rn_nodes s ! j) \<and> slots (rn_nodes s ! j) = p j div 2 \<and>
     (\<exists>q. rn_boxes s ! j = Some q \<and> list_all2 (entry c) [p j..<e] q)"

definition inbox :: "('n, 'm) run_state \<Rightarrow> nat \<Rightarrow> 'm list" where
  "inbox s i = (case rn_boxes s ! i of Some q \<Rightarrow> q | None \<Rightarrow> [])"

definition voting_ok :: "'c \<Rightarrow> nat \<Rightarrow> (nat \<Rightarrow> nat) \<Rightarrow> nat set \<Rightarrow> 'm list \<Rightarrow> bool" where
  "voting_ok c e p S q \<longleftrightarrow> l c \<in> S \<and> S \<subseteq> alive c \<and> \<not> quorum c (card S) \<and>
     (\<forall>j \<in> alive c - {l c}. p j = e \<longrightarrow> j \<in> S \<or> vote c (e div 2) j \<in> set q)"

definition leader_ok :: "'c \<Rightarrow> nat \<Rightarrow> (nat \<Rightarrow> nat) \<Rightarrow> ('n, 'm) run_state \<Rightarrow> bool" where
  "leader_ok c e p s \<longleftrightarrow> e \<le> 2 * W c \<and>
     (if rn_started s ! l c then rn_next s ! l c = Suc e div 2 \<and> (even e \<longrightarrow> e = 2 * W c) \<and>
        (\<exists>S. leads c e S (rn_nodes s ! l c) \<and> (odd e \<longrightarrow> voting_ok c e p S (inbox s (l c))))
      else e = 0) \<and>
     (\<forall>m \<in> set (inbox s (l c)). \<exists>t. \<exists>src \<in> alive c. m = vote c t src \<and> 2 * t < e)"

definition run_inv :: "'c \<Rightarrow> nat \<Rightarrow> (nat \<Rightarrow> nat) \<Rightarrow> ('n, 'm) run_state \<Rightarrow> bool" where
  "run_inv c e p s \<longleftrightarrow> length (rn_nodes s) = sz c \<and> length (rn_boxes s) = sz c \<and> length (rn_next s) = sz c \<and>
     length (rn_started s) = sz c \<and>
     (\<forall>i < sz c. (rn_boxes s ! i \<noteq> None \<longleftrightarrow> i \<in> alive c) \<and> (rn_started s ! i \<longrightarrow> i \<in> alive c) \<and>
        (\<not> rn_started s ! i \<longrightarrow> rn_nodes s ! i = fresh c i)) \<and>
     leader_ok c e p s \<and> (\<forall>j \<in> alive c - {l c}. follower_ok c e p s j) \<and>
     (\<not> quorum c (card (alive c)) \<longrightarrow> e \<le> 1)"

definition todo :: "'c \<Rightarrow> (nat \<Rightarrow> nat) \<Rightarrow> ('n, 'm) run_state \<Rightarrow> nat" where
  "todo c p s = card {i \<in> alive c. \<not> rn_started s ! i} +
     2 * (\<Sum>j \<in> alive c - {l c}. 2 * W c - p j) + length (inbox s (l c))"

lemma run_invD:
  assumes "run_inv c e p s"
  shows "length (rn_nodes s) = sz c" "length (rn_boxes s) = sz c" "length (rn_next s) = sz c"
    "length (rn_started s) = sz c" "leader_ok c e p s" "j \<in> alive c - {l c} \<Longrightarrow> follower_ok c e p s j"
    "\<not> quorum c (card (alive c)) \<Longrightarrow> e \<le> 1" "i < sz c \<Longrightarrow> rn_boxes s ! i \<noteq> None \<longleftrightarrow> i \<in> alive c"
    "i < sz c \<Longrightarrow> rn_started s ! i \<Longrightarrow> i \<in> alive c" "i < sz c \<Longrightarrow> \<not> rn_started s ! i \<Longrightarrow> rn_nodes s ! i = fresh c i"
  using assms by (auto simp: run_inv_def)

text \<open>The leader speaks: the entries reach every follower's channel, and not its own.\<close>

lemma follower_ok_speak:
  assumes "follower_ok c e p s j" "rn_nodes t ! j = rn_nodes s ! j" "list_all2 (entry c) [e..<e'] ms" "e \<le> e'"
    "rn_boxes t ! j = map_option (\<lambda>q. q @ ms) (rn_boxes s ! j)"
  shows "follower_ok c e' p t j"
proof -
  from assms(1,4) have "[p j..<e'] = [p j..<e] @ [e..<e']"
    using upt_add_eq_append [of "p j" e "e' - e"] by (simp add: follower_ok_def)
  with assms show ?thesis by (auto simp: follower_ok_def list_all2_appendI)
qed

lemma posted_peers:
  "j < length boxes \<Longrightarrow> posted boxes i (map (Pair Peers) ms) ! j =
     (if j = i then boxes ! j else map_option (\<lambda>q. q @ ms) (boxes ! j))"
  by (simp add: addressed_def comp_def filter_map option.map_ident)

text \<open>An opening in terms of the stream.\<close>

lemma openedE:
  assumes "opened (l c) (W c) (leads c) (entry c) k (n, k', outs)" "k \<le> W c"
  obtains e S ms where "outs = map (Pair Peers) ms" "list_all2 (entry c) [2 * k..<e] ms" "leads c e S n"
    "2 * k \<le> e" "e \<le> 2 * k + 1" "e \<le> 2 * W c" "k' = Suc e div 2" "even e \<longrightarrow> e = 2 * W c" "odd e \<longrightarrow> S = {l c}" "W c \<noteq> k \<longrightarrow> odd e"
proof (cases "k < W c")
  case True
  with assms(1) obtain m where "k' = Suc k" "outs = [(Peers, m)]" "entry c (2 * k) m" "leads c (2 * k + 1) {l c} n"
    by (auto simp: opened_def)
  with True show thesis by (intro that [of "[m]" "2 * k + 1" "{l c}"]) simp_all
next
  case False
  with assms show thesis by (intro that [of "[]" "2 * k" "{}"]) (auto simp: opened_def)
qed

section \<open>Tasks that start\<close>

lemma started_less:
  assumes "run_inv c e p s" "ok c" "i \<in> alive c" "\<not> rn_started s ! i"
  shows "card {j \<in> alive c. \<not> (rn_started s)[i := True] ! j} < card {j \<in> alive c. \<not> rn_started s ! j}"
proof (rule psubset_card_mono)
  show "finite {j \<in> alive c. \<not> rn_started s ! j}" using shapeD(4) [OF assms(2)] by simp
  show "{j \<in> alive c. \<not> (rn_started s)[i := True] ! j} \<subset> {j \<in> alive c. \<not> rn_started s ! j}"
    using assms shapeD(5) [OF assms(2)] run_invD(4) [OF assms(1)] by (auto simp: nth_list_update)
qed

lemma begin_follower:
  assumes inv: "run_inv c e p s" and c: "ok c" and st: "can_start s i" "i \<noteq> l c"
  shows "\<exists>t. begun (start c i) s i = Some t \<and> run_inv c e p t \<and> todo c p t < todo c p s"
proof -
  note D = run_invD [OF inv]
  from st D(2,8) have i: "i < sz c" "i \<in> alive c" "\<not> rn_started s ! i" by (auto simp: can_start_def)
  let ?t = "s\<lparr>rn_next := (rn_next s)[i := 0], rn_started := (rn_started s)[i := True]\<rparr>"
  have "start c i (rn_nodes s ! i) = Some (rn_nodes s ! i, 0, [])"
    using start_follower [OF c, of i] D(6) [of i] i(2) st(2) by (simp add: follower_ok_def)
  then have "begun (start c i) s i = Some ?t" by (simp add: begun_def)
  moreover have "run_inv c e p ?t"
    using inv i st(2) by (auto simp: run_inv_def leader_ok_def follower_ok_def inbox_def nth_list_update)
  moreover have "todo c p ?t < todo c p s"
    using started_less [OF inv c i(2,3)] by (simp add: todo_def inbox_def)
  ultimately show ?thesis by blast
qed

text \<open>The leader has become \<open>n\<close>, has taken what it took from its channel and has sent the entries \<open>ms\<close>:
  all that is left of the invariant is the state of the leader itself.\<close>

lemma leader_moves:
  assumes inv: "run_inv c e p s" and c: "ok c" "l c \<in> alive c"
    and t: "t = \<lparr>rn_nodes = (rn_nodes s)[l c := n], rn_boxes = posted ((rn_boxes s)[l c := Some q]) (l c) (map (Pair Peers) ms),
      rn_next = (rn_next s)[l c := Suc e' div 2], rn_started = (rn_started s)[l c := True]\<rparr>"
    and ms: "list_all2 (entry c) [e..<e'] ms" "e \<le> e'" "set q \<subseteq> set (inbox s (l c))"
    and lead: "leads c e' S n" "e' \<le> 2 * W c" "even e' \<longrightarrow> e' = 2 * W c" "odd e' \<longrightarrow> voting_ok c e' p S q"
      "\<not> quorum c (card (alive c)) \<longrightarrow> e' \<le> 1"
  shows "run_inv c e' p t"
proof -
  note D = run_invD [OF inv] and sh = shapeD [OF c(1)]
  have box: "rn_boxes t ! l c = Some q" "inbox t (l c) = q"
    using D(2) sh(2) by (simp_all add: t addressed_def inbox_def posted_peers)
  have "\<exists>t. \<exists>src \<in> alive c. m = vote c t src \<and> 2 * t < e'" if "m \<in> set q" for m
    using D(5) that ms(2,3) by (force simp: leader_ok_def)
  then have "leader_ok c e' p t"
    unfolding leader_ok_def box(2) using lead D(1,3,4) sh(2) by (auto simp: t)
  moreover have "follower_ok c e' p t j" if j: "j \<in> alive c - {l c}" for j
    by (rule follower_ok_speak [OF D(6) [OF j] _ ms(1,2)])
      (use j sh(5) [of j] D(2) posted_peers [of j _ "l c" ms] in \<open>simp_all add: t\<close>)
  ultimately show ?thesis
    using inv D(1-4) lead(5) c(2) box(1) sh(2) posted_peers [of _ "(rn_boxes s)[l c := Some q]" "l c" ms]
    by (auto simp: run_inv_def t nth_list_update)
qed

lemma first_votes:
  assumes "ok c" "l c \<in> alive c" "\<forall>j \<in> alive c - {l c}. p j < e"
  shows "voting_ok c e p {l c} q"
  using assms no_lone_quorum by (auto simp: voting_ok_def)

lemma begin_leader:
  assumes inv: "run_inv c e p s" and c: "ok c" and st: "can_start s (l c)"
  shows "\<exists>t e'. begun (start c (l c)) s (l c) = Some t \<and> run_inv c e' p t \<and> todo c p t < todo c p s \<and> e \<le> e'"
proof -
  note D = run_invD [OF inv] and sh = shapeD [OF c]
  from st D(2,8) sh(2) have l: "l c \<in> alive c" "\<not> rn_started s ! l c" by (auto simp: can_start_def)
  with D(5) have e: "e = 0" and box: "inbox s (l c) = []" by (auto simp: leader_ok_def neq_Nil_conv)
  with D(8) [OF sh(2)] l(1) have box': "rn_boxes s ! l c = Some []" by (auto simp: inbox_def)
  then have upd: "(rn_boxes s)[l c := Some []] = rn_boxes s" by (metis list_update_id)
  obtain n k outs where n: "start c (l c) (rn_nodes s ! l c) = Some (n, k, outs)"
    "opened (l c) (W c) (leads c) (entry c) 0 (n, k, outs)"
    using start_leader [OF c l(1)] D(10) [OF sh(2) l(2)] by (metis prod_cases3)
  from n(2) obtain e' S ms where o: "outs = map (Pair Peers) ms" "list_all2 (entry c) [0..<e'] ms" "leads c e' S n"
    "e' \<le> 1" "e' \<le> 2 * W c" "k = Suc e' div 2" "even e' \<longrightarrow> e' = 2 * W c" "odd e' \<longrightarrow> S = {l c}"
    by (rule openedE) simp_all
  define t where "t = \<lparr>rn_nodes = (rn_nodes s)[l c := n],
    rn_boxes = posted ((rn_boxes s)[l c := Some []]) (l c) (map (Pair Peers) ms),
    rn_next = (rn_next s)[l c := Suc e' div 2], rn_started = (rn_started s)[l c := True]\<rparr>"
  have "begun (start c (l c)) s (l c) = Some t" using n(1) o(1,6) by (simp add: begun_def t_def upd)
  moreover have "\<forall>j \<in> alive c - {l c}. p j = 0" using D(6) e by (auto simp: follower_ok_def)
  then have vote: "odd e' \<longrightarrow> voting_ok c e' p S []" using o(8) first_votes [OF c l(1)] by (auto simp: odd_pos)
  have "run_inv c e' p t"
    by (rule leader_moves [OF inv c l(1) t_def, where S = S]) (use e o vote in auto)
  moreover have "inbox t (l c) = []"
    using D(2) sh(2) by (simp add: t_def inbox_def posted_peers del: posted_nth)
  with started_less [OF inv c l] have "todo c p t < todo c p s" by (simp add: todo_def box) (simp add: t_def)
  ultimately show ?thesis using e by blast
qed

section \<open>Tasks that serve a message\<close>

definition can_serve :: "'c \<Rightarrow> ('n, 'm) run_state \<Rightarrow> nat \<Rightarrow> bool" where
  "can_serve c s i \<longleftrightarrow> i < sz c \<and> rn_started s ! i \<and> slots (rn_nodes s ! i) < W c \<and> inbox s i \<noteq> []"

lemma can_serveE:
  assumes "can_serve c s i"
  obtains m q where "i < sz c" "rn_started s ! i" "slots (rn_nodes s ! i) < W c" "rn_boxes s ! i = Some (m # q)"
  using assms by (auto simp: can_serve_def inbox_def neq_Nil_conv split: option.splits)

lemma serve_follower:
  assumes inv: "run_inv c e p s" and c: "ok c" and st: "can_serve c s i" "i \<noteq> l c"
  shows "\<exists>t p'. served (react c i) s i = Some t \<and> run_inv c e p' t \<and> todo c p' t < todo c p s \<and> p \<le> p'"
proof -
  note D = run_invD [OF inv] and sh = shapeD [OF c]
  let ?n = "rn_nodes s ! i" and ?p = "p(i := Suc (p i))"
  from st(1) obtain m q where i: "i < sz c" "rn_started s ! i" "rn_boxes s ! i = Some (m # q)" by (rule can_serveE)
  with D(9) have alive: "i \<in> alive c" "i \<in> alive c - {l c}" using st(2) by auto
  from D(6) [OF alive(2)] i(3) have f: "p i \<le> e" "follows c i ?n" "slots ?n = p i div 2"
    and stream: "list_all2 (entry c) [p i..<e] (m # q)" by (auto simp: follower_ok_def)
  then have pe: "p i < e" and m: "entry c (p i) m" and q: "list_all2 (entry c) [Suc (p i)..<e] q"
    by (cases "p i < e"; simp add: upt_rec [of "p i"])+
  have e: "e \<le> 2 * W c" "rn_started s ! l c" using D(5) pe by (auto simp: leader_ok_def split: if_splits)
  then have lead: "l c \<in> alive c" using D(9) sh(2) by simp
  let ?out = "if even (p i) then [(To (of_nat (l c)), vote c (p i div 2) i)] else []"
  have "p i < 2 * W c" using pe e(1) by simp
  from react_entry [OF c alive(2) f(2,3) this m, of "rn_next s ! i"] obtain n where
    n: "react c i ?n (rn_next s ! i) m = Some (n, rn_next s ! i, ?out)" "follows c i n" "slots n = Suc (p i) div 2" by blast
  define t where "t = \<lparr>rn_nodes = (rn_nodes s)[i := n], rn_boxes = posted ((rn_boxes s)[i := Some q]) i ?out,
    rn_next = (rn_next s)[i := rn_next s ! i], rn_started = rn_started s\<rparr>"
  have t: "served (react c i) s i = Some t" using i(3) n(1) by (simp add: served_def t_def)
  have seat: "unat (of_nat (l c) :: u32) = l c" using sh(2,3) by (simp add: unat_u32_small)
  have box: "rn_boxes t ! j = (if j = i then Some q
      else if j = l c \<and> even (p i) then map_option (\<lambda>q. q @ [vote c (p i div 2) i]) (rn_boxes s ! j)
      else rn_boxes s ! j)" if "j < sz c" for j
    using that i(1) D(2) st(2) seat by (auto simp: t_def addressed_def option.map_ident)
  have inbox_l: "inbox t (l c) = inbox s (l c) @ (if even (p i) then [vote c (p i div 2) i] else [])"
    using box [OF sh(2)] D(8) [OF sh(2)] lead st(2) by (auto simp: inbox_def)
  have "voting_ok c e ?p S (inbox t (l c))" if "voting_ok c e p S (inbox s (l c))" "odd e" for S
    using that by (auto simp: voting_ok_def inbox_l)
  moreover have "\<exists>k. \<exists>src \<in> alive c. m = vote c k src \<and> 2 * k < e" if "m \<in> set (inbox t (l c))" for m
  proof -
    from that consider "m \<in> set (inbox s (l c))" | "m = vote c (p i div 2) i"
      by (auto simp: inbox_l split: if_splits)
    then show ?thesis
      using D(5) alive(1) pe by cases (auto simp: leader_ok_def intro!: exI [of _ "p i div 2"] bexI [of _ i])
  qed
  ultimately have "leader_ok c e ?p t"
    using D(1,5) st(2) e(2) by (auto simp: leader_ok_def t_def)
  moreover have "follower_ok c e ?p t j" if j: "j \<in> alive c - {l c}" for j
  proof (cases "j = i")
    case True
    with i(1) D(1) pe n(2,3) q box show ?thesis by (simp add: follower_ok_def t_def)
  next
    case False
    with D(6) [OF j] j box [of j] sh(5) [of j] show ?thesis by (simp add: follower_ok_def t_def)
  qed
  ultimately have "run_inv c e ?p t"
    using inv D(1-4) i box alive(1) by (auto simp: run_inv_def t_def nth_list_update)
  moreover have "(\<Sum>j \<in> alive c - {l c}. 2 * W c - ?p j) < (\<Sum>j \<in> alive c - {l c}. 2 * W c - p j)"
    using alive(2) pe e(1) sh(4) by (intro sum_strict_mono_ex1) auto
  then have "todo c ?p t < todo c p s"
    by (auto simp: todo_def inbox_l) (auto simp: t_def)
  moreover have "p \<le> ?p" by (simp add: le_fun_def)
  ultimately show ?thesis using t by blast
qed

text \<open>A vote that does not decide is counted.\<close>

lemma count_vote:
  assumes "ok c" "voting_ok c e p S (vote c (e div 2) src # q)" "e div 2 < W c" "src \<in> alive c"
    "\<not> quorum c (card (insert src S))"
  shows "voting_ok c e p (insert src S) q"
proof -
  have "j \<in> insert src S \<or> vote c (e div 2) j \<in> set q" if "j \<in> alive c - {l c}" "p j = e" for j
    using assms(2) that vote_inj [OF assms(1,3,3) _ assms(4), of j] by (auto simp: voting_ok_def)
  with assms(2,4,5) show ?thesis by (simp add: voting_ok_def)
qed

lemma served_by_leader:
  assumes "rn_boxes s ! l c = Some (m # q)" "rn_started s ! l c" "run_inv c e p s" "ok c"
    "react c (l c) (rn_nodes s ! l c) (rn_next s ! l c) m = Some (n, Suc e' div 2, map (Pair Peers) ms)"
  shows "served (react c (l c)) s (l c) = Some \<lparr>rn_nodes = (rn_nodes s)[l c := n],
    rn_boxes = posted ((rn_boxes s)[l c := Some q]) (l c) (map (Pair Peers) ms),
    rn_next = (rn_next s)[l c := Suc e' div 2], rn_started = (rn_started s)[l c := True]\<rparr>"
proof -
  have "(rn_started s)[l c := True] = rn_started s" using assms(2) by (metis list_update_id)
  with assms(1,5) show ?thesis by (simp add: served_def)
qed

text \<open>What the leader makes of a vote: nothing, one vote more, or a commit and the next proposal.\<close>

lemma leader_reacts:
  assumes inv: "run_inv c e p s" and c: "ok c" "l c \<in> alive c"
    and lead: "leads c e S n" "odd e \<longrightarrow> voting_ok c e p S (vote c k src # q)" "e \<le> 2 * W c" "even e \<longrightarrow> e = 2 * W c"
    and m: "src \<in> alive c" "2 * k < e"
  shows "\<exists>n' e' S' ms. react c (l c) n (Suc e div 2) (vote c k src) = Some (n', Suc e' div 2, map (Pair Peers) ms) \<and>
    list_all2 (entry c) [e..<e'] ms \<and> e \<le> e' \<and> leads c e' S' n' \<and> e' \<le> 2 * W c \<and> (even e' \<longrightarrow> e' = 2 * W c) \<and>
    (odd e' \<longrightarrow> voting_ok c e' p S' q) \<and> (\<not> quorum c (card (alive c)) \<longrightarrow> e' \<le> 1)"
proof (cases "k = e div 2")
  case False
  have "odd e \<longrightarrow> voting_ok c e p S q"
  proof
    assume "odd e"
    then have "e div 2 < W c" "k < W c" using lead(3) m(2) by presburger+
    then have "vote c (e div 2) j \<noteq> vote c k src" if "j \<in> alive c" for j
      using vote_inj [OF c(1), of "e div 2" k j src] False m(1) that by auto
    with lead(2) \<open>odd e\<close> show "voting_ok c e p S q" by (auto simp: voting_ok_def)
  qed
  with react_stale [OF c(1) lead(1,3) m(1) False m(2) lead(4)] lead run_invD(7) [OF inv] show ?thesis
    by (intro exI [of _ n] exI [of _ e] exI [of _ S] exI [of _ "[]"]) auto
next
  case True
  with m(2) have odd: "odd e" and e2: "e = 2 * k + 1" by presburger+
  then have k: "k < W c" "Suc e div 2 = Suc k" "e div 2 = k" using lead(3) by presburger+
  have lead1: "leads c (2 * k + 1) S n" using lead(1) e2 by simp
  have vote: "voting_ok c e p S (vote c (e div 2) src # q)" using lead(2) odd True by simp
  show ?thesis
  proof (cases "quorum c (card (insert src S))")
    case False
    from react_counts [OF c(1) lead1 k(1) m(1) False] obtain n' where
      "react c (l c) n (Suc k) (vote c k src) = Some (n', Suc k, [])" "leads c e (insert src S) n'"
      using e2 by auto
    with count_vote [OF c(1) vote _ m(1) False] odd k lead(3) run_invD(7) [OF inv] show ?thesis
      by (intro exI [of _ n'] exI [of _ e] exI [of _ "insert src S"] exI [of _ "[]"]) auto
  next
    case quo: True
    from react_decides [OF c(1) lead1 k(1) m(1) quo] obtain n' k' com outs where
      n: "react c (l c) n (Suc k) (vote c k src) = Some (n', k', (Peers, com) # outs)" "entry c e com"
      "opened (l c) (W c) (leads c) (entry c) (Suc k) (n', k', outs)" using e2 by auto
    from n(3) k(1) obtain e' S' ms where o: "outs = map (Pair Peers) ms" "list_all2 (entry c) [Suc e..<e'] ms"
      "leads c e' S' n'" "Suc e \<le> e'" "e' \<le> 2 * W c" "k' = Suc e' div 2" "even e' \<longrightarrow> e' = 2 * W c"
      "odd e' \<longrightarrow> S' = {l c}" by (elim openedE) (use e2 in auto)
    have "\<forall>j \<in> alive c - {l c}. p j < e'"
      using run_invD(6) [OF inv] o(4) by (fastforce simp: follower_ok_def)
    then have "odd e' \<longrightarrow> voting_ok c e' p S' q" using o(8) first_votes [OF c] by simp
    moreover have "list_all2 (entry c) [e..<e'] (com # ms)" using n(2) o(2,4) by (simp add: upt_rec [of e])
    moreover have "insert src S \<subseteq> alive c" using vote m(1) by (simp add: voting_ok_def)
    then have "quorum c (card (alive c))"
      using quorum_mono [OF c(1) quo] card_mono shapeD(4) [OF c(1)] by blast
    ultimately show ?thesis using n(1) o k(2)
      by (intro exI [of _ n'] exI [of _ e'] exI [of _ S'] exI [of _ "com # ms"]) auto
  qed
qed

lemma serve_leader:
  assumes inv: "run_inv c e p s" and c: "ok c" and st: "can_serve c s (l c)"
  shows "\<exists>t e'. served (react c (l c)) s (l c) = Some t \<and> run_inv c e' p t \<and> todo c p t < todo c p s \<and> e \<le> e'"
proof -
  note D = run_invD [OF inv] and sh = shapeD [OF c]
  let ?n = "rn_nodes s ! l c"
  from st obtain m q where q: "rn_started s ! l c" "rn_boxes s ! l c = Some (m # q)" by (rule can_serveE)
  then have l: "l c \<in> alive c" and box: "inbox s (l c) = m # q" using D(9) sh(2) by (auto simp: inbox_def)
  from D(5) q(1) obtain S k src where S: "leads c e S ?n" "odd e \<longrightarrow> voting_ok c e p S (m # q)"
    and e: "e \<le> 2 * W c" "rn_next s ! l c = Suc e div 2" "even e \<longrightarrow> e = 2 * W c"
    and m: "m = vote c k src" "src \<in> alive c" "2 * k < e"
    unfolding leader_ok_def box by auto
  from leader_reacts [OF inv c l S(1) S(2) [unfolded m(1)] e(1,3) m(2,3)] obtain n e' S' ms where
    r: "react c (l c) ?n (rn_next s ! l c) m = Some (n, Suc e' div 2, map (Pair Peers) ms)"
    and ms: "list_all2 (entry c) [e..<e'] ms" "e \<le> e'"
    and lead: "leads c e' S' n" "e' \<le> 2 * W c" "even e' \<longrightarrow> e' = 2 * W c" "odd e' \<longrightarrow> voting_ok c e' p S' q"
      "\<not> quorum c (card (alive c)) \<longrightarrow> e' \<le> 1" unfolding e(2) m(1) by blast
  define t where "t = \<lparr>rn_nodes = (rn_nodes s)[l c := n],
    rn_boxes = posted ((rn_boxes s)[l c := Some q]) (l c) (map (Pair Peers) ms),
    rn_next = (rn_next s)[l c := Suc e' div 2], rn_started = (rn_started s)[l c := True]\<rparr>"
  have "served (react c (l c)) s (l c) = Some t"
    unfolding t_def by (rule served_by_leader [OF q(2,1) inv c r])
  moreover have "run_inv c e' p t"
    by (rule leader_moves [OF inv c l t_def ms _ lead]) (auto simp: box)
  moreover have "inbox t (l c) = q" using D(2) sh(2) by (simp add: t_def inbox_def posted_peers del: posted_nth)
  moreover have "(rn_started s)[l c := True] = rn_started s" using q(1) by (metis list_update_id)
  then have "rn_started t = rn_started s" by (simp add: t_def)
  ultimately show ?thesis using ms(2) by (auto simp: todo_def box)
qed

text \<open>A task can always go on, and has less to do afterwards.\<close>

lemma task_goes_on:
  assumes "run_inv c e p s" "ok c"
  shows "can_start s i \<Longrightarrow> \<exists>t e' p'. begun (start c i) s i = Some t \<and> run_inv c e' p' t \<and> todo c p' t < todo c p s \<and> e \<le> e' \<and> p \<le> p'"
    "can_serve c s i \<Longrightarrow> \<exists>t e' p'. served (react c i) s i = Some t \<and> run_inv c e' p' t \<and> todo c p' t < todo c p s \<and> e \<le> e' \<and> p \<le> p'"
  using begin_follower [OF assms, of i] begin_leader [OF assms] serve_follower [OF assms, of i]
    serve_leader [OF assms] by (metis order.refl)+

text \<open>When nothing is left to do and a quorum with the leader is live, all is done.\<close>

lemma settled_slots:
  assumes inv: "run_inv c e p s" and c: "ok c"
    and quiet: "\<And>i. \<not> can_start s i" "\<And>i. \<not> can_serve c s i"
    and maj: "l c \<in> alive c" "quorum c (card (alive c))" and i: "i \<in> alive c"
  shows "rn_started s ! i \<and> W c \<le> slots (rn_nodes s ! i)"
proof -
  note D = run_invD [OF inv] and sh = shapeD [OF c]
  have started: "rn_started s ! j" if "j \<in> alive c" for j
    using quiet(1) [of j] D(2) D(8) [of j] sh(5) [OF that] that by (auto simp: can_start_def)
  have waits: "inbox s j = [] \<or> W c \<le> slots (rn_nodes s ! j)" if "j \<in> alive c" for j
    using quiet(2) [of j] started [OF that] sh(5) [OF that] by (auto simp: can_serve_def)
  from D(5) started [OF maj(1)] obtain S where S: "leads c e S (rn_nodes s ! l c)"
    "odd e \<longrightarrow> voting_ok c e p S (inbox s (l c))" "e \<le> 2 * W c" "even e \<longrightarrow> e = 2 * W c"
    by (auto simp: leader_ok_def)
  have follow: "p j \<le> e" "p j = e \<or> W c \<le> p j div 2" "slots (rn_nodes s ! j) = p j div 2" if "j \<in> alive c - {l c}" for j
    using D(6) [OF that] waits [of j] that by (auto simp: follower_ok_def inbox_def list_all2_conv_all_nth)
  have "even e"
  proof (rule ccontr)
    assume odd: "odd e"
    with S(3) have k: "e div 2 < W c" by presburger
    with waits [OF maj(1)] leads_slots [OF S(1)] S(2) odd have v: "voting_ok c e p S []" by auto
    have "p j = e" if "j \<in> alive c - {l c}" for j
      using follow(1,2) [OF that] k by (auto dest: div_le_mono [of _ _ 2])
    with v have "S = alive c" by (auto simp: voting_ok_def)
    with v maj(2) show False by (simp add: voting_ok_def)
  qed
  with S(4) have e: "e = 2 * W c" by simp
  with started [OF i] follow [of i] i leads_slots [OF S(1)] show ?thesis by (cases "i = l c") auto
qed

text \<open>What a replica has committed, at any moment.\<close>

lemma node_state:
  assumes "run_inv c e p s" "i < sz c"
  shows "rn_nodes s ! i = fresh c i \<or> follows c i (rn_nodes s ! i) \<or> (i = l c \<and> (\<exists>e S. leads c e S (rn_nodes s ! i)))"
proof (cases "i = l c")
  case True
  with run_invD(5,10) [OF assms(1)] assms(2) show ?thesis by (auto simp: leader_ok_def split: if_splits)
next
  case False
  with run_invD(6,9,10) [OF assms(1)] assms(2) show ?thesis by (auto simp: follower_ok_def)
qed

lemma slots_bound:
  assumes "run_inv c e p s" "i < sz c" "rn_nodes s ! i \<noteq> fresh c i"
  shows "slots (rn_nodes s ! i) \<le> W c \<and> (\<not> quorum c (card (alive c)) \<longrightarrow> slots (rn_nodes s ! i) = 0)"
proof -
  note D = run_invD [OF assms(1)]
  have e: "e \<le> 2 * W c" "\<not> quorum c (card (alive c)) \<Longrightarrow> e \<le> 1" using D(5,7) by (auto simp: leader_ok_def)
  have i: "rn_started s ! i" "i \<in> alive c" using D(9,10) [OF assms(2)] assms(3) by auto
  have "\<exists>q \<le> e. slots (rn_nodes s ! i) = q div 2"
  proof (cases "i = l c")
    case True
    with D(5) i(1) leads_slots show ?thesis by (auto simp: leader_ok_def)
  next
    case False
    with D(6) [of i] i(2) show ?thesis by (auto simp: follower_ok_def)
  qed
  then obtain q where q: "q \<le> e" "slots (rn_nodes s ! i) = q div 2" by blast
  have "q div 2 \<le> W c" using q(1) e(1) by presburger
  moreover have "q div 2 = 0" if "\<not> quorum c (card (alive c))" using q(1) e(2) [OF that] by presburger
  ultimately show ?thesis using q(2) by simp
qed

end

section \<open>Whole runs\<close>

text \<open>The steps of an event loop are the moves of the tasks.\<close>

locale running_cluster = leader_cluster ok sz l W alive fresh start react slots follows leads entry vote quorum
  for ok :: "'c \<Rightarrow> bool" and sz :: "'c \<Rightarrow> nat" and l :: "'c \<Rightarrow> nat" and W :: "'c \<Rightarrow> nat" and alive :: "'c \<Rightarrow> nat set"
    and fresh :: "'c \<Rightarrow> nat \<Rightarrow> 'n" and start :: "'c \<Rightarrow> nat \<Rightarrow> 'n \<Rightarrow> ('n, 'm) reaction option"
    and react :: "'c \<Rightarrow> nat \<Rightarrow> 'n \<Rightarrow> nat \<Rightarrow> 'm \<Rightarrow> ('n, 'm) reaction option"
    and slots :: "'n \<Rightarrow> nat" and follows :: "'c \<Rightarrow> nat \<Rightarrow> 'n \<Rightarrow> bool" and leads :: "'c \<Rightarrow> nat \<Rightarrow> nat set \<Rightarrow> 'n \<Rightarrow> bool"
    and entry :: "'c \<Rightarrow> nat \<Rightarrow> 'm \<Rightarrow> bool" and vote :: "'c \<Rightarrow> nat \<Rightarrow> nat \<Rightarrow> 'm" and quorum :: "'c \<Rightarrow> nat \<Rightarrow> bool" +
  fixes run0 :: "'c \<Rightarrow> ('n, 'm) run_state"
    and start_task :: "'c \<Rightarrow> ('n, 'm) run_state \<Rightarrow> nat \<Rightarrow> ('n, 'm) run_state option"
    and serve_task :: "'c \<Rightarrow> ('n, 'm) run_state \<Rightarrow> nat \<Rightarrow> ('n, 'm) run_state option"
    and may_serve :: "'c \<Rightarrow> ('n, 'm) run_state \<Rightarrow> nat \<Rightarrow> bool"
    and run_step :: "'c \<Rightarrow> ('n, 'm) run_state \<Rightarrow> ('n, 'm) run_state \<Rightarrow> bool"
  assumes run0: "ok c \<Longrightarrow> run0 c = \<lparr>rn_nodes = map (fresh c) [0..<sz c],
      rn_boxes = map (\<lambda>i. if i \<in> alive c then Some [] else None) [0..<sz c],
      rn_next = replicate (sz c) 0, rn_started = replicate (sz c) False\<rparr>"
    and start_task: "ok c \<Longrightarrow> length (rn_boxes s) = sz c \<Longrightarrow> i < sz c \<Longrightarrow> start_task c s i = begun (start c i) s i"
    and serve_task: "ok c \<Longrightarrow> length (rn_boxes s) = sz c \<Longrightarrow> i < sz c \<Longrightarrow> serve_task c s i = served (react c i) s i"
    and may_serve: "ok c \<Longrightarrow> length (rn_boxes s) = sz c \<Longrightarrow>
      (i < sz c \<Longrightarrow> rn_started s ! i \<Longrightarrow> follows c i (rn_nodes s ! i) \<or> (i = l c \<and> (\<exists>e S. leads c e S (rn_nodes s ! i)))) \<Longrightarrow>
      may_serve c s i \<longleftrightarrow> i < sz c \<and> rn_started s ! i \<and> slots (rn_nodes s ! i) < W c \<and>
        (\<exists>m q. rn_boxes s ! i = Some (m # q))"
    and run_step: "run_step c s t \<longleftrightarrow> (\<exists>i. can_start s i \<and> start_task c s i = Some t) \<or>
      (\<exists>i. may_serve c s i \<and> serve_task c s i = Some t)"
begin

lemma may_serve_inv:
  assumes "run_inv c e p s" "ok c"
  shows "may_serve c s i \<longleftrightarrow> can_serve c s i"
proof -
  note D = run_invD [OF assms(1)]
  have "follows c i (rn_nodes s ! i) \<or> (i = l c \<and> (\<exists>e S. leads c e S (rn_nodes s ! i)))"
    if "i < sz c" "rn_started s ! i"
    using D(5) D(6) [of i] D(9) [OF that] that(2) by (cases "i = l c") (auto simp: leader_ok_def follower_ok_def)
  from may_serve [OF assms(2) D(2) this] show ?thesis
    by (auto simp: can_serve_def inbox_def neq_Nil_conv split: option.splits)
qed

lemma task_steps:
  assumes "run_inv c e p s" "ok c"
  shows "can_start s i \<Longrightarrow> \<exists>t e' p'. start_task c s i = Some t \<and> run_inv c e' p' t \<and> todo c p' t < todo c p s \<and> e \<le> e' \<and> p \<le> p'"
    "may_serve c s i \<Longrightarrow> \<exists>t e' p'. serve_task c s i = Some t \<and> run_inv c e' p' t \<and> todo c p' t < todo c p s \<and> e \<le> e' \<and> p \<le> p'"
proof -
  note len = run_invD(2) [OF assms(1)]
  show "\<exists>t e' p'. start_task c s i = Some t \<and> run_inv c e' p' t \<and> todo c p' t < todo c p s \<and> e \<le> e' \<and> p \<le> p'" if "can_start s i"
    using task_goes_on(1) [OF assms that] start_task [OF assms(2) len, of i] that len by (simp add: can_start_def)
  show "\<exists>t e' p'. serve_task c s i = Some t \<and> run_inv c e' p' t \<and> todo c p' t < todo c p s \<and> e \<le> e' \<and> p \<le> p'" if "may_serve c s i"
    using that task_goes_on(2) [OF assms, of i] serve_task [OF assms(2) len, of i]
    unfolding may_serve_inv [OF assms] by (simp add: can_serve_def)
qed

lemma run_step_inv:
  assumes "run_step c s t" "run_inv c e p s" "ok c"
  shows "\<exists>e' p'. run_inv c e' p' t \<and> todo c p' t < todo c p s \<and> e \<le> e' \<and> p \<le> p'"
  using assms(1) task_steps [OF assms(2,3)] unfolding run_step by (metis option.inject)

lemma run0_inv:
  assumes "ok c"
  shows "run_inv c 0 (\<lambda>_. 0) (run0 c)" "todo c (\<lambda>_. 0) (run0 c) \<le> sz c * (4 * W c + 1)"
proof -
  note sh = shapeD [OF assms]
  show "run_inv c 0 (\<lambda>_. 0) (run0 c)"
    using sh fresh_follows [OF assms] by (auto simp: run_inv_def run0 [OF assms] leader_ok_def follower_ok_def inbox_def)
  have A: "card (alive c) \<le> sz c" using card_mono [of "{..<sz c}" "alive c"] sh(5) by auto
  have "inbox (run0 c) (l c) = []" using sh(2) by (simp add: inbox_def run0 [OF assms])
  then have "todo c (\<lambda>_. 0) (run0 c) = card {i \<in> alive c. \<not> rn_started (run0 c) ! i} + card (alive c - {l c}) * (4 * W c)"
    by (simp add: todo_def)
  also have "\<dots> \<le> card (alive c) + card (alive c) * (4 * W c)"
    using sh(4) by (intro add_mono mult_le_mono1 card_mono) auto
  also have "\<dots> = card (alive c) * (4 * W c + 1)" by simp
  also have "\<dots> \<le> sz c * (4 * W c + 1)" using A by (rule mult_le_mono1)
  finally show "todo c (\<lambda>_. 0) (run0 c) \<le> sz c * (4 * W c + 1)" .
qed

lemma run_steps_inv:
  assumes "(run_step c ^^ n) (run0 c) s" "ok c"
  shows "\<exists>e p. run_inv c e p s \<and> n + todo c p s \<le> sz c * (4 * W c + 1)"
  using assms(1)
proof (induction n arbitrary: s)
  case 0
  with run0_inv [OF assms(2)] show ?case by auto
next
  case (Suc n)
  from Suc.prems obtain u where "(run_step c ^^ n) (run0 c) u" "run_step c u s" by auto
  with Suc.IH [OF this(1)] run_step_inv [OF this(2) _ assms(2)] show ?case by fastforce
qed

text \<open>The four facts about a run: it is short, no task panics, it keeps to the workload, and it settles.\<close>

lemma run_bounded: "(run_step c ^^ n) (run0 c) s \<Longrightarrow> ok c \<Longrightarrow> n \<le> sz c * (4 * W c + 1)"
  using run_steps_inv by fastforce

lemma run_progress:
  assumes "(run_step c ^^ n) (run0 c) s" "ok c"
  shows "can_start s i \<Longrightarrow> start_task c s i \<noteq> None" "may_serve c s i \<Longrightarrow> serve_task c s i \<noteq> None"
proof -
  from run_steps_inv [OF assms] obtain e p where inv: "run_inv c e p s" by blast
  show "can_start s i \<Longrightarrow> start_task c s i \<noteq> None" "may_serve c s i \<Longrightarrow> serve_task c s i \<noteq> None"
    using task_steps [OF inv assms(2), of i] by auto
qed

lemma run_nodes:
  assumes "(run_step c ^^ n) (run0 c) s" "ok c" "i < sz c"
  shows "length (rn_nodes s) = sz c" "rn_started s ! i \<Longrightarrow> i \<in> alive c"
    "rn_nodes s ! i = fresh c i \<or> (follows c i (rn_nodes s ! i) \<or> (i = l c \<and> (\<exists>e S. leads c e S (rn_nodes s ! i)))) \<and>
      slots (rn_nodes s ! i) \<le> W c \<and> (\<not> quorum c (card (alive c)) \<longrightarrow> slots (rn_nodes s ! i) = 0)"
proof -
  from run_steps_inv [OF assms(1,2)] obtain e p where inv: "run_inv c e p s" by blast
  show "length (rn_nodes s) = sz c" "rn_started s ! i \<Longrightarrow> i \<in> alive c"
    using run_invD(1,9) [OF inv] assms(3) by auto
  show "rn_nodes s ! i = fresh c i \<or> (follows c i (rn_nodes s ! i) \<or> (i = l c \<and> (\<exists>e S. leads c e S (rn_nodes s ! i)))) \<and>
      slots (rn_nodes s ! i) \<le> W c \<and> (\<not> quorum c (card (alive c)) \<longrightarrow> slots (rn_nodes s ! i) = 0)"
    using node_state [OF inv assms(3)] slots_bound [OF inv assms(3)] by auto
qed

lemma run_settled:
  assumes "(run_step c ^^ n) (run0 c) s" "ok c" "\<nexists>t. run_step c s t"
    "l c \<in> alive c" "quorum c (card (alive c))" "i \<in> alive c"
  shows "rn_started s ! i \<and> W c \<le> slots (rn_nodes s ! i)"
proof -
  from run_steps_inv [OF assms(1,2)] obtain e p where inv: "run_inv c e p s" by blast
  have "\<not> can_start s j" "\<not> can_serve c s j" for j
    using task_steps [OF inv assms(2), of j] assms(3) unfolding run_step may_serve_inv [OF inv assms(2)] by auto
  from settled_slots [OF inv assms(2) this assms(4-6)] show ?thesis .
qed

lemma run_channels:
  assumes "(run_step c ^^ n) (run0 c) s" "ok c" "i < sz c"
  shows "length (rn_boxes s) = sz c" "rn_boxes s ! i \<noteq> None \<longleftrightarrow> i \<in> alive c"
    "\<nexists>t. run_step c s t \<Longrightarrow> i \<in> alive c \<Longrightarrow> rn_started s ! i"
proof -
  from run_steps_inv [OF assms(1,2)] obtain e p where inv: "run_inv c e p s" by blast
  show "length (rn_boxes s) = sz c" by (rule run_invD(2) [OF inv])
  show box: "rn_boxes s ! i \<noteq> None \<longleftrightarrow> i \<in> alive c" by (rule run_invD(8) [OF inv assms(3)])
  have "\<not> can_start s i" if "\<nexists>t. run_step c s t"
    using task_steps(1) [OF inv assms(2), of i] that unfolding run_step by blast
  with box run_invD(2) [OF inv] assms(3) show "\<nexists>t. run_step c s t \<Longrightarrow> i \<in> alive c \<Longrightarrow> rn_started s ! i"
    by (auto simp: can_start_def)
qed

text \<open>What the replicas have committed grows, and never beyond the leader's.\<close>

lemma learned_inv:
  assumes "run_inv c e p s" "ok c" "i < sz c"
  shows "learned_by slots s ! i = (if i = l c then e div 2 else if i \<in> alive c then p i div 2 else 0)"
    "i \<in> alive c - {l c} \<Longrightarrow> p i \<le> e" "e \<le> 2 * W c" "length (learned_by slots s) = sz c"
proof -
  note D = run_invD [OF assms(1)]
  have "slots (rn_nodes s ! i) = p i div 2" "p i \<le> e" "\<not> rn_started s ! i \<Longrightarrow> p i div 2 = 0" if "i \<in> alive c - {l c}"
    using D(6) [OF that] D(10) [OF assms(3)] fresh_follows [OF assms(2) that] by (auto simp: follower_ok_def)
  moreover have "if rn_started s ! l c then slots (rn_nodes s ! l c) = e div 2 else e = 0" "e \<le> 2 * W c"
    using D(5) leads_slots by (auto simp: leader_ok_def)
  ultimately show "learned_by slots s ! i = (if i = l c then e div 2 else if i \<in> alive c then p i div 2 else 0)"
    "i \<in> alive c - {l c} \<Longrightarrow> p i \<le> e" "e \<le> 2 * W c" "length (learned_by slots s) = sz c"
    using D(1) D(9) [OF assms(3)] assms(3) by (auto simp: learned_by_def split: if_splits)
qed

lemma run_learned:
  assumes "(run_step c ^^ n) (run0 c) s" "ok c" "i < sz c"
  shows "learned_by slots s ! i \<le> learned_by slots s ! l c" "learned_by slots s ! l c \<le> W c"
    "length (learned_by slots s) = sz c"
    "run_step c s t \<Longrightarrow> learned_by slots s ! i \<le> learned_by slots t ! i"
proof -
  from run_steps_inv [OF assms(1,2)] obtain e p where inv: "run_inv c e p s" by blast
  note L = learned_inv [OF inv assms(2)] and sh = shapeD [OF assms(2)]
  show "learned_by slots s ! i \<le> learned_by slots s ! l c" "learned_by slots s ! l c \<le> W c" "length (learned_by slots s) = sz c"
    using L(1,2,4) [OF assms(3)] L(1,3) [OF sh(2)] by (auto intro: div_le_mono)
  assume "run_step c s t"
  from run_step_inv [OF this inv assms(2)] obtain e' p' where t: "run_inv c e' p' t" "e \<le> e'" "p \<le> p'" by blast
  show "learned_by slots s ! i \<le> learned_by slots t ! i"
    unfolding L(1) [OF assms(3)] learned_inv(1) [OF t(1) assms(2,3)] using t(2,3) by (auto simp: le_fun_def intro: div_le_mono)
qed

lemma run_settles:
  assumes "ok c"
  shows "\<exists>n s. (run_step c ^^ n) (run0 c) s \<and> (\<nexists>t. run_step c s t)"
proof -
  let ?P = "\<lambda>n. \<exists>s. (run_step c ^^ n) (run0 c) s"
  have bound: "n \<le> sz c * (4 * W c + 1)" if "?P n" for n
    using that run_bounded [OF _ assms] by blast
  have "?P 0" by auto
  then have "?P (Greatest ?P)" by (rule GreatestI_nat) (rule bound)
  then obtain s where s: "(run_step c ^^ Greatest ?P) (run0 c) s" by blast
  have "\<not> run_step c s t" for t
  proof
    assume "run_step c s t"
    with s have "?P (Suc (Greatest ?P))" by auto
    then have "Suc (Greatest ?P) \<le> Greatest ?P" by (rule Greatest_le_nat) (rule bound)
    then show False by simp
  qed
  with s show ?thesis by blast
qed

end

end
