(* ===== verification/Run.thy ===== *)
theory Run
  imports Cluster
begin

text \<open>
  The crash-fault cluster as it runs (\<open>run_cluster\<close> of \<open>crates/dlc-d-node/src/net.rs\<close>): one task per
  live replica with its channel, the leader feeding its workload, crashed replicas that never start.
  A task runs from one \<open>recv\<close> to the next without being seen, since each channel of a follower has
  a single sender.  A run is any interleaving of the tasks; it ends, and how it ends.
\<close>

section \<open>Tasks and channels\<close>

record cluster_config =
  cc_size :: u32
  cc_leader :: u32
  cc_init :: trm
  cc_workload :: "command list"
  cc_crashed :: "u32 list"
  cc_budget :: failure_budget

text \<open>The replicas, their channels, the drivers' counters and what has been spawned.\<close>

type_synonym node_run = "(node, msg) run_state"

definition run_init :: "cluster_config \<Rightarrow> node_run" where
  "run_init cfg = (let n = unat (cc_size cfg) in
     \<lparr>rn_nodes = map (\<lambda>i. node_new (of_nat i) (cc_size cfg) (cc_leader cfg) (cc_init cfg) (cc_budget cfg)) [0..<n],
      rn_boxes = map (\<lambda>i. if of_nat i \<in> set (cc_crashed cfg) then None else Some []) [0..<n],
      rn_next = replicate n 0, rn_started = replicate n False\<rparr>)"

definition start_task :: "cluster_config \<Rightarrow> node_run \<Rightarrow> nat \<Rightarrow> node_run option" where
  "start_task cfg s i = (case drive (rn_nodes s ! i) 0 (cc_workload cfg) of
     None \<Rightarrow> None
   | Some (n, k, outs) \<Rightarrow> Some \<lparr>rn_nodes = (rn_nodes s)[i := n],
       rn_boxes = dispatch (rn_boxes s) (of_nat i) outs,
       rn_next = (rn_next s)[i := k], rn_started = (rn_started s)[i := True]\<rparr>)"

definition can_serve :: "cluster_config \<Rightarrow> node_run \<Rightarrow> nat \<Rightarrow> bool" where
  "can_serve cfg s i \<longleftrightarrow> i < length (rn_boxes s) \<and> rn_started s ! i \<and>
     (case applied_of (nd_view (rn_nodes s ! i)) of Some a \<Rightarrow> a < length (cc_workload cfg) | None \<Rightarrow> False) \<and>
     (case rn_boxes s ! i of Some (m # q) \<Rightarrow> True | _ \<Rightarrow> False)"

definition serve_task :: "cluster_config \<Rightarrow> node_run \<Rightarrow> nat \<Rightarrow> node_run option" where
  "serve_task cfg s i = (case rn_boxes s ! i of
     Some (m # q) \<Rightarrow>
       (case node_handle (rn_nodes s ! i) m of
          None \<Rightarrow> None
        | Some (n1, outs1) \<Rightarrow>
            (let boxes1 = dispatch ((rn_boxes s)[i := Some q]) (of_nat i) outs1 in
             case drive n1 (rn_next s ! i) (cc_workload cfg) of
               None \<Rightarrow> None
             | Some (n2, k, outs2) \<Rightarrow> Some \<lparr>rn_nodes = (rn_nodes s)[i := n2],
                 rn_boxes = dispatch boxes1 (of_nat i) outs2,
                 rn_next = (rn_next s)[i := k], rn_started = rn_started s\<rparr>))
   | _ \<Rightarrow> Some s)"

inductive run_step :: "cluster_config \<Rightarrow> node_run \<Rightarrow> node_run \<Rightarrow> bool" for cfg where
  begins: "can_start s i \<Longrightarrow> start_task cfg s i = Some t \<Longrightarrow> run_step cfg s t"
| serves: "can_serve cfg s i \<Longrightarrow> serve_task cfg s i = Some t \<Longrightarrow> run_step cfg s t"

definition run_views :: "node_run \<Rightarrow> global_config list" where
  "run_views s = map (\<lambda>i. nd_view (rn_nodes s ! i)) (filter (\<lambda>i. rn_started s ! i) [0..<length (rn_nodes s)])"

text \<open>The run has settled when no task has anything left to do.\<close>

definition run_complete :: "cluster_config \<Rightarrow> node_run \<Rightarrow> bool" where
  "run_complete cfg s \<longleftrightarrow> list_all (\<lambda>v. applied_of v = Some (length (cc_workload cfg))) (run_views s)"

section \<open>What the leader says\<close>

text \<open>The leader's messages to its peers are one stream: the proposal and the commit of each slot.\<close>

definition entry :: "command list \<Rightarrow> nat \<Rightarrow> msg" where
  "entry wl i = (if even i then Propose (of_nat (i div 2)) (wl ! (i div 2))
     else Commit (of_nat (i div 2)) (wl ! (i div 2)))"

lemma follower_handle:
  assumes "node_ok init sz ldr j n" "log (nd_view n) = take (i div 2) wl" "i div 2 < length wl" "length wl < 2 ^ 31"
  shows "\<exists>n'. node_handle n (entry wl i) = Some (n', if even i
      then [\<lparr>o_dest = To (of_nat ldr), o_msg = Vote (of_nat (i div 2)) (of_nat j) (wl ! (i div 2))\<rparr>] else []) \<and>
    node_ok init sz ldr j n' \<and> log (nd_view n') = take (Suc i div 2) wl"
proof (cases "even i")
  case True
  with assms show ?thesis
    by (auto simp: node_handle_def entry_def node_next_slot_def next_slot_def node_ok_def)
next
  case False
  from assms have len: "length (log (nd_view n)) + 1 < 2 ^ 32" by simp
  from apply_commit_view_ok [OF node_ok_view [OF assms(1)] len, of "wl ! (i div 2)"] obtain w where
    "apply_commit_view (nd_view n) (wl ! (i div 2)) = Some w" "view_ok init (nd_id n) w"
    "log w = log (nd_view n) @ [wl ! (i div 2)]" by blast
  with False assms show ?thesis
    by (simp add: node_handle_def entry_def node_next_slot_def next_slot_def node_ok_def
        node_apply_commit_def take_Suc_conv_app_nth)
qed

lemma drive_stays:
  "\<not> (node_is_leader n \<and> k < length wl \<and> length (log (nd_view n)) = k) \<Longrightarrow> drive n k wl = Some (n, k, [])"
  by (subst drive.simps) auto

lemma quorum_vote:
  assumes "sz < 2 ^ 31" "length bl = sz"
  shows "decided bl c \<longleftrightarrow> crash_reached (card (voters bl c)) sz"
  using assms by (simp add: decided_iff)

lemma one_voter: "l < sz \<Longrightarrow> voters ((replicate sz None)[l := Some c]) c = {l}"
  by (auto simp: voters_def nth_list_update)

lemma one_more_voter: "src < length bl \<Longrightarrow> voters (bl[src := Some c]) c = insert src (voters bl c)"
  by (auto simp: voters_def nth_list_update)

text \<open>A leader that has sent \<open>e\<close> entries and holds the votes of the seats \<open>S\<close>.\<close>

definition leading :: "trm \<Rightarrow> nat \<Rightarrow> nat \<Rightarrow> command list \<Rightarrow> nat \<Rightarrow> nat set \<Rightarrow> node \<Rightarrow> bool" where
  "leading init sz l wl e S n \<longleftrightarrow> node_ok init sz l l n \<and> e \<le> 2 * length wl \<and>
     log (nd_view n) = take (e div 2) wl \<and> nd_proposing n = (if odd e then Some (wl ! (e div 2)) else None) \<and>
     (odd e \<longrightarrow> voters (nd_ballot n) (wl ! (e div 2)) = S)"

lemma leading_slots: "leading init sz l wl e S n \<Longrightarrow> length (log (nd_view n)) = e div 2"
  by (auto simp: leading_def)

text \<open>The driver of a leader with nothing in flight opens the next slot, if there is one.\<close>

lemma drive_opens:
  assumes "node_ok init sz l l n" "nd_proposing n = None" "log (nd_view n) = take k wl" "k \<le> length wl"
    "2 \<le> sz" "sz < 2 ^ 31" "l < sz"
  shows "\<exists>n' k' outs. drive n k wl = Some (n', k', outs) \<and>
    opened l (length wl) (leading init sz l wl) (\<lambda>i m. m = entry wl i) k (n', k', map (\<lambda>out. (o_dest out, o_msg out)) outs)"
proof (cases "k < length wl")
  case False
  then have "drive n k wl = Some (n, k, [])" by (intro drive_stays) simp
  with False assms(1-4) show ?thesis by (simp add: opened_def leading_def)
next
  case True
  with assms(3) have len: "length (log (nd_view n)) = k" by simp
  let ?bl = "(replicate sz None)[l := Some (wl ! k)]"
  let ?n = "n\<lparr>nd_ballot := ?bl, nd_proposing := Some (wl ! k)\<rparr>"
  have u: "unat (nd_cluster n) = sz" "unat (nd_id n) = l" "node_is_leader n"
    using assms(1,6,7) by (simp_all add: node_ok_def unat_u32_small node_is_leader_def)
  have "\<not> decided ?bl (wl ! k)"
    using quorum_vote [OF assms(6), of ?bl] one_voter [OF assms(7)] assms(5) by (simp add: crash_reached_def)
  then have "node_submit n (wl ! k) = Some (?n, [\<lparr>o_dest = Peers, o_msg = Propose (of_nat k) (wl ! k)\<rparr>])"
    using assms(2,7) u len by (simp add: node_submit_def decide_if_quorum_def Let_def node_next_slot_def next_slot_def)
  moreover have "drive ?n (Suc k) wl = Some (?n, Suc k, [])" using len by (intro drive_stays) simp
  moreover have "applied_of (nd_view n) = Some k"
    using applied_of_ok [OF node_ok_view [OF assms(1)]] len by simp
  ultimately have "drive n k wl = Some (?n, Suc k, [\<lparr>o_dest = Peers, o_msg = entry wl (2 * k)\<rparr>])"
    using u(3) True len by (subst drive.simps) (simp add: entry_def)
  moreover have "leading init sz l wl (2 * k + 1) {l} ?n"
    using assms(1,3) True one_voter [OF assms(7)] by (auto simp: leading_def node_ok_def)
  ultimately show ?thesis using True by (simp add: opened_def)
qed

text \<open>What the leader does with a vote: nothing, count it, or decide.\<close>

lemma leader_handle:
  assumes "node_ok init sz l l n" "log (nd_view n) = take k wl" "k < length wl" "src < sz"
    "sz < 2 ^ 31" "length wl < 2 ^ 31"
  defines "bl \<equiv> (nd_ballot n)[src := Some (wl ! k)]"
  shows "if decided bl (wl ! k)
    then \<exists>n'. node_handle n (Vote (of_nat k) (of_nat src) (wl ! k)) =
        Some (n', [\<lparr>o_dest = Peers, o_msg = entry wl (2 * k + 1)\<rparr>]) \<and> node_ok init sz l l n' \<and>
        log (nd_view n') = take (Suc k) wl \<and> nd_proposing n' = None
    else node_handle n (Vote (of_nat k) (of_nat src) (wl ! k)) = Some (n\<lparr>nd_ballot := bl\<rparr>, [])"
proof -
  have u: "unat (of_nat src :: u32) = src" "node_is_leader n" "length (nd_ballot n) = sz"
    "node_next_slot n = of_nat k"
    using assms(1-5) by (simp_all add: node_ok_def unat_u32_small node_is_leader_def node_next_slot_def next_slot_def)
  then have h: "node_handle n (Vote (of_nat k) (of_nat src) (wl ! k)) = decide_if_quorum (n\<lparr>nd_ballot := bl\<rparr>) (of_nat k) (wl ! k)"
    using assms(4) by (simp add: node_handle_def Let_def bl_def)
  from assms(2,3,6) have len: "length (log (nd_view n)) + 1 < 2 ^ 32" by simp
  from apply_commit_view_ok [OF node_ok_view [OF assms(1)] len, of "wl ! k"] obtain w where
    "apply_commit_view (nd_view n) (wl ! k) = Some w" "view_ok init (nd_id n) w"
    "log w = log (nd_view n) @ [wl ! k]" by blast
  with h assms(1-3) show ?thesis
    by (auto simp: decide_if_quorum_def Let_def node_apply_commit_def entry_def node_ok_def take_Suc_conv_app_nth
        unat_u32_small [OF assms(5)])
qed

section \<open>The contract of a cluster\<close>

definition live_seats :: "cluster_config \<Rightarrow> nat set" where
  "live_seats cfg = {i. i < unat (cc_size cfg) \<and> of_nat i \<notin> set (cc_crashed cfg)}"

definition config_ok :: "cluster_config \<Rightarrow> bool" where
  "config_ok cfg \<longleftrightarrow> 2 \<le> cc_size cfg \<and> cc_size cfg < 2 ^ 31 \<and> cc_leader cfg < cc_size cfg \<and>
     length (cc_workload cfg) < 2 ^ 31"

definition to_send :: "out list \<Rightarrow> (dest \<times> msg) list" where
  "to_send outs = map (\<lambda>out. (o_dest out, o_msg out)) outs"

definition node_starts :: "cluster_config \<Rightarrow> nat \<Rightarrow> node \<Rightarrow> (node, msg) reaction option" where
  "node_starts cfg i n = map_option (\<lambda>(n, k, outs). (n, k, to_send outs)) (drive n 0 (cc_workload cfg))"

definition node_reacts :: "cluster_config \<Rightarrow> nat \<Rightarrow> node \<Rightarrow> nat \<Rightarrow> msg \<Rightarrow> (node, msg) reaction option" where
  "node_reacts cfg i n k m = (case node_handle n m of None \<Rightarrow> None
   | Some (n1, outs1) \<Rightarrow> map_option (\<lambda>(n2, k2, outs2). (n2, k2, to_send (outs1 @ outs2))) (drive n1 k (cc_workload cfg)))"

definition node_follows :: "cluster_config \<Rightarrow> nat \<Rightarrow> node \<Rightarrow> bool" where
  "node_follows cfg i n \<longleftrightarrow> node_ok (cc_init cfg) (unat (cc_size cfg)) (unat (cc_leader cfg)) i n \<and>
     log (nd_view n) = take (length (log (nd_view n))) (cc_workload cfg)"

abbreviation node_leads :: "cluster_config \<Rightarrow> nat \<Rightarrow> nat set \<Rightarrow> node \<Rightarrow> bool" where
  "node_leads cfg \<equiv> leading (cc_init cfg) (unat (cc_size cfg)) (unat (cc_leader cfg)) (cc_workload cfg)"

abbreviation slots_of :: "node \<Rightarrow> nat" where
  "slots_of n \<equiv> length (log (nd_view n))"

definition vote_for :: "cluster_config \<Rightarrow> nat \<Rightarrow> nat \<Rightarrow> msg" where
  "vote_for cfg k j = Vote (of_nat k) (of_nat j) (cc_workload cfg ! k)"

lemma configD:
  assumes "config_ok cfg"
  shows "2 \<le> unat (cc_size cfg)" "unat (cc_size cfg) < 2 ^ 31" "unat (cc_leader cfg) < unat (cc_size cfg)"
    "length (cc_workload cfg) < 2 ^ 31" "i \<in> live_seats cfg \<Longrightarrow> i < unat (cc_size cfg)" "live_seats cfg \<subseteq> {..<unat (cc_size cfg)}"
  using assms by (auto simp: config_ok_def live_seats_def word_le_nat_alt word_less_nat_alt)

lemma vote_for_inj:
  assumes "config_ok cfg" "k < length (cc_workload cfg)" "t < length (cc_workload cfg)"
    "i \<in> live_seats cfg" "j \<in> live_seats cfg" "vote_for cfg k i = vote_for cfg t j"
  shows "k = t \<and> i = j"
proof -
  note D = configD [OF assms(1)]
  have small: "k < 2 ^ 31" "t < 2 ^ 31" "i < 2 ^ 31" "j < 2 ^ 31" using assms(2-5) D by (auto dest: D(5))
  from assms(6) have "(of_nat k :: u32) = of_nat t" "(of_nat i :: u32) = of_nat j" by (simp_all add: vote_for_def)
  with small show ?thesis by (metis unat_u32_small)
qed

lemma follower_starts:
  assumes "config_ok cfg" "i \<in> live_seats cfg - {unat (cc_leader cfg)}" "node_follows cfg i n"
  shows "drive n k wl = Some (n, k, [])"
proof -
  note D = configD [OF assms(1)]
  have "\<not> node_is_leader n"
    using assms(2,3) leader_iff [OF _ D(2) D(5) D(3), of "cc_init cfg" i n] by (auto simp: node_follows_def)
  then show ?thesis by (intro drive_stays) simp
qed

lemma follower_reacts:
  assumes "config_ok cfg" "i \<in> live_seats cfg - {unat (cc_leader cfg)}" "node_follows cfg i n"
    "slots_of n = p div 2" "p < 2 * length (cc_workload cfg)"
  shows "\<exists>n'. node_reacts cfg i n k (entry (cc_workload cfg) p) =
      Some (n', k, if even p then [(To (of_nat (unat (cc_leader cfg))), vote_for cfg (p div 2) i)] else []) \<and>
    node_follows cfg i n' \<and> slots_of n' = Suc p div 2"
proof -
  note D = configD [OF assms(1)]
  from assms(3,4) have ok: "node_ok (cc_init cfg) (unat (cc_size cfg)) (unat (cc_leader cfg)) i n"
    "log (nd_view n) = take (p div 2) (cc_workload cfg)" by (simp_all add: node_follows_def)
  have p: "p div 2 < length (cc_workload cfg)" "Suc p div 2 \<le> length (cc_workload cfg)" using assms(5) by presburger+
  from follower_handle [OF ok p(1) D(4)] obtain n' where
    h: "node_handle n (entry (cc_workload cfg) p) = Some (n', if even p
        then [\<lparr>o_dest = To (of_nat (unat (cc_leader cfg))), o_msg = vote_for cfg (p div 2) i\<rparr>] else [])"
      "node_ok (cc_init cfg) (unat (cc_size cfg)) (unat (cc_leader cfg)) i n'"
      "log (nd_view n') = take (Suc p div 2) (cc_workload cfg)"
    by (auto simp: vote_for_def)
  then have f: "node_follows cfg i n'" "slots_of n' = Suc p div 2" using p(2) by (simp_all add: node_follows_def)
  with follower_starts [OF assms(1,2) f(1), of k] h(1) show ?thesis
    by (simp add: node_reacts_def to_send_def)
qed

lemma leader_opens:
  assumes "config_ok cfg" "node_ok (cc_init cfg) (unat (cc_size cfg)) (unat (cc_leader cfg)) (unat (cc_leader cfg)) n"
    "nd_proposing n = None" "log (nd_view n) = take k (cc_workload cfg)" "k \<le> length (cc_workload cfg)"
  shows "\<exists>n' k' outs. drive n k (cc_workload cfg) = Some (n', k', outs) \<and>
    opened (unat (cc_leader cfg)) (length (cc_workload cfg)) (node_leads cfg) (\<lambda>i m. m = entry (cc_workload cfg) i) k
      (n', k', to_send outs)"
  using drive_opens [OF assms(2-5) configD(1-3) [OF assms(1)]] by (simp add: to_send_def)

lemma leader_ignores:
  assumes "config_ok cfg" "node_leads cfg e S n" "k \<noteq> e div 2" "2 * k < e" "even e \<longrightarrow> e = 2 * length (cc_workload cfg)"
  shows "node_reacts cfg l n (Suc e div 2) (vote_for cfg k src) = Some (n, Suc e div 2, [])"
proof -
  have lead: "e \<le> 2 * length (cc_workload cfg)" "slots_of n = e div 2" using assms(2) by (auto simp: leading_def)
  then have small: "k < 2 ^ 31" "e div 2 < 2 ^ 31" using assms(4) configD(4) [OF assms(1)] by linarith+
  with assms(3) have "(of_nat (e div 2) :: u32) \<noteq> of_nat k" by (metis unat_u32_small)
  then have "node_handle n (vote_for cfg k src) = Some (n, [])"
    by (simp add: vote_for_def node_handle_def node_next_slot_def next_slot_def lead(2))
  moreover have "drive n (Suc e div 2) (cc_workload cfg) = Some (n, Suc e div 2, [])"
    using lead assms(5) by (intro drive_stays) (cases "even e"; auto)
  ultimately show ?thesis by (simp add: node_reacts_def to_send_def)
qed

lemma leader_counts:
  assumes "config_ok cfg" "node_leads cfg (2 * k + 1) S n" "k < length (cc_workload cfg)" "src \<in> live_seats cfg"
  shows "if crash_reached (card (insert src S)) (unat (cc_size cfg))
    then \<exists>n' k' outs. node_reacts cfg l n (Suc k) (vote_for cfg k src) =
        Some (n', k', (Peers, entry (cc_workload cfg) (2 * k + 1)) # outs) \<and>
      opened (unat (cc_leader cfg)) (length (cc_workload cfg)) (node_leads cfg) (\<lambda>i m. m = entry (cc_workload cfg) i)
        (Suc k) (n', k', outs)
    else \<exists>n'. node_reacts cfg l n (Suc k) (vote_for cfg k src) = Some (n', Suc k, []) \<and>
      node_leads cfg (2 * k + 1) (insert src S) n'"
proof -
  note D = configD [OF assms(1)]
  let ?sz = "unat (cc_size cfg)" and ?l = "unat (cc_leader cfg)" and ?wl = "cc_workload cfg"
  have src: "src < ?sz" by (rule D(5) [OF assms(4)])
  from assms(2) have ok: "node_ok (cc_init cfg) ?sz ?l ?l n" "log (nd_view n) = take k ?wl"
    "voters (nd_ballot n) (?wl ! k) = S" "nd_proposing n = Some (?wl ! k)" by (simp_all add: leading_def)
  then have len: "length (nd_ballot n) = ?sz" by (simp add: node_ok_def)
  define bl where "bl = (nd_ballot n)[src := Some (?wl ! k)]"
  have voted: "voters bl (?wl ! k) = insert src S" "length bl = ?sz"
    using one_more_voter [of src "nd_ballot n"] src len ok(3) by (simp_all add: bl_def)
  then have dec: "decided bl (?wl ! k) \<longleftrightarrow> crash_reached (card (insert src S)) ?sz"
    using quorum_vote [OF D(2) voted(2)] by simp
  note h = leader_handle [OF ok(1,2) assms(3) src D(2,4), folded bl_def vote_for_def, unfolded dec]
  show ?thesis
  proof (cases "crash_reached (card (insert src S)) ?sz")
    case True
    with h obtain n1 where n1: "node_handle n (vote_for cfg k src) =
        Some (n1, [\<lparr>o_dest = Peers, o_msg = entry ?wl (2 * k + 1)\<rparr>])" "node_ok (cc_init cfg) ?sz ?l ?l n1"
      "log (nd_view n1) = take (Suc k) ?wl" "nd_proposing n1 = None" by auto
    from leader_opens [OF assms(1) n1(2,4,3)] assms(3) n1(1) True show ?thesis
      by (auto simp: node_reacts_def to_send_def)
  next
    case False
    let ?n = "n\<lparr>nd_ballot := bl\<rparr>"
    have "drive ?n (Suc k) ?wl = Some (?n, Suc k, [])"
      using ok(2) assms(3) by (intro drive_stays) simp
    moreover have "node_leads cfg (2 * k + 1) (insert src S) ?n"
      using assms(2) voted by (auto simp: leading_def node_ok_def)
    ultimately show ?thesis using h False by (simp add: node_reacts_def to_send_def)
  qed
qed

text \<open>The model of the code in the terms of the contract.\<close>

lemma dispatch_posted:
  "length boxes \<le> 2 ^ 32 \<Longrightarrow> i < length boxes \<Longrightarrow> dispatch boxes (of_nat i) outs = posted boxes i (to_send outs)"
  by (simp add: dispatch_def dispatched to_send_def)

lemma start_task_begun:
  assumes "length (rn_boxes s) = sz" "i < sz" "sz < 2 ^ 31"
  shows "start_task cfg s i = begun (node_starts cfg i) s i"
  using assms by (auto simp: start_task_def begun_def node_starts_def dispatch_posted split: option.splits)

lemma serve_task_served:
  assumes "length (rn_boxes s) = sz" "i < sz" "sz < 2 ^ 31"
  shows "serve_task cfg s i = served (node_reacts cfg i) s i"
  using assms by (auto simp: serve_task_def served_def node_reacts_def dispatch_posted posted_append to_send_def
      split: option.splits list.splits)

lemma can_serve_iff:
  assumes "length (rn_boxes s) = sz"
    "i < sz \<Longrightarrow> rn_started s ! i \<Longrightarrow> node_follows cfg i (rn_nodes s ! i) \<or> (i = l \<and> (\<exists>e S. node_leads cfg e S (rn_nodes s ! i)))"
  shows "can_serve cfg s i \<longleftrightarrow> i < sz \<and> rn_started s ! i \<and> slots_of (rn_nodes s ! i) < length (cc_workload cfg) \<and>
    (\<exists>m q. rn_boxes s ! i = Some (m # q))"
proof (cases "i < sz \<and> rn_started s ! i")
  case True
  with assms(2) have "applied_of (nd_view (rn_nodes s ! i)) = Some (slots_of (rn_nodes s ! i))"
    by (auto simp: node_follows_def leading_def intro: applied_of_ok node_ok_view)
  with assms(1) True show ?thesis by (auto simp: can_serve_def split: option.splits list.splits)
next
  case False
  with assms(1) show ?thesis by (auto simp: can_serve_def)
qed

interpretation crash_run: running_cluster config_ok "\<lambda>cfg. unat (cc_size cfg)" "\<lambda>cfg. unat (cc_leader cfg)"
  "\<lambda>cfg. length (cc_workload cfg)" live_seats
  "\<lambda>cfg i. node_new (of_nat i) (cc_size cfg) (cc_leader cfg) (cc_init cfg) (cc_budget cfg)"
  node_starts node_reacts slots_of node_follows node_leads "\<lambda>cfg i m. m = entry (cc_workload cfg) i" vote_for
  "\<lambda>cfg a. crash_reached a (unat (cc_size cfg))" run_init start_task serve_task can_serve run_step
proof unfold_locales
  fix cfg assume cfg: "config_ok cfg"
  note D = configD [OF cfg]
  have new: "node_ok (cc_init cfg) (unat (cc_size cfg)) (unat (cc_leader cfg)) i
      (node_new (of_nat i) (cc_size cfg) (cc_leader cfg) (cc_init cfg) (cc_budget cfg))" for i
    by (simp add: node_ok_def node_new_def view_ok_def)
  show "2 \<le> unat (cc_size cfg) \<and> unat (cc_leader cfg) < unat (cc_size cfg) \<and> unat (cc_size cfg) \<le> 2 ^ 31 \<and>
      live_seats cfg \<subseteq> {..<unat (cc_size cfg)}" using D(1-3,6) by simp
  show "\<not> crash_reached 1 (unat (cc_size cfg))" using D(1) by (simp add: crash_reached_def)
  show "crash_reached b (unat (cc_size cfg))" if "crash_reached a (unat (cc_size cfg))" "a \<le> b" for a b
    using that by (simp add: crash_reached_def)
  show "k = k' \<and> i = j" if "k < length (cc_workload cfg)" "k' < length (cc_workload cfg)" "i \<in> live_seats cfg"
    "j \<in> live_seats cfg" "vote_for cfg k i = vote_for cfg k' j" for k k' i j by (rule vote_for_inj [OF cfg that])
  let ?new = "\<lambda>i. node_new (of_nat i) (cc_size cfg) (cc_leader cfg) (cc_init cfg) (cc_budget cfg)"
  have log0: "log (nd_view (?new i)) = []" "nd_proposing (?new i) = None" for i by (simp_all add: node_new_def)
  show "node_follows cfg i (?new i) \<and> slots_of (?new i) = 0" for i
    using new by (simp add: node_follows_def log0)
  show "\<exists>r. node_starts cfg (unat (cc_leader cfg)) (?new (unat (cc_leader cfg))) = Some r \<and>
      opened (unat (cc_leader cfg)) (length (cc_workload cfg)) (node_leads cfg) (\<lambda>i m. m = entry (cc_workload cfg) i) 0 r"
  proof -
    obtain n' k' outs where "drive (?new (unat (cc_leader cfg))) 0 (cc_workload cfg) = Some (n', k', outs)"
      "opened (unat (cc_leader cfg)) (length (cc_workload cfg)) (node_leads cfg) (\<lambda>i m. m = entry (cc_workload cfg) i) 0
        (n', k', to_send outs)"
      using leader_opens [OF cfg new log0(2), of 0, unfolded log0(1)] by auto
    then show ?thesis by (simp add: node_starts_def)
  qed
  show "node_starts cfg i n = Some (n, 0, [])" if "i \<in> live_seats cfg - {unat (cc_leader cfg)}" "node_follows cfg i n" for i n
    using follower_starts [OF cfg that] by (simp add: node_starts_def to_send_def)
  show "\<exists>n'. node_reacts cfg i n k m = Some (n', k, if even p
        then [(To (of_nat (unat (cc_leader cfg))), vote_for cfg (p div 2) i)] else []) \<and>
      node_follows cfg i n' \<and> slots_of n' = Suc p div 2"
    if "i \<in> live_seats cfg - {unat (cc_leader cfg)}" "node_follows cfg i n" "slots_of n = p div 2"
      "p < 2 * length (cc_workload cfg)" "m = entry (cc_workload cfg) p" for i n p m k
    unfolding that(5) by (rule follower_reacts [OF cfg that(1-4)])
  show "node_reacts cfg (unat (cc_leader cfg)) n (Suc e div 2) (vote_for cfg k src) = Some (n, Suc e div 2, [])"
    if "node_leads cfg e S n" "k \<noteq> e div 2" "2 * k < e" "even e \<longrightarrow> e = 2 * length (cc_workload cfg)" for e S n src k
    by (rule leader_ignores [OF cfg that])
  show "\<exists>n'. node_reacts cfg (unat (cc_leader cfg)) n (Suc k) (vote_for cfg k src) = Some (n', Suc k, []) \<and>
      node_leads cfg (2 * k + 1) (insert src S) n'"
    if "node_leads cfg (2 * k + 1) S n" "k < length (cc_workload cfg)" "src \<in> live_seats cfg"
      "\<not> crash_reached (card (insert src S)) (unat (cc_size cfg))" for k S n src
    using leader_counts [OF cfg that(1-3), of "unat (cc_leader cfg)"] that(4) by simp
  show "\<exists>n' k' m outs. node_reacts cfg (unat (cc_leader cfg)) n (Suc k) (vote_for cfg k src) =
      Some (n', k', (Peers, m) # outs) \<and> m = entry (cc_workload cfg) (2 * k + 1) \<and>
      opened (unat (cc_leader cfg)) (length (cc_workload cfg)) (node_leads cfg) (\<lambda>i m. m = entry (cc_workload cfg) i)
        (Suc k) (n', k', outs)"
    if "node_leads cfg (2 * k + 1) S n" "k < length (cc_workload cfg)" "src \<in> live_seats cfg"
      "crash_reached (card (insert src S)) (unat (cc_size cfg))" for k S n src
    using leader_counts [OF cfg that(1-3), of "unat (cc_leader cfg)"] that(4) by simp
  show "run_init cfg = \<lparr>rn_nodes = map ?new [0..<unat (cc_size cfg)],
      rn_boxes = map (\<lambda>i. if i \<in> live_seats cfg then Some [] else None) [0..<unat (cc_size cfg)],
      rn_next = replicate (unat (cc_size cfg)) 0, rn_started = replicate (unat (cc_size cfg)) False\<rparr>"
    by (simp add: run_init_def Let_def live_seats_def)
  show "start_task cfg s i = begun (node_starts cfg i) s i" "serve_task cfg s i = served (node_reacts cfg i) s i"
    if "length (rn_boxes s) = unat (cc_size cfg)" "i < unat (cc_size cfg)" for s i
    using start_task_begun [OF that D(2)] serve_task_served [OF that D(2)] by simp_all
qed (erule leading_slots, rule can_serve_iff, assumption, blast, auto simp: run_step.simps)

section \<open>Whole runs\<close>

text \<open>A replica's log is a prefix of the workload, and its store the fold of it.\<close>

lemma run_node:
  assumes "(run_step cfg ^^ n) (run_init cfg) s" "config_ok cfg" "i < unat (cc_size cfg)"
  shows "\<exists>m r. m \<le> length (cc_workload cfg) \<and> log (nd_view (rn_nodes s ! i)) = take m (cc_workload cfg) \<and>
    (\<not> crash_reached (card (live_seats cfg)) (unat (cc_size cfg)) \<longrightarrow> m = 0) \<and>
    replicas (nd_view (rn_nodes s ! i)) = [r] \<and> unat (applied r) = m \<and>
    store r = apply_prefix (cc_init cfg) (log (nd_view (rn_nodes s ! i)))"
proof -
  let ?n = "rn_nodes s ! i"
  from crash_run.run_nodes(3) [OF assms] consider
      "?n = node_new (of_nat i) (cc_size cfg) (cc_leader cfg) (cc_init cfg) (cc_budget cfg)"
    | "node_follows cfg i ?n \<or> (\<exists>e S. i = unat (cc_leader cfg) \<and> node_leads cfg e S ?n)"
      "slots_of ?n \<le> length (cc_workload cfg)"
      "\<not> crash_reached (card (live_seats cfg)) (unat (cc_size cfg)) \<longrightarrow> slots_of ?n = 0" by blast
  then have "view_ok (cc_init cfg) (nd_id ?n) (nd_view ?n) \<and> slots_of ?n \<le> length (cc_workload cfg) \<and>
      log (nd_view ?n) = take (slots_of ?n) (cc_workload cfg) \<and>
      (\<not> crash_reached (card (live_seats cfg)) (unat (cc_size cfg)) \<longrightarrow> slots_of ?n = 0)"
  proof cases
    case 1
    then show ?thesis by (simp add: node_new_def view_ok_def)
  next
    case 2
    then obtain j where "node_ok (cc_init cfg) (unat (cc_size cfg)) (unat (cc_leader cfg)) j ?n"
      "log (nd_view ?n) = take (slots_of ?n) (cc_workload cfg)"
      by (auto simp: node_follows_def leading_def)
    with node_ok_view [OF this(1)] 2(2,3) show ?thesis by blast
  qed
  then show ?thesis by (intro exI [of _ "slots_of ?n"]) (auto simp: view_ok_def)
qed

lemma views_log:
  assumes "(run_step cfg ^^ n) (run_init cfg) s" "config_ok cfg"
    "\<forall>i < unat (cc_size cfg). rn_started s ! i \<longrightarrow> log (nd_view (rn_nodes s ! i)) = lg"
  shows "converged (run_views s) = Some True"
    "lg = cc_workload cfg \<Longrightarrow> run_complete cfg s"
proof -
  have len: "length (rn_nodes s) = unat (cc_size cfg)"
    using crash_run.run_nodes(1) [OF assms(1,2)] configD(3) [OF assms(2)] by blast
  have view: "\<exists>r. replicas v = [r] \<and> unat (applied r) = length lg \<and> store r = apply_prefix (cc_init cfg) lg"
    if "v \<in> set (run_views s)" for v
  proof -
    from that len obtain i where i: "i < unat (cc_size cfg)" "rn_started s ! i" "v = nd_view (rn_nodes s ! i)"
      by (auto simp: run_views_def)
    with run_node [OF assms(1,2) i(1)] assms(3) show ?thesis by fastforce
  qed
  then show "converged (run_views s) = Some True" by (intro converged_iff) blast
  show "run_complete cfg s" if "lg = cc_workload cfg"
    using view that by (fastforce simp: run_complete_def list_all_iff applied_of_def)
qed

text \<open>Three replicas, the last of them crashed, and two commands.\<close>

definition demo_config :: cluster_config where
  "demo_config = \<lparr>cc_size = 3, cc_leader = 0, cc_init = Var 0,
     cc_workload = [\<lparr>payload = Lam Top (Var 0), cap = None\<rparr>, \<lparr>payload = Var 1, cap = None\<rparr>],
     cc_crashed = [2], cc_budget = fb_zero 1\<rparr>"

lemma demo_config_ok: "config_ok demo_config" "live_seats demo_config = {0, 1}"
proof -
  show "config_ok demo_config" by (simp add: config_ok_def demo_config_def)
  have "live_seats demo_config = set (filter (\<lambda>i. of_nat i \<notin> set (cc_crashed demo_config)) [0..<3])"
    unfolding live_seats_def set_filter set_upt by (rule Collect_cong) (simp add: demo_config_def)
  also have "[0..<3] = [0, 1, 2]" by (simp add: upt_rec)
  finally show "live_seats demo_config = {0, 1}" by (simp add: demo_config_def)
qed

section \<open>Properties\<close>

text \<open>A run ends, and no task panics on the way: with \<open>n\<close> replicas and \<open>w\<close> commands
  no interleaving has more than \<open>n (4 w + 1)\<close> steps.\<close>

theorem run_terminates:
  assumes "(run_step cfg ^^ n) (run_init cfg) s" "config_ok cfg"
  shows "n \<le> unat (cc_size cfg) * (4 * length (cc_workload cfg) + 1) \<and>
    (can_start s i \<longrightarrow> start_task cfg s i \<noteq> None) \<and> (can_serve cfg s i \<longrightarrow> serve_task cfg s i \<noteq> None)"
  using crash_run.run_bounded [OF assms] crash_run.run_progress [OF assms, of i] by blast

theorem run_terminates_witness:
  "(0 :: nat) \<le> 3 * (4 * 2 + 1) \<and> start_task demo_config (run_init demo_config) 0 \<noteq> None"
  using run_terminates [of 0 demo_config "run_init demo_config" 0] demo_config_ok(1)
  by (simp add: can_start_def run_init_def demo_config_def Let_def)

text \<open>C16: a run that has nothing left to do has done everything: when the leader and a majority are live,
  every live replica has committed the whole workload in order, the run is complete, and the
  replicas have converged.\<close>

theorem run_completes:
  assumes "(run_step cfg ^^ n) (run_init cfg) s" "config_ok cfg" "\<nexists>t. run_step cfg s t"
    "unat (cc_leader cfg) \<in> live_seats cfg" "unat (cc_size cfg) < 2 * card (live_seats cfg)"
  shows "(\<forall>i \<in> live_seats cfg. log (nd_view (rn_nodes s ! i)) = cc_workload cfg) \<and>
    run_complete cfg s \<and> converged (run_views s) = Some True"
proof -
  have fin: "rn_started s ! i \<and> log (nd_view (rn_nodes s ! i)) = cc_workload cfg" if "i \<in> live_seats cfg" for i
    using crash_run.run_settled [OF assms(1-4) _ that] assms(5) run_node [OF assms(1,2) configD(5) [OF assms(2) that]]
    by (auto simp: crash_reached_def)
  have "\<forall>i < unat (cc_size cfg). rn_started s ! i \<longrightarrow> log (nd_view (rn_nodes s ! i)) = cc_workload cfg"
    using fin crash_run.run_nodes(2) [OF assms(1,2)] by blast
  with fin views_log [OF assms(1,2) this] show ?thesis by auto
qed

theorem run_completes_witness:
  "\<exists>n s. (run_step demo_config ^^ n) (run_init demo_config) s \<and>
    log (nd_view (rn_nodes s ! 1)) = cc_workload demo_config \<and> run_complete demo_config s"
proof -
  from crash_run.run_settles [OF demo_config_ok(1)] obtain n s where
    s: "(run_step demo_config ^^ n) (run_init demo_config) s" "\<nexists>t. run_step demo_config s t" by blast
  have "unat (cc_leader demo_config) = 0" "unat (cc_size demo_config) = 3" by (simp_all add: demo_config_def)
  with run_completes [OF s(1) demo_config_ok(1) s(2)] s(1) show ?thesis
    by (auto simp: demo_config_ok(2))
qed

text \<open>At every moment of a run each log is a prefix of the workload, and when no majority is live
  nothing is ever committed: the run stalls with all stores as they began.\<close>

theorem run_is_safe:
  assumes "(run_step cfg ^^ n) (run_init cfg) s" "config_ok cfg" "i < unat (cc_size cfg)"
  shows "prefix (log (nd_view (rn_nodes s ! i))) (cc_workload cfg) \<and>
    (2 * card (live_seats cfg) \<le> unat (cc_size cfg) \<longrightarrow>
       log (nd_view (rn_nodes s ! i)) = [] \<and> converged (run_views s) = Some True)"
proof -
  have stall: "log (nd_view (rn_nodes s ! j)) = []"
    if "2 * card (live_seats cfg) \<le> unat (cc_size cfg)" "j < unat (cc_size cfg)" for j
    using run_node [OF assms(1,2) that(2)] that(1) by (auto simp: crash_reached_def)
  with run_node [OF assms] views_log(1) [OF assms(1,2), of "[]"] assms(3) show ?thesis
    by (auto simp: take_is_prefix)
qed

theorem run_is_safe_witness:
  "prefix (log (nd_view (rn_nodes (run_init demo_config) ! 2))) (cc_workload demo_config)"
  using run_is_safe [of 0 demo_config "run_init demo_config" 2] demo_config_ok(1) by (simp add: demo_config_def)

end
