(* ===== verification/Auth_Run.thy ===== *)
theory Auth_Run
  imports Cluster
begin

text \<open>
  The authenticated cluster as it runs (\<open>run_auth_cluster\<close> of \<open>crates/dlc-d-node/src/netauth.rs\<close>): one
  task per live replica, which owns its seat's seed; every message crosses its channel as the
  bytes of \<open>encode_msg\<close>, and a frame that does not decode is dropped.  The leader's commits carry
  certificates, in which the votes stand in the order in which they came.  \<open>Cluster\<close> says
  how a run ends; here the replicas are shown to keep its contract.
\<close>

section \<open>Tasks and channels\<close>

record auth_cluster_config =
  ac_seeds :: "bytes list"
  ac_roster :: roster
  ac_leader :: u32
  ac_init :: trm
  ac_workload :: "(command \<times> capability) list"
  ac_crashed :: "u32 list"
  ac_budget :: failure_budget

text \<open>\<open>None\<close> is a replica that is never built, or whose seed is not its seat's: its task panics.\<close>

type_synonym auth_state = "(auth_node option, bytes) run_state"

definition auth_run_init :: "ed25519_lib \<Rightarrow> auth_cluster_config \<Rightarrow> auth_state" where
  "auth_run_init L cfg = (let n = unat (of_nat (length (ac_seeds cfg)) :: u32) in
     \<lparr>rn_nodes = map (\<lambda>i. if of_nat i \<in> set (ac_crashed cfg) then None
        else auth_new L (ac_seeds cfg ! i) (ac_roster cfg) (of_nat i) (ac_leader cfg) (ac_init cfg) (ac_budget cfg)) [0..<n],
      rn_boxes = map (\<lambda>i. if of_nat i \<in> set (ac_crashed cfg) then None else Some []) [0..<n],
      rn_next = replicate n 0, rn_started = replicate n False\<rparr>)"

definition auth_start_task ::
    "ed25519_lib \<Rightarrow> (cbor \<Rightarrow> bytes) \<Rightarrow> auth_cluster_config \<Rightarrow> auth_state \<Rightarrow> nat \<Rightarrow> auth_state option" where
  "auth_start_task L cw cfg s i = (case rn_nodes s ! i of
     None \<Rightarrow> None
   | Some n \<Rightarrow> (case auth_drive L cw n 0 (ac_workload cfg) of
       None \<Rightarrow> None
     | Some (n1, k, outs) \<Rightarrow> Some \<lparr>rn_nodes = (rn_nodes s)[i := Some n1],
         rn_boxes = auth_dispatch cw (rn_boxes s) (of_nat i) outs,
         rn_next = (rn_next s)[i := k], rn_started = (rn_started s)[i := True]\<rparr>))"

definition auth_can_serve :: "auth_cluster_config \<Rightarrow> auth_state \<Rightarrow> nat \<Rightarrow> bool" where
  "auth_can_serve cfg s i \<longleftrightarrow> i < length (rn_boxes s) \<and> rn_started s ! i \<and>
     (case rn_nodes s ! i of
        Some n \<Rightarrow> (case applied_of (an_view n) of Some a \<Rightarrow> a < length (ac_workload cfg) | None \<Rightarrow> False)
      | None \<Rightarrow> False) \<and>
     (case rn_boxes s ! i of Some (frame # q) \<Rightarrow> True | _ \<Rightarrow> False)"

definition auth_serve_task ::
    "ed25519_lib \<Rightarrow> (cbor \<Rightarrow> bytes) \<Rightarrow> (bytes \<Rightarrow> string + cbor) \<Rightarrow> auth_cluster_config \<Rightarrow> auth_state \<Rightarrow> nat \<Rightarrow>
     auth_state option" where
  "auth_serve_task L cw cr cfg s i = (case rn_boxes s ! i of
     Some (frame # q) \<Rightarrow>
       (case rn_nodes s ! i of
          None \<Rightarrow> None
        | Some n \<Rightarrow>
            (case decode_msg cr frame of
               Inl CodecPanic \<Rightarrow> None
             | Inl (CodecError e) \<Rightarrow> Some (s\<lparr>rn_boxes := (rn_boxes s)[i := Some q]\<rparr>)
             | Inr m \<Rightarrow>
                 (case auth_handle L cw n m of
                    None \<Rightarrow> None
                  | Some (n1, outs1) \<Rightarrow>
                      (let boxes1 = auth_dispatch cw ((rn_boxes s)[i := Some q]) (of_nat i) outs1 in
                       case auth_drive L cw n1 (rn_next s ! i) (ac_workload cfg) of
                         None \<Rightarrow> None
                       | Some (n2, k, outs2) \<Rightarrow> Some \<lparr>rn_nodes = (rn_nodes s)[i := Some n2],
                           rn_boxes = auth_dispatch cw boxes1 (of_nat i) outs2,
                           rn_next = (rn_next s)[i := k], rn_started = rn_started s\<rparr>))))
   | _ \<Rightarrow> Some s)"

inductive auth_run_step ::
    "ed25519_lib \<Rightarrow> (cbor \<Rightarrow> bytes) \<Rightarrow> (bytes \<Rightarrow> string + cbor) \<Rightarrow> auth_cluster_config \<Rightarrow> auth_state \<Rightarrow> auth_state \<Rightarrow> bool"
  for L cw cr cfg where
  auth_begins: "can_start s i \<Longrightarrow> auth_start_task L cw cfg s i = Some t \<Longrightarrow> auth_run_step L cw cr cfg s t"
| auth_serves: "auth_can_serve cfg s i \<Longrightarrow> auth_serve_task L cw cr cfg s i = Some t \<Longrightarrow> auth_run_step L cw cr cfg s t"

text \<open>The views that the tasks have published.\<close>

definition auth_run_views :: "auth_state \<Rightarrow> global_config list" where
  "auth_run_views s = concat (map (\<lambda>i. case rn_nodes s ! i of Some n \<Rightarrow> if rn_started s ! i then [an_view n] else []
     | None \<Rightarrow> []) [0..<length (rn_nodes s)])"

definition auth_run_complete :: "auth_cluster_config \<Rightarrow> auth_state \<Rightarrow> bool" where
  "auth_run_complete cfg s \<longleftrightarrow> list_all (\<lambda>v. applied_of v = Some (length (ac_workload cfg))) (auth_run_views s)"

section \<open>The leader's ballot\<close>

text \<open>A valid vote adds its seat to the ballot, and a quorum of seats decides.\<close>

lemma seat_index:
  assumes "i < roster_len r" "members r ! i = k" "distinct (members r)" "roster_len r < 2 ^ 32"
  shows "\<exists>w. index_of r k = Some w \<and> unat w = i"
proof -
  from assms(1,2) have "k \<in> set (members r)" by (auto simp: roster_len_def)
  then obtain w where w: "index_of r k = Some w" using index_of_None [of r k] by (cases "index_of r k") auto
  from index_of_Some [OF this assms(4)] assms(1-3) have "unat w = i"
    by (auto simp: nth_eq_iff_index_eq roster_len_def)
  with w show ?thesis by blast
qed

lemma ballot_quorum:
  assumes "auth_inv L cw init n" "an_proposing n = Some (cmd, vs)"
  shows "auth_decided n cmd \<longleftrightarrow> roster_is_quorum (an_roster n) (card (voters (an_ballot n) cmd))"
proof -
  from assms have "length (an_ballot n) = roster_len (an_roster n)" "3 * roster_len (an_roster n) < 2 ^ 32"
    by (simp_all add: auth_inv_def ballot_ok_def)
  then show ?thesis
    by (cases "rquorum (an_roster n)")
      (simp_all add: auth_decided_def roster_is_quorum_def decided_iff byz_decided_iff quorum_reached_defs)
qed

lemma seat_voted:
  assumes "ballot_ok r bl cmd vs" "i < roster_len r"
  shows "voters (if bl ! i = None then bl[i := Some cmd] else bl) cmd = insert i (voters bl cmd)"
  using assms by (auto simp: ballot_ok_def voters_def nth_list_update split: if_splits)

lemma record_seat_vote:
  assumes inv: "auth_inv L cw init n" and fl: "an_proposing n = Some (cmd, vs)"
    and seat: "i < roster_len (an_roster n)" "members (an_roster n) ! i = voter v"
    and v: "verify_vote L cw v (auth_next_slot n) cmd (an_roster n)" and len: "length (log (an_view n)) + 1 < 2 ^ 32"
  shows "if roster_is_quorum (an_roster n) (card (insert i (voters (an_ballot n) cmd)))
    then \<exists>n' c. record_vote L cw n (auth_next_slot n) v = Some (n', [\<lparr>ao_dest = Peers, ao_msg = AuthCommit c\<rparr>]) \<and>
      verify_commit L cw c (an_roster n) \<and> c_slot c = auth_next_slot n \<and> c_cmd c = cmd \<and>
      auth_inv L cw init n' \<and> same_seat n n' \<and> log (an_view n') = log (an_view n) @ [cmd] \<and> an_proposing n' = None
    else \<exists>n' vs'. record_vote L cw n (auth_next_slot n) v = Some (n', []) \<and> auth_inv L cw init n' \<and> same_seat n n' \<and>
      an_view n' = an_view n \<and> an_proposing n' = Some (cmd, vs') \<and>
      voters (an_ballot n') cmd = insert i (voters (an_ballot n) cmd)"
proof -
  let ?r = "an_roster n"
  from inv fl have ok: "ballot_ok ?r (an_ballot n) cmd vs" and d: "distinct (members ?r)" "3 * roster_len ?r < 2 ^ 32"
    by (auto simp: auth_inv_def)
  then have blen: "length (an_ballot n) = roster_len ?r" by (simp add: ballot_ok_def)
  obtain w where w: "index_of ?r (voter v) = Some w" "unat w = i"
    using seat_index [OF seat d(1)] d(2) by auto
  define new where "new = (an_ballot n ! i = None)"
  define n1 where "n1 = n\<lparr>an_ballot := if new then (an_ballot n)[i := Some cmd] else an_ballot n,
    an_proposing := Some (cmd, if new then vs @ [v] else vs)\<rparr>"
  have n1: "n1 = (if new then n\<lparr>an_ballot := (an_ballot n)[i := Some cmd], an_proposing := Some (cmd, vs @ [v])\<rparr> else n)"
    "same_seat n n1" "an_view n1 = an_view n" "an_roster n1 = ?r" "auth_next_slot n1 = auth_next_slot n"
    "an_proposing n1 = Some (cmd, if new then vs @ [v] else vs)"
    using fl by (simp_all add: n1_def same_seat_def auth_next_slot_def)
  have inv1: "auth_inv L cw init n1"
    using inv fl ballot_ok_add [OF ok d(1) seat] v n1(5)
    by (auto simp: n1(1) new_def auth_inv_def auth_next_slot_def)
  have voted: "voters (an_ballot n1) cmd = insert i (voters (an_ballot n) cmd)"
    using seat_voted [OF ok seat(1)] by (simp add: n1_def new_def)
  have dec: "auth_decided n1 cmd \<longleftrightarrow> roster_is_quorum ?r (card (insert i (voters (an_ballot n) cmd)))"
    using ballot_quorum [OF inv1 n1(6)] by (simp add: voted n1(4))
  let ?vs = "if new then vs @ [v] else vs"
  let ?n2 = "n1\<lparr>an_proposing := None, an_ballot := replicate (roster_len ?r) None\<rparr>"
  let ?c = "\<lparr>c_slot = auth_next_slot n, c_cmd = cmd, c_qc = \<lparr>qc_votes = ?vs\<rparr>\<rparr>"
  have rv: "record_vote L cw n (auth_next_slot n) v = (if \<not> auth_decided n1 cmd then Some (n1, [])
      else map_option (\<lambda>n3. (n3, [\<lparr>ao_dest = Peers, ao_msg = AuthCommit ?c\<rparr>])) (auth_apply_commit ?n2 cmd))"
    using fl v w blen seat(1) by (cases new) (auto simp: record_vote_def Let_def n1(1) new_def)
  show ?thesis
  proof (cases "auth_decided n1 cmd")
    case True
    from decide_step [OF inv1 n1(6) True _ n1(5) [symmetric] refl refl, of "roster_len ?r"] len n1(3,4) obtain n3 where
      n3: "auth_apply_commit ?n2 cmd = Some n3" "auth_inv L cw init n3" "same_seat n1 n3" "verify_commit L cw ?c ?r"
      "log (an_view n3) = log (an_view n) @ [cmd]" by auto
    moreover have "an_proposing n3 = None" using n3(1) by (auto simp: auth_apply_commit_def)
    ultimately show ?thesis using True dec rv n1(2) by (auto simp: same_seat_def)
  next
    case False
    with dec rv inv1 n1 voted show ?thesis by auto
  qed
qed

section \<open>The contract of a cluster\<close>

text \<open>A configuration with the cryptography and the CBOR library that its replicas use.\<close>

record auth_env =
  ae_lib :: ed25519_lib
  ae_write :: "cbor \<Rightarrow> bytes"
  ae_read :: "bytes \<Rightarrow> string + cbor"
  ae_limit :: nat
  ae_cfg :: auth_cluster_config

definition auth_config_ok ::
    "ed25519_lib \<Rightarrow> (cbor \<Rightarrow> bytes) \<Rightarrow> (bytes \<Rightarrow> string + cbor) \<Rightarrow> nat \<Rightarrow> auth_cluster_config \<Rightarrow> bool" where
  "auth_config_ok L cw cr limit cfg \<longleftrightarrow> ed25519_ok L \<and> cbor_codec cw cr limit \<and> 4 \<le> limit \<and>
     distinct (members (ac_roster cfg)) \<and> roster_len (ac_roster cfg) = length (ac_seeds cfg) \<and>
     2 \<le> length (ac_seeds cfg) \<and> 3 * length (ac_seeds cfg) < 2 ^ 32 \<and>
     unat (ac_leader cfg) < length (ac_seeds cfg) \<and> length (ac_workload cfg) < 2 ^ 31 \<and>
     (\<forall>i < length (ac_seeds cfg). length (ac_seeds cfg ! i) = 32 \<and>
        members (ac_roster cfg) ! i = ed25519_public_key L (ac_seeds cfg ! i)) \<and>
     (\<forall>(cmd, c) \<in> set (ac_workload cfg). verify_capability L cw c cmd \<and> wf_command cmd \<and> shallow limit cmd)"

definition auth_live_seats :: "auth_cluster_config \<Rightarrow> nat set" where
  "auth_live_seats cfg = {i. i < length (ac_seeds cfg) \<and> of_nat i \<notin> set (ac_crashed cfg)}"

definition env_ok :: "auth_env \<Rightarrow> bool" where
  "env_ok x \<longleftrightarrow> auth_config_ok (ae_lib x) (ae_write x) (ae_read x) (ae_limit x) (ae_cfg x)"

abbreviation env_size :: "auth_env \<Rightarrow> nat" where
  "env_size x \<equiv> length (ac_seeds (ae_cfg x))"

abbreviation env_leader :: "auth_env \<Rightarrow> nat" where
  "env_leader x \<equiv> unat (ac_leader (ae_cfg x))"

abbreviation env_work :: "auth_env \<Rightarrow> nat" where
  "env_work x \<equiv> length (ac_workload (ae_cfg x))"

abbreviation env_live :: "auth_env \<Rightarrow> nat set" where
  "env_live x \<equiv> auth_live_seats (ae_cfg x)"

definition commands :: "auth_cluster_config \<Rightarrow> command list" where
  "commands cfg = map fst (ac_workload cfg)"

definition seat_ok :: "auth_env \<Rightarrow> nat \<Rightarrow> auth_node \<Rightarrow> bool" where
  "seat_ok x i n \<longleftrightarrow> an_seed n = ac_seeds (ae_cfg x) ! i \<and> an_roster n = ac_roster (ae_cfg x) \<and> an_idx n = of_nat i \<and>
     an_leader_idx n = ac_leader (ae_cfg x) \<and> auth_inv (ae_lib x) (ae_write x) (ac_init (ae_cfg x)) n"

definition auth_slots :: "auth_node option \<Rightarrow> nat" where
  "auth_slots a = (case a of Some n \<Rightarrow> length (log (an_view n)) | None \<Rightarrow> 0)"

definition auth_follows :: "auth_env \<Rightarrow> nat \<Rightarrow> auth_node option \<Rightarrow> bool" where
  "auth_follows x i a \<longleftrightarrow> (\<exists>n. a = Some n \<and> seat_ok x i n \<and> an_proposing n = None \<and>
     log (an_view n) = take (length (log (an_view n))) (commands (ae_cfg x)))"

definition auth_leads :: "auth_env \<Rightarrow> nat \<Rightarrow> nat set \<Rightarrow> auth_node option \<Rightarrow> bool" where
  "auth_leads x e S a \<longleftrightarrow> (\<exists>n. a = Some n \<and> seat_ok x (env_leader x) n \<and> e \<le> 2 * env_work x \<and>
     log (an_view n) = take (e div 2) (commands (ae_cfg x)) \<and>
     (if even e then an_proposing n = None
      else voters (an_ballot n) (commands (ae_cfg x) ! (e div 2)) = S \<and>
        (\<exists>vs. an_proposing n = Some (commands (ae_cfg x) ! (e div 2), vs))))"

text \<open>The stream of the leader: of a commit only what it certifies is fixed.\<close>

definition auth_entry :: "auth_env \<Rightarrow> nat \<Rightarrow> bytes \<Rightarrow> bool" where
  "auth_entry x p m \<longleftrightarrow> (if even p
     then m = encode_msg (ae_write x) (AuthPropose (propose (ae_lib x) (ae_write x) (ac_seeds (ae_cfg x) ! env_leader x)
       (of_nat (p div 2)) (commands (ae_cfg x) ! (p div 2)) (snd (ac_workload (ae_cfg x) ! (p div 2)))))
     else \<exists>c. m = encode_msg (ae_write x) (AuthCommit c) \<and> verify_commit (ae_lib x) (ae_write x) c (ac_roster (ae_cfg x)) \<and>
       c_slot c = of_nat (p div 2) \<and> c_cmd c = commands (ae_cfg x) ! (p div 2))"

definition seat_vote :: "auth_env \<Rightarrow> nat \<Rightarrow> nat \<Rightarrow> vote" where
  "seat_vote x k i = cast_vote (ae_lib x) (ae_write x) (ac_seeds (ae_cfg x) ! i) (of_nat k) (commands (ae_cfg x) ! k)"

definition auth_vote :: "auth_env \<Rightarrow> nat \<Rightarrow> nat \<Rightarrow> bytes" where
  "auth_vote x k i = encode_msg (ae_write x) (AuthVote (seat_vote x k i))"

definition auth_to_send :: "auth_env \<Rightarrow> auth_out list \<Rightarrow> (dest \<times> bytes) list" where
  "auth_to_send x outs = map (\<lambda>out. (ao_dest out, encode_msg (ae_write x) (ao_msg out))) outs"

definition auth_starts :: "auth_env \<Rightarrow> nat \<Rightarrow> auth_node option \<Rightarrow> (auth_node option, bytes) reaction option" where
  "auth_starts x i a = (case a of None \<Rightarrow> None
   | Some n \<Rightarrow> map_option (\<lambda>(n, k, outs). (Some n, k, auth_to_send x outs))
       (auth_drive (ae_lib x) (ae_write x) n 0 (ac_workload (ae_cfg x))))"

definition auth_reacts :: "auth_env \<Rightarrow> nat \<Rightarrow> auth_node option \<Rightarrow> nat \<Rightarrow> bytes \<Rightarrow> (auth_node option, bytes) reaction option" where
  "auth_reacts x i a k frame = (case a of None \<Rightarrow> None
   | Some n \<Rightarrow> (case decode_msg (ae_read x) frame of
       Inl CodecPanic \<Rightarrow> None
     | Inl (CodecError e) \<Rightarrow> Some (Some n, k, [])
     | Inr m \<Rightarrow> (case auth_handle (ae_lib x) (ae_write x) n m of None \<Rightarrow> None
       | Some (n1, outs1) \<Rightarrow> map_option (\<lambda>(n2, k2, outs2). (Some n2, k2, auth_to_send x (outs1 @ outs2)))
           (auth_drive (ae_lib x) (ae_write x) n1 k (ac_workload (ae_cfg x))))))"

lemma envD:
  assumes "env_ok x"
  shows "ed25519_ok (ae_lib x)" "cbor_codec (ae_write x) (ae_read x) (ae_limit x)" "4 \<le> ae_limit x"
    "distinct (members (ac_roster (ae_cfg x)))" "roster_len (ac_roster (ae_cfg x)) = env_size x"
    "2 \<le> env_size x" "3 * env_size x < 2 ^ 32" "env_leader x < env_size x" "env_work x < 2 ^ 31"
    "i < env_size x \<Longrightarrow> length (ac_seeds (ae_cfg x) ! i) = 32"
    "i < env_size x \<Longrightarrow> members (ac_roster (ae_cfg x)) ! i = ed25519_public_key (ae_lib x) (ac_seeds (ae_cfg x) ! i)"
    "k < env_work x \<Longrightarrow> verify_capability (ae_lib x) (ae_write x) (snd (ac_workload (ae_cfg x) ! k)) (commands (ae_cfg x) ! k)"
    "k < env_work x \<Longrightarrow> wf_command (commands (ae_cfg x) ! k) \<and> shallow (ae_limit x) (commands (ae_cfg x) ! k)"
    "i \<in> env_live x \<Longrightarrow> i < env_size x" "length (commands (ae_cfg x)) = env_work x"
proof -
  show "verify_capability (ae_lib x) (ae_write x) (snd (ac_workload (ae_cfg x) ! k)) (commands (ae_cfg x) ! k)"
    "wf_command (commands (ae_cfg x) ! k) \<and> shallow (ae_limit x) (commands (ae_cfg x) ! k)" if "k < env_work x"
    using assms nth_mem [OF that] that by (auto simp: env_ok_def auth_config_ok_def commands_def split_beta)
qed (use assms in \<open>auto simp: env_ok_def auth_config_ok_def auth_live_seats_def commands_def\<close>)

text \<open>Votes of live seats verify, are well formed, and name their slot and their seat.\<close>

lemma verified_lengths: "ed25519_verify L pk m sg = Inr () \<Longrightarrow> length pk = 32 \<and> length sg = 64"
  by (auto simp: ed25519_verify_def split: if_splits)

lemma verified_vote_wf: "verify_vote L cw v slot cmd r \<Longrightarrow> wf_vote v"
  by (auto simp: verify_vote_def wf_vote_def dest: verified_lengths)

lemma seat_member:
  assumes "env_ok x" "i < env_size x"
  shows "ed25519_public_key (ae_lib x) (ac_seeds (ae_cfg x) ! i) \<in> set (members (ac_roster (ae_cfg x)))"
  using envD(5,11) [OF assms(1)] assms(2) nth_mem [of i "members (ac_roster (ae_cfg x))"] by (simp add: roster_len_def)

lemma seat_vote_ok:
  assumes "env_ok x" "i < env_size x"
  shows "verify_vote (ae_lib x) (ae_write x) (seat_vote x k i) (of_nat k) (commands (ae_cfg x) ! k) (ac_roster (ae_cfg x))"
    "members (ac_roster (ae_cfg x)) ! i = voter (seat_vote x k i)" "v_slot (seat_vote x k i) = of_nat k"
  using envD(1,10,11) [OF assms(1)] seat_member [OF assms] assms(2)
  by (simp_all add: seat_vote_def cast_vote_def verify_vote_def ed25519_sign_verify)

lemma decode_vote:
  assumes "env_ok x" "i < env_size x"
  shows "decode_msg (ae_read x) (auth_vote x k i) = Inr (AuthVote (seat_vote x k i))"
proof -
  have "wf_vote (seat_vote x k i)"
    by (rule verified_vote_wf [OF seat_vote_ok(1) [OF assms]])
  then show ?thesis
    unfolding auth_vote_def by (intro decode_encoded_msg [OF envD(2,3) [OF assms(1)]]) (simp add: wf_msg_def)
qed

lemma auth_vote_inj:
  assumes "env_ok x" "k < env_work x" "t < env_work x" "i \<in> env_live x" "j \<in> env_live x"
    "auth_vote x k i = auth_vote x t j"
  shows "k = t \<and> i = j"
proof -
  note D = envD [OF assms(1)]
  have ij: "i < env_size x" "j < env_size x" using D(14) assms(4,5) by auto
  from decode_vote [OF assms(1) ij(1), of k] decode_vote [OF assms(1) ij(2), of t] assms(6)
  have eq: "seat_vote x k i = seat_vote x t j" by simp
  then have "(of_nat k :: u32) = of_nat t" using seat_vote_ok(3) [OF assms(1)] ij by metis
  moreover have "k < 2 ^ 31" "t < 2 ^ 31" using D(9) assms(2,3) by simp_all
  ultimately have "k = t" by (metis unat_u32_small)
  moreover have "members (ac_roster (ae_cfg x)) ! i = members (ac_roster (ae_cfg x)) ! j"
    using seat_vote_ok(2) [OF assms(1)] ij eq by metis
  then have "i = j" using D(4,5) ij by (simp add: nth_eq_iff_index_eq roster_len_def)
  ultimately show ?thesis by blast
qed

text \<open>The leader's own messages decode, too.\<close>

lemma decode_commit:
  assumes "env_ok x" "verify_commit (ae_lib x) (ae_write x) c (ac_roster (ae_cfg x))"
    "c_cmd c = commands (ae_cfg x) ! k" "k < env_work x"
  shows "decode_msg (ae_read x) (encode_msg (ae_write x) (AuthCommit c)) = Inr (AuthCommit c)"
proof (rule decode_encoded_msg [OF envD(2,3) [OF assms(1)]])
  show "wf_msg (ae_limit x) (AuthCommit c)"
    using envD(13) [OF assms(1,4)] assms(2,3)
    by (auto simp: wf_msg_def verify_commit_def verify_qc_char dest: verified_vote_wf)
qed

definition the_proposal :: "auth_env \<Rightarrow> nat \<Rightarrow> proposal" where
  "the_proposal x k = propose (ae_lib x) (ae_write x) (ac_seeds (ae_cfg x) ! env_leader x) (of_nat k)
     (commands (ae_cfg x) ! k) (snd (ac_workload (ae_cfg x) ! k))"

lemma proposal_ok:
  assumes "env_ok x" "k < env_work x"
  shows "verify_proposal (ae_lib x) (ae_write x) (the_proposal x k) (ac_roster (ae_cfg x))"
    "p_slot (the_proposal x k) = of_nat k" "p_cmd (the_proposal x k) = commands (ae_cfg x) ! k"
    "decode_msg (ae_read x) (encode_msg (ae_write x) (AuthPropose (the_proposal x k))) = Inr (AuthPropose (the_proposal x k))"
proof -
  note D = envD [OF assms(1)]
  have sig: "ed25519_verify (ae_lib x) (leader (the_proposal x k)) (propose_msg (ae_write x) (of_nat k) (commands (ae_cfg x) ! k))
      (p_sig (the_proposal x k)) = Inr ()"
    using ed25519_sign_verify [OF D(1) D(10) [OF D(8)]] by (simp add: the_proposal_def propose_def)
  then show "verify_proposal (ae_lib x) (ae_write x) (the_proposal x k) (ac_roster (ae_cfg x))"
    using seat_member [OF assms(1) D(8)] D(12) [OF assms(2)]
    by (simp add: verify_proposal_def the_proposal_def propose_def)
  show "p_slot (the_proposal x k) = of_nat k" "p_cmd (the_proposal x k) = commands (ae_cfg x) ! k"
    by (simp_all add: the_proposal_def propose_def)
  have "wf_cap (snd (ac_workload (ae_cfg x) ! k))"
    using verified_lengths D(12) [OF assms(2)] by (auto simp: verify_capability_def wf_cap_def)
  then have "wf_msg (ae_limit x) (AuthPropose (the_proposal x k))"
    using verified_lengths [OF sig] D(13) [OF assms(2)] by (simp add: wf_msg_def the_proposal_def propose_def)
  from decode_encoded_msg [OF D(2,3) this]
  show "decode_msg (ae_read x) (encode_msg (ae_write x) (AuthPropose (the_proposal x k))) = Inr (AuthPropose (the_proposal x k))" .
qed

section \<open>What the replicas do\<close>

lemma seat_view:
  assumes "seat_ok x i n"
  shows "view_ok (ac_init (ae_cfg x)) (an_idx n) (an_view n)" "applied_of (an_view n) = Some (length (log (an_view n)))"
  using assms applied_of_ok by (auto simp: seat_ok_def auth_inv_def)

lemma seat_ok_same: "seat_ok x i n \<Longrightarrow> same_seat n n' \<Longrightarrow> auth_inv (ae_lib x) (ae_write x) (ac_init (ae_cfg x)) n' \<Longrightarrow> seat_ok x i n'"
  by (simp add: seat_ok_def same_seat_def)

lemma seat_leader:
  assumes "env_ok x" "seat_ok x i n" "i < env_size x"
  shows "auth_is_leader n \<longleftrightarrow> i = env_leader x"
proof -
  have "i < 2 ^ 31" using assms(3) envD(7) [OF assms(1)] by simp
  then have "unat (of_nat i :: u32) = i" by (rule unat_u32_small)
  then have "(of_nat i :: u32) = ac_leader (ae_cfg x) \<longleftrightarrow> i = env_leader x" by auto
  with assms(2) show ?thesis by (simp add: seat_ok_def auth_is_leader_def)
qed

lemma auth_drive_stays:
  "\<not> (auth_is_leader n \<and> k < length wl \<and> length (log (an_view n)) = k) \<Longrightarrow> auth_drive L cw n k wl = Some (n, k, [])"
  by (subst auth_drive.simps) auto

lemma auth_follower_drives:
  assumes "env_ok x" "i \<in> env_live x - {env_leader x}" "seat_ok x i n"
  shows "auth_drive L cw n k wl = Some (n, k, [])"
  using seat_leader [OF assms(1,3)] envD(14) [OF assms(1)] assms(2) by (intro auth_drive_stays) auto

lemma auth_follower_reacts:
  assumes "env_ok x" "i \<in> env_live x - {env_leader x}" "auth_follows x i a" "auth_slots a = p div 2"
    "p < 2 * env_work x" "auth_entry x p m"
  shows "\<exists>b. auth_reacts x i a k m =
      Some (b, k, if even p then [(To (of_nat (env_leader x)), auth_vote x (p div 2) i)] else []) \<and>
    auth_follows x i b \<and> auth_slots b = Suc p div 2"
proof -
  note D = envD [OF assms(1)]
  from assms(3,4) obtain n where n: "a = Some n" "seat_ok x i n" "an_proposing n = None"
    "log (an_view n) = take (p div 2) (commands (ae_cfg x))" "length (log (an_view n)) = p div 2"
    by (auto simp: auth_follows_def auth_slots_def)
  have k: "p div 2 < env_work x" "Suc p div 2 \<le> env_work x" using assms(5) by presburger+
  have slot: "auth_next_slot n = of_nat (p div 2)" by (simp add: auth_next_slot_def next_slot_def n(5))
  have seat: "an_seed n = ac_seeds (ae_cfg x) ! i" "an_roster n = ac_roster (ae_cfg x)"
    "an_leader_idx n = ac_leader (ae_cfg x)" using n(2) by (simp_all add: seat_ok_def)
  show ?thesis
  proof (cases "even p")
    case True
    note P = proposal_ok [OF assms(1) k(1)]
    have m: "m = encode_msg (ae_write x) (AuthPropose (the_proposal x (p div 2)))"
      using assms(6) True by (simp add: auth_entry_def the_proposal_def)
    have "auth_handle (ae_lib x) (ae_write x) n (AuthPropose (the_proposal x (p div 2))) =
        Some (n, [\<lparr>ao_dest = To (ac_leader (ae_cfg x)), ao_msg = AuthVote (seat_vote x (p div 2) i)\<rparr>])"
      using follower_votes [of "the_proposal x (p div 2)" n] P(1-3) slot seat by (simp add: seat_vote_def)
    then have "auth_reacts x i a k m = Some (Some n, k, [(To (ac_leader (ae_cfg x)), auth_vote x (p div 2) i)])"
      using n(1) P(4) auth_follower_drives [OF assms(1,2) n(2)]
      by (simp add: auth_reacts_def m auth_to_send_def auth_vote_def)
    with assms(3,4) n(1) True show ?thesis by simp
  next
    case False
    with assms(6) obtain c where c: "m = encode_msg (ae_write x) (AuthCommit c)"
      "verify_commit (ae_lib x) (ae_write x) c (ac_roster (ae_cfg x))" "c_slot c = of_nat (p div 2)"
      "c_cmd c = commands (ae_cfg x) ! (p div 2)" by (auto simp: auth_entry_def)
    have len: "length (log (an_view n)) + 1 < 2 ^ 32" using n(5) k(1) D(9) by simp
    from auth_apply_commit_ok [OF seat_view(1) [OF n(2)] len, of "c_cmd c"] obtain w where
      w: "auth_apply_commit n (c_cmd c) = Some (n\<lparr>an_view := w\<rparr>)" "view_ok (ac_init (ae_cfg x)) (an_idx n) w"
      "log w = log (an_view n) @ [c_cmd c]" by blast
    let ?n = "n\<lparr>an_view := w\<rparr>"
    have ok: "seat_ok x i ?n" using n(2,3) w(2) by (auto simp: seat_ok_def auth_inv_def)
    have "auth_handle (ae_lib x) (ae_write x) n (AuthCommit c) = Some (?n, [])"
      using c(2,3) slot seat(2) w(1) by (simp add: auth_handle_def)
    then have "auth_reacts x i a k m = Some (Some ?n, k, [])"
      using n(1) decode_commit [OF assms(1) c(2,4) k(1)] auth_follower_drives [OF assms(1,2) ok]
      by (simp add: auth_reacts_def c(1) auth_to_send_def)
    moreover have "log w = take (Suc p div 2) (commands (ae_cfg x))" "length (log w) = Suc p div 2"
      using False n(4,5) w(3) c(4) k(1) D(15) by (simp_all add: take_Suc_conv_app_nth)
    ultimately show ?thesis
      using False ok n(3) by (auto simp: auth_follows_def auth_slots_def)
  qed
qed

lemma lone_seat: "2 \<le> roster_len r \<Longrightarrow> \<not> roster_is_quorum r 1"
  by (cases "rquorum r") (simp_all add: roster_is_quorum_def quorum_reached_def)

lemma more_seats: "roster_is_quorum r a \<Longrightarrow> a \<le> b \<Longrightarrow> roster_is_quorum r b"
  by (cases "rquorum r") (simp_all add: roster_is_quorum_def quorum_reached_def)

text \<open>A leader proposes: its own vote is in its ballot, and decides nothing.\<close>

lemma leader_submits:
  assumes "env_ok x" "seat_ok x (env_leader x) n" "an_proposing n = None" "log (an_view n) = take k (commands (ae_cfg x))"
    "k < env_work x"
  shows "\<exists>n' vs. auth_submit (ae_lib x) (ae_write x) n (commands (ae_cfg x) ! k) (snd (ac_workload (ae_cfg x) ! k)) =
      Some (n', [\<lparr>ao_dest = Peers, ao_msg = AuthPropose (the_proposal x k)\<rparr>]) \<and>
    seat_ok x (env_leader x) n' \<and> an_view n' = an_view n \<and> an_proposing n' = Some (commands (ae_cfg x) ! k, vs) \<and>
    voters (an_ballot n') (commands (ae_cfg x) ! k) = {env_leader x}"
proof -
  note D = envD [OF assms(1)]
  let ?cmd = "commands (ae_cfg x) ! k" and ?r = "ac_roster (ae_cfg x)"
  define n1 where "n1 = n\<lparr>an_ballot := replicate (roster_len (an_roster n)) None, an_proposing := Some (?cmd, [])\<rparr>"
  have seat: "an_seed n = ac_seeds (ae_cfg x) ! env_leader x" "an_roster n1 = ?r"
    using assms(2) by (simp_all add: seat_ok_def n1_def)
  have len: "length (log (an_view n)) = k" using assms(4,5) D(15) by simp
  have slot: "auth_next_slot n = of_nat k" "auth_next_slot n1 = of_nat k"
    by (simp_all add: auth_next_slot_def next_slot_def len n1_def)
  have ok1: "seat_ok x (env_leader x) n1"
    using assms(2) by (auto simp: seat_ok_def n1_def auth_inv_def ballot_ok_empty)
  then have inv1: "auth_inv (ae_lib x) (ae_write x) (ac_init (ae_cfg x)) n1" by (simp add: seat_ok_def)
  have fl: "an_proposing n1 = Some (?cmd, [])" by (simp add: n1_def)
  have none: "voters (an_ballot n1) ?cmd = {}" by (auto simp: n1_def voters_def)
  note V = seat_vote_ok [OF assms(1) D(8), of k]
  have "\<not> roster_is_quorum ?r (card (insert (env_leader x) (voters (an_ballot n1) ?cmd)))"
    using lone_seat [of ?r] D(5,6) by (simp add: none)
  then obtain n' vs where n': "record_vote (ae_lib x) (ae_write x) n1 (of_nat k) (seat_vote x k (env_leader x)) = Some (n', [])"
    "auth_inv (ae_lib x) (ae_write x) (ac_init (ae_cfg x)) n'" "same_seat n1 n'" "an_view n' = an_view n1"
    "an_proposing n' = Some (?cmd, vs)" "voters (an_ballot n') ?cmd = {env_leader x}"
    using record_seat_vote [OF inv1 fl, of "env_leader x" "seat_vote x k (env_leader x)"] seat(2) V D(5,8,9) assms(5) len
    by (auto simp: slot none n1_def [THEN arg_cong [of _ _ an_view]])
  have "auth_submit (ae_lib x) (ae_write x) n ?cmd (snd (ac_workload (ae_cfg x) ! k)) =
      Some (n', [\<lparr>ao_dest = Peers, ao_msg = AuthPropose (the_proposal x k)\<rparr>])"
    using seat_leader [OF assms(1,2) D(8)] assms(3) D(12) [OF assms(5)] n'(1)
    by (simp add: auth_submit_def Let_def slot seat(1) n1_def seat_vote_def the_proposal_def)
  moreover have "an_view n1 = an_view n" by (simp add: n1_def)
  ultimately show ?thesis using n' seat_ok_same [OF ok1 n'(3,2)] by auto
qed

lemma auth_leader_opens:
  assumes "env_ok x" "seat_ok x (env_leader x) n" "an_proposing n = None" "log (an_view n) = take k (commands (ae_cfg x))"
    "k \<le> env_work x"
  shows "\<exists>n' k' outs. auth_drive (ae_lib x) (ae_write x) n k (ac_workload (ae_cfg x)) = Some (n', k', outs) \<and>
    opened (env_leader x) (env_work x) (auth_leads x) (auth_entry x) k (Some n', k', auth_to_send x outs)"
proof (cases "k < env_work x")
  case False
  then have "auth_drive (ae_lib x) (ae_write x) n k (ac_workload (ae_cfg x)) = Some (n, k, [])"
    by (intro auth_drive_stays) simp
  with False assms(2-5) show ?thesis by (simp add: opened_def auth_leads_def auth_to_send_def)
next
  case True
  note D = envD [OF assms(1)]
  let ?cmd = "commands (ae_cfg x) ! k"
  have len: "length (log (an_view n)) = k" using assms(4) True D(15) by simp
  from leader_submits [OF assms(1-4) True] obtain n' vs where
    n': "auth_submit (ae_lib x) (ae_write x) n ?cmd (snd (ac_workload (ae_cfg x) ! k)) =
      Some (n', [\<lparr>ao_dest = Peers, ao_msg = AuthPropose (the_proposal x k)\<rparr>])" "seat_ok x (env_leader x) n'"
    "an_view n' = an_view n" "an_proposing n' = Some (?cmd, vs)" "voters (an_ballot n') ?cmd = {env_leader x}" by blast
  have "auth_drive (ae_lib x) (ae_write x) n' (Suc k) (ac_workload (ae_cfg x)) = Some (n', Suc k, [])"
    using n'(3) len by (intro auth_drive_stays) simp
  moreover have "ac_workload (ae_cfg x) ! k = (?cmd, snd (ac_workload (ae_cfg x) ! k))"
    using True by (simp add: commands_def)
  ultimately have "auth_drive (ae_lib x) (ae_write x) n k (ac_workload (ae_cfg x)) =
      Some (n', Suc k, [\<lparr>ao_dest = Peers, ao_msg = AuthPropose (the_proposal x k)\<rparr>])"
    using seat_leader [OF assms(1,2) D(8)] seat_view(2) [OF assms(2)] True len n'(1)
    by (subst auth_drive.simps) (auto split: prod.split)
  moreover have "auth_leads x (2 * k + 1) {env_leader x} (Some n')"
    using n'(2-5) assms(4) True by (auto simp: auth_leads_def)
  ultimately show ?thesis
    using True by (simp add: opened_def auth_to_send_def auth_entry_def the_proposal_def)
qed

text \<open>A vote for a slot that is past, or that nobody proposes, does not verify for the slot at hand.\<close>

lemma auth_leader_ignores:
  assumes "env_ok x" "auth_leads x e S a" "src \<in> env_live x" "k \<noteq> e div 2" "2 * k < e" "even e \<longrightarrow> e = 2 * env_work x"
  shows "auth_reacts x i a (Suc e div 2) (auth_vote x k src) = Some (a, Suc e div 2, [])"
proof -
  note D = envD [OF assms(1)]
  from assms(2) obtain n where n: "a = Some n" "seat_ok x (env_leader x) n" "e \<le> 2 * env_work x"
    "log (an_view n) = take (e div 2) (commands (ae_cfg x))" by (auto simp: auth_leads_def)
  then have len: "length (log (an_view n)) = e div 2" using D(15) by simp
  have src: "src < env_size x" by (rule D(14) [OF assms(3)])
  have small: "k < 2 ^ 31" "e div 2 < 2 ^ 31" using assms(5) n(3) D(9) by linarith+
  with assms(4) have "(of_nat (e div 2) :: u32) \<noteq> of_nat k" by (metis unat_u32_small)
  then have "v_slot (seat_vote x k src) \<noteq> auth_next_slot n"
    using seat_vote_ok(3) [OF assms(1) src] by (simp add: auth_next_slot_def next_slot_def len)
  then have "auth_handle (ae_lib x) (ae_write x) n (AuthVote (seat_vote x k src)) = Some (n, [])"
    by (auto simp: auth_handle_def record_vote_def verify_vote_def Let_def split: option.splits)
  moreover have "auth_drive (ae_lib x) (ae_write x) n (Suc e div 2) (ac_workload (ae_cfg x)) = Some (n, Suc e div 2, [])"
    using len assms(6) by (intro auth_drive_stays) (cases "even e"; auto)
  ultimately show ?thesis
    using decode_vote [OF assms(1) src] by (simp add: auth_reacts_def n(1) auth_to_send_def)
qed

lemma auth_leader_counts:
  assumes "env_ok x" "auth_leads x (2 * k + 1) S a" "k < env_work x" "src \<in> env_live x"
  shows "if roster_is_quorum (ac_roster (ae_cfg x)) (card (insert src S))
    then \<exists>b k' m outs. auth_reacts x i a (Suc k) (auth_vote x k src) = Some (b, k', (Peers, m) # outs) \<and>
      auth_entry x (2 * k + 1) m \<and> opened (env_leader x) (env_work x) (auth_leads x) (auth_entry x) (Suc k) (b, k', outs)
    else \<exists>b. auth_reacts x i a (Suc k) (auth_vote x k src) = Some (b, Suc k, []) \<and> auth_leads x (2 * k + 1) (insert src S) b"
proof -
  note D = envD [OF assms(1)]
  let ?cmd = "commands (ae_cfg x) ! k" and ?r = "ac_roster (ae_cfg x)" and ?v = "seat_vote x k src"
  from assms(2) obtain n vs where n: "a = Some n" "seat_ok x (env_leader x) n"
    "log (an_view n) = take k (commands (ae_cfg x))" "voters (an_ballot n) ?cmd = S" "an_proposing n = Some (?cmd, vs)"
    by (auto simp: auth_leads_def)
  have len: "length (log (an_view n)) = k" using n(3) D(15) assms(3) by simp
  have src: "src < env_size x" by (rule D(14) [OF assms(4)])
  note V = seat_vote_ok [OF assms(1) src, of k]
  have slot: "auth_next_slot n = of_nat k" by (simp add: auth_next_slot_def next_slot_def len)
  have seat: "an_roster n = ?r" "auth_inv (ae_lib x) (ae_write x) (ac_init (ae_cfg x)) n" using n(2) by (simp_all add: seat_ok_def)
  have hv: "auth_handle (ae_lib x) (ae_write x) n (AuthVote ?v) = record_vote (ae_lib x) (ae_write x) n (auth_next_slot n) ?v"
    using seat_leader [OF assms(1) n(2) D(8)] by (simp add: auth_handle_def Let_def)
  have react: "auth_reacts x i a (Suc k) (auth_vote x k src) =
      (case record_vote (ae_lib x) (ae_write x) n (auth_next_slot n) ?v of None \<Rightarrow> None
       | Some (n1, outs1) \<Rightarrow> map_option (\<lambda>(n2, k2, outs2). (Some n2, k2, auth_to_send x (outs1 @ outs2)))
           (auth_drive (ae_lib x) (ae_write x) n1 (Suc k) (ac_workload (ae_cfg x))))"
    using decode_vote [OF assms(1) src] hv by (simp add: auth_reacts_def n(1))
  have small: "length (log (an_view n)) + 1 < 2 ^ 32" using len assms(3) D(9) by simp
  note R = record_seat_vote [OF seat(2) n(5) _ _ _ small, of src ?v, unfolded seat(1) slot n(4), OF _ V(2,1)]
  show ?thesis
  proof (cases "roster_is_quorum ?r (card (insert src S))")
    case True
    with R D(5) src obtain n1 c where n1: "record_vote (ae_lib x) (ae_write x) n (of_nat k) ?v =
        Some (n1, [\<lparr>ao_dest = Peers, ao_msg = AuthCommit c\<rparr>])" "verify_commit (ae_lib x) (ae_write x) c ?r"
      "c_slot c = of_nat k" "c_cmd c = ?cmd" "auth_inv (ae_lib x) (ae_write x) (ac_init (ae_cfg x)) n1" "same_seat n n1"
      "log (an_view n1) = log (an_view n) @ [?cmd]" "an_proposing n1 = None" by auto
    have "log (an_view n1) = take (Suc k) (commands (ae_cfg x))"
      using n1(7) n(3) assms(3) D(15) by (simp add: take_Suc_conv_app_nth)
    from auth_leader_opens [OF assms(1) seat_ok_same [OF n(2) n1(6,5)] n1(8) this] assms(3) obtain n2 k' outs where
      "auth_drive (ae_lib x) (ae_write x) n1 (Suc k) (ac_workload (ae_cfg x)) = Some (n2, k', outs)"
      "opened (env_leader x) (env_work x) (auth_leads x) (auth_entry x) (Suc k) (Some n2, k', auth_to_send x outs)" by auto
    with True n1(1-4) show ?thesis unfolding react slot
      by (auto simp: auth_to_send_def auth_entry_def)
  next
    case False
    with R D(5) src obtain n1 vs' where n1: "record_vote (ae_lib x) (ae_write x) n (of_nat k) ?v = Some (n1, [])"
      "auth_inv (ae_lib x) (ae_write x) (ac_init (ae_cfg x)) n1" "same_seat n n1" "an_view n1 = an_view n"
      "an_proposing n1 = Some (?cmd, vs')" "voters (an_ballot n1) ?cmd = insert src S" by auto
    have "auth_drive (ae_lib x) (ae_write x) n1 (Suc k) (ac_workload (ae_cfg x)) = Some (n1, Suc k, [])"
      using n1(4) len by (intro auth_drive_stays) simp
    moreover have "auth_leads x (2 * k + 1) (insert src S) (Some n1)"
      using seat_ok_same [OF n(2) n1(3,2)] n1(4-6) n(3) assms(3) by (auto simp: auth_leads_def)
    ultimately show ?thesis using False n1(1) unfolding react slot
      by (simp add: auth_to_send_def)
  qed
qed

text \<open>The model of the code in the terms of the contract.\<close>

definition auth_fresh :: "auth_env \<Rightarrow> nat \<Rightarrow> auth_node option" where
  "auth_fresh x i = (if of_nat i \<in> set (ac_crashed (ae_cfg x)) then None
     else auth_new (ae_lib x) (ac_seeds (ae_cfg x) ! i) (ac_roster (ae_cfg x)) (of_nat i) (ac_leader (ae_cfg x))
       (ac_init (ae_cfg x)) (ac_budget (ae_cfg x)))"

lemma auth_fresh_ok:
  assumes "env_ok x" "i \<in> env_live x"
  shows "\<exists>n. auth_fresh x i = Some n \<and> seat_ok x i n \<and> an_proposing n = None \<and> log (an_view n) = []"
proof -
  note D = envD [OF assms(1)]
  have i: "i < env_size x" by (rule D(14) [OF assms(2)])
  then have "unat (of_nat i :: u32) = i" using D(7) by (intro unat_u32_small) simp
  then have "roster_member (ac_roster (ae_cfg x)) (of_nat i) = Some (ed25519_public_key (ae_lib x) (ac_seeds (ae_cfg x) ! i))"
    using i D(5,11) by (simp add: roster_member_def get_nth_def roster_len_def)
  then obtain n where n: "auth_new (ae_lib x) (ac_seeds (ae_cfg x) ! i) (ac_roster (ae_cfg x)) (of_nat i)
      (ac_leader (ae_cfg x)) (ac_init (ae_cfg x)) (ac_budget (ae_cfg x)) = Some n"
    "an_seed n = ac_seeds (ae_cfg x) ! i" "an_idx n = of_nat i" "an_leader_idx n = ac_leader (ae_cfg x)"
    "an_proposing n = None" by (simp add: auth_new_def Let_def)
  moreover have "3 * roster_len (ac_roster (ae_cfg x)) < 2 ^ 32" using D(5,7) by simp
  note auth_new_inv [OF n(1) D(4) this]
  ultimately show ?thesis using assms(2) by (simp add: auth_fresh_def seat_ok_def auth_live_seats_def)
qed

lemma auth_dispatch_posted:
  "length boxes \<le> 2 ^ 32 \<Longrightarrow> i < length boxes \<Longrightarrow> auth_dispatch (ae_write x) boxes (of_nat i) outs = posted boxes i (auth_to_send x outs)"
  by (simp add: auth_dispatch_def dispatched auth_to_send_def)

lemma auth_start_begun:
  assumes "length (rn_boxes s) = sz" "i < sz" "sz \<le> 2 ^ 31"
  shows "auth_start_task (ae_lib x) (ae_write x) (ae_cfg x) s i = begun (auth_starts x i) s i"
  using assms by (auto simp: auth_start_task_def begun_def auth_starts_def auth_dispatch_posted split: option.splits)

lemma auth_serve_served:
  assumes "length (rn_boxes s) = sz" "i < sz" "sz \<le> 2 ^ 31"
  shows "auth_serve_task (ae_lib x) (ae_write x) (ae_read x) (ae_cfg x) s i = served (auth_reacts x i) s i"
proof -
  have same: "(rn_nodes s)[i := Some n] = rn_nodes s" if "rn_nodes s ! i = Some n" for n
    using that by (metis list_update_id)
  show ?thesis
    using assms by (auto simp: auth_serve_task_def served_def auth_reacts_def auth_dispatch_posted posted_append
        auth_to_send_def same split: option.splits list.splits sum.splits codec_error.splits)
qed

lemma auth_can_serve_iff:
  assumes "length (rn_boxes s) = sz"
    "i < sz \<Longrightarrow> rn_started s ! i \<Longrightarrow> auth_follows x i (rn_nodes s ! i) \<or> (i = l \<and> (\<exists>e S. auth_leads x e S (rn_nodes s ! i)))"
  shows "auth_can_serve (ae_cfg x) s i \<longleftrightarrow> i < sz \<and> rn_started s ! i \<and> auth_slots (rn_nodes s ! i) < env_work x \<and>
    (\<exists>m q. rn_boxes s ! i = Some (m # q))"
proof (cases "i < sz \<and> rn_started s ! i")
  case True
  with assms(2) obtain n j where "rn_nodes s ! i = Some n" "seat_ok x j n"
    by (auto simp: auth_follows_def auth_leads_def)
  with assms(1) True seat_view(2) [OF this(2)] show ?thesis
    by (auto simp: auth_can_serve_def auth_slots_def split: option.splits list.splits)
next
  case False
  with assms(1) show ?thesis by (auto simp: auth_can_serve_def)
qed

lemma auth_leads_slots: "auth_leads x e S a \<Longrightarrow> auth_slots a = e div 2"
  by (auto simp: auth_leads_def auth_slots_def commands_def)

interpretation auth_run: running_cluster env_ok env_size env_leader env_work env_live auth_fresh
  auth_starts auth_reacts auth_slots auth_follows auth_leads auth_entry auth_vote
  "\<lambda>x. roster_is_quorum (ac_roster (ae_cfg x))" "\<lambda>x. auth_run_init (ae_lib x) (ae_cfg x)"
  "\<lambda>x. auth_start_task (ae_lib x) (ae_write x) (ae_cfg x)"
  "\<lambda>x. auth_serve_task (ae_lib x) (ae_write x) (ae_read x) (ae_cfg x)"
  "\<lambda>x. auth_can_serve (ae_cfg x)" "\<lambda>x. auth_run_step (ae_lib x) (ae_write x) (ae_read x) (ae_cfg x)"
proof unfold_locales
  fix x assume x: "env_ok x"
  note D = envD [OF x]
  have small: "env_size x \<le> 2 ^ 31" using D(7) by simp
  show "2 \<le> env_size x \<and> env_leader x < env_size x \<and> env_size x \<le> 2 ^ 31 \<and> env_live x \<subseteq> {..<env_size x}"
    using D(6,8,14) small by auto
  show "\<not> roster_is_quorum (ac_roster (ae_cfg x)) 1" using lone_seat D(5,6) by simp
  show "roster_is_quorum (ac_roster (ae_cfg x)) b" if "roster_is_quorum (ac_roster (ae_cfg x)) a" "a \<le> b" for a b
    by (rule more_seats [OF that])
  show "k = k' \<and> i = j" if "k < env_work x" "k' < env_work x" "i \<in> env_live x" "j \<in> env_live x"
    "auth_vote x k i = auth_vote x k' j" for k k' i j by (rule auth_vote_inj [OF x that])
  show "auth_follows x i (auth_fresh x i) \<and> auth_slots (auth_fresh x i) = 0" if "i \<in> env_live x - {env_leader x}" for i
    using auth_fresh_ok [OF x, of i] that by (auto simp: auth_follows_def auth_slots_def)
  show "\<exists>r. auth_starts x (env_leader x) (auth_fresh x (env_leader x)) = Some r \<and>
      opened (env_leader x) (env_work x) (auth_leads x) (auth_entry x) 0 r" if l: "env_leader x \<in> env_live x"
  proof -
    obtain n where n: "auth_fresh x (env_leader x) = Some n" "seat_ok x (env_leader x) n" "an_proposing n = None"
      "log (an_view n) = take 0 (commands (ae_cfg x))" using auth_fresh_ok [OF x l] by auto
    from auth_leader_opens [OF x n(2-4)] n(1) show ?thesis by (auto simp: auth_starts_def)
  qed
  show "auth_starts x i a = Some (a, 0, [])" if i: "i \<in> env_live x - {env_leader x}" and a: "auth_follows x i a" for i a
  proof -
    from a obtain n where "a = Some n" "seat_ok x i n" by (auto simp: auth_follows_def)
    with auth_follower_drives [OF x i] show ?thesis by (simp add: auth_starts_def auth_to_send_def)
  qed
  show "\<exists>b. auth_reacts x i a k m =
        Some (b, k, if even p then [(To (of_nat (env_leader x)), auth_vote x (p div 2) i)] else []) \<and>
      auth_follows x i b \<and> auth_slots b = Suc p div 2"
    if "i \<in> env_live x - {env_leader x}" "auth_follows x i a" "auth_slots a = p div 2" "p < 2 * env_work x" "auth_entry x p m"
    for i a p m k by (rule auth_follower_reacts [OF x that])
  show "auth_reacts x (env_leader x) a (Suc e div 2) (auth_vote x k src) = Some (a, Suc e div 2, [])"
    if "auth_leads x e S a" "src \<in> env_live x" "k \<noteq> e div 2" "2 * k < e" "even e \<longrightarrow> e = 2 * env_work x" for e S a src k
    by (rule auth_leader_ignores [OF x that])
  show "\<exists>b. auth_reacts x (env_leader x) a (Suc k) (auth_vote x k src) = Some (b, Suc k, []) \<and>
      auth_leads x (2 * k + 1) (insert src S) b"
    if "auth_leads x (2 * k + 1) S a" "k < env_work x" "src \<in> env_live x"
      "\<not> roster_is_quorum (ac_roster (ae_cfg x)) (card (insert src S))" for k S a src
    using auth_leader_counts [OF x that(1-3)] that(4) by simp
  show "\<exists>b k' m outs. auth_reacts x (env_leader x) a (Suc k) (auth_vote x k src) = Some (b, k', (Peers, m) # outs) \<and>
      auth_entry x (2 * k + 1) m \<and> opened (env_leader x) (env_work x) (auth_leads x) (auth_entry x) (Suc k) (b, k', outs)"
    if "auth_leads x (2 * k + 1) S a" "k < env_work x" "src \<in> env_live x"
      "roster_is_quorum (ac_roster (ae_cfg x)) (card (insert src S))" for k S a src
    using auth_leader_counts [OF x that(1-3)] that(4) by simp
  have "unat (of_nat (env_size x) :: u32) = env_size x" using D(7) by (intro unat_u32_small) simp
  then show "auth_run_init (ae_lib x) (ae_cfg x) = \<lparr>rn_nodes = map (auth_fresh x) [0..<env_size x],
      rn_boxes = map (\<lambda>i. if i \<in> env_live x then Some [] else None) [0..<env_size x],
      rn_next = replicate (env_size x) 0, rn_started = replicate (env_size x) False\<rparr>"
    by (simp add: auth_run_init_def Let_def auth_fresh_def auth_live_seats_def)
  show "auth_start_task (ae_lib x) (ae_write x) (ae_cfg x) s i = begun (auth_starts x i) s i"
    "auth_serve_task (ae_lib x) (ae_write x) (ae_read x) (ae_cfg x) s i = served (auth_reacts x i) s i"
    if "length (rn_boxes s) = env_size x" "i < env_size x" for s i
    using auth_start_begun [OF that small] auth_serve_served [OF that small] by simp_all
qed (erule auth_leads_slots, rule auth_can_serve_iff, assumption, blast, auto simp: auth_run_step.simps)

section \<open>Whole runs\<close>

text \<open>A replica's log is a prefix of the workload's commands, and its store the fold of it.\<close>

lemma take_own_length: "xs = take m ys \<Longrightarrow> xs = take (length xs) ys"
  by (cases "m \<le> length ys") simp_all

lemma auth_run_node:
  assumes "(auth_run_step L cw cr cfg ^^ n) (auth_run_init L cfg) s" "auth_config_ok L cw cr limit cfg"
    "i < length (ac_seeds cfg)" "rn_nodes s ! i = Some nd"
  shows "\<exists>m r. m \<le> length (ac_workload cfg) \<and> log (an_view nd) = take m (commands cfg) \<and>
    (\<not> roster_is_quorum (ac_roster cfg) (card (auth_live_seats cfg)) \<longrightarrow> m = 0) \<and>
    replicas (an_view nd) = [r] \<and> unat (applied r) = m \<and> store r = apply_prefix (ac_init cfg) (log (an_view nd))"
proof -
  let ?x = "\<lparr>ae_lib = L, ae_write = cw, ae_read = cr, ae_limit = limit, ae_cfg = cfg\<rparr>"
  have x: "env_ok ?x" using assms(2) by (simp add: env_ok_def)
  have run: "(auth_run_step (ae_lib ?x) (ae_write ?x) (ae_read ?x) (ae_cfg ?x) ^^ n) (auth_run_init (ae_lib ?x) (ae_cfg ?x)) s"
    using assms(1) by simp
  have i: "i < env_size ?x" using assms(3) by simp
  from auth_run.run_nodes(3) [OF run x i] assms(4) consider "auth_fresh ?x i = Some nd"
    | "auth_follows ?x i (Some nd) \<or> (i = env_leader ?x \<and> (\<exists>e S. auth_leads ?x e S (Some nd)))"
      "auth_slots (Some nd) \<le> env_work ?x"
      "\<not> roster_is_quorum (ac_roster cfg) (card (auth_live_seats cfg)) \<longrightarrow> auth_slots (Some nd) = 0" by auto
  then have "(\<exists>j. seat_ok ?x j nd) \<and> length (log (an_view nd)) \<le> length (ac_workload cfg) \<and>
      log (an_view nd) = take (length (log (an_view nd))) (commands cfg) \<and>
      (\<not> roster_is_quorum (ac_roster cfg) (card (auth_live_seats cfg)) \<longrightarrow> length (log (an_view nd)) = 0)"
  proof cases
    case 1
    then have "i \<in> env_live ?x" using assms(3) by (auto simp: auth_fresh_def auth_live_seats_def split: if_splits)
    from auth_fresh_ok [OF x this] 1 show ?thesis by auto
  next
    case 2
    then obtain j m where "seat_ok ?x j nd" "log (an_view nd) = take m (commands cfg)"
      by (auto simp: auth_follows_def auth_leads_def)
    with take_own_length [OF this(2)] 2(2,3) show ?thesis by (auto simp: auth_slots_def)
  qed
  then obtain j where j: "seat_ok ?x j nd" "length (log (an_view nd)) \<le> length (ac_workload cfg)"
    "log (an_view nd) = take (length (log (an_view nd))) (commands cfg)"
    "\<not> roster_is_quorum (ac_roster cfg) (card (auth_live_seats cfg)) \<longrightarrow> length (log (an_view nd)) = 0" by blast
  from seat_view(1) [OF j(1)] obtain r where "replicas (an_view nd) = [r]"
    "unat (applied r) = length (log (an_view nd))" "store r = apply_prefix (ac_init cfg) (log (an_view nd))"
    by (auto simp: view_ok_def)
  with j(2-4) show ?thesis by blast
qed

lemma auth_views_log:
  assumes "(auth_run_step L cw cr cfg ^^ n) (auth_run_init L cfg) s" "auth_config_ok L cw cr limit cfg"
    "\<And>i nd. i < length (ac_seeds cfg) \<Longrightarrow> rn_started s ! i \<Longrightarrow> rn_nodes s ! i = Some nd \<Longrightarrow> log (an_view nd) = lg"
  shows "converged (auth_run_views s) = Some True"
    "lg = commands cfg \<Longrightarrow> auth_run_complete cfg s"
proof -
  let ?x = "\<lparr>ae_lib = L, ae_write = cw, ae_read = cr, ae_limit = limit, ae_cfg = cfg\<rparr>"
  have x: "env_ok ?x" using assms(2) by (simp add: env_ok_def)
  have run: "(auth_run_step (ae_lib ?x) (ae_write ?x) (ae_read ?x) (ae_cfg ?x) ^^ n) (auth_run_init (ae_lib ?x) (ae_cfg ?x)) s"
    using assms(1) by simp
  have len: "length (rn_nodes s) = length (ac_seeds cfg)"
    using auth_run.run_nodes(1) [OF run x envD(8) [OF x]] by simp
  have view: "\<exists>r. replicas v = [r] \<and> unat (applied r) = length lg \<and> store r = apply_prefix (ac_init cfg) lg"
    if "v \<in> set (auth_run_views s)" for v
  proof -
    from that len obtain i nd where i: "i < length (ac_seeds cfg)" "rn_started s ! i" "rn_nodes s ! i = Some nd" "v = an_view nd"
      by (auto simp: auth_run_views_def split: option.splits if_splits dest!: sym [of "Some _"])
    from auth_run_node [OF assms(1,2) i(1,3)] assms(3) [OF i(1-3)] i(4) show ?thesis by (auto simp: commands_def)
  qed
  then show "converged (auth_run_views s) = Some True" by (intro converged_iff) blast
  show "auth_run_complete cfg s" if "lg = commands cfg"
    using view that by (fastforce simp: auth_run_complete_def list_all_iff applied_of_def commands_def)
qed

text \<open>Two seats under the Byzantine threshold, and two commands.\<close>

definition demo_auth_config :: auth_cluster_config where
  "demo_auth_config = \<lparr>ac_seeds = demo_keys, ac_roster = demo_roster Byzantine, ac_leader = 0, ac_init = Var 0,
     ac_workload = map (\<lambda>c. (c, issue_capability toy_ed25519 put (demo_keys ! 1) c)) [demo_cmd, demo_cmd2],
     ac_crashed = [], ac_budget = fb_zero 0\<rparr>"

lemma demo_auth_config_ok: "auth_config_ok toy_ed25519 put (toy_read 256) 256 demo_auth_config"
    "auth_live_seats demo_auth_config = {0, 1}"
proof -
  have "toy_ed25519 = toy_ed25519 \<and> wf_command c \<and> shallow 256 c" if "c \<in> {demo_cmd, demo_cmd2}" for c
    using that by (auto simp: wf_command_def shallow_def demo_cmd_def demo_cmd2_def u32_int_def)
  then show "auth_config_ok toy_ed25519 put (toy_read 256) 256 demo_auth_config"
    using toy_ed25519_ok toy_codec demo_distinct
    by (auto simp: auth_config_ok_def demo_auth_config_def less_2_cases_iff issue_capability_def verify_capability_def)
  show "auth_live_seats demo_auth_config = {0, 1}"
    by (auto simp: auth_live_seats_def demo_auth_config_def)
qed

section \<open>Properties\<close>

text \<open>C37: an authenticated run ends, and no task panics on the way: with \<open>n\<close> replicas and \<open>w\<close> commands
  no interleaving has more than \<open>n (4 w + 1)\<close> steps.\<close>

theorem auth_run_terminates:
  assumes "(auth_run_step L cw cr cfg ^^ n) (auth_run_init L cfg) s" "auth_config_ok L cw cr limit cfg"
  shows "n \<le> length (ac_seeds cfg) * (4 * length (ac_workload cfg) + 1) \<and>
    (can_start s i \<longrightarrow> auth_start_task L cw cfg s i \<noteq> None) \<and> (auth_can_serve cfg s i \<longrightarrow> auth_serve_task L cw cr cfg s i \<noteq> None)"
proof -
  let ?x = "\<lparr>ae_lib = L, ae_write = cw, ae_read = cr, ae_limit = limit, ae_cfg = cfg\<rparr>"
  have x: "env_ok ?x" using assms(2) by (simp add: env_ok_def)
  from auth_run.run_bounded [OF _ x, of n s] auth_run.run_progress [OF _ x, of n s i] assms(1) show ?thesis by simp
qed

theorem auth_run_terminates_witness:
  "(0 :: nat) \<le> 2 * (4 * 2 + 1) \<and> auth_start_task toy_ed25519 put demo_auth_config (auth_run_init toy_ed25519 demo_auth_config) 0 \<noteq> None"
  using auth_run_terminates [of 0 toy_ed25519 put "toy_read 256" demo_auth_config _ 256 0] demo_auth_config_ok(1)
  by (simp add: can_start_def auth_run_init_def demo_auth_config_def Let_def)

text \<open>C17: an authenticated run that has nothing left to do has done everything: when the leader is live and the live
  seats are a quorum of the roster, crash or Byzantine, every live replica has committed the whole
  workload in order, the run is complete, and the replicas have converged.\<close>

theorem auth_run_completes:
  assumes "(auth_run_step L cw cr cfg ^^ n) (auth_run_init L cfg) s" "auth_config_ok L cw cr limit cfg"
    "\<nexists>t. auth_run_step L cw cr cfg s t" "unat (ac_leader cfg) \<in> auth_live_seats cfg"
    "roster_is_quorum (ac_roster cfg) (card (auth_live_seats cfg))"
  shows "(\<forall>i \<in> auth_live_seats cfg. \<exists>nd. rn_nodes s ! i = Some nd \<and> log (an_view nd) = commands cfg) \<and>
    auth_run_complete cfg s \<and> converged (auth_run_views s) = Some True"
proof -
  let ?x = "\<lparr>ae_lib = L, ae_write = cw, ae_read = cr, ae_limit = limit, ae_cfg = cfg\<rparr>"
  have x: "env_ok ?x" using assms(2) by (simp add: env_ok_def)
  have fin: "rn_started s ! i \<and> length (ac_workload cfg) \<le> auth_slots (rn_nodes s ! i)" if "i \<in> auth_live_seats cfg" for i
    using auth_run.run_settled [OF _ x, of n s i] assms that by simp
  have full: "log (an_view nd) = commands cfg" if "i \<in> auth_live_seats cfg" "rn_nodes s ! i = Some nd" for i nd
    using fin [OF that(1)] auth_run_node [OF assms(1,2) _ that(2)] that by (auto simp: auth_slots_def auth_live_seats_def commands_def)
  have built: "\<exists>nd. rn_nodes s ! i = Some nd" if i: "i \<in> auth_live_seats cfg" for i
  proof -
    from i have "i < env_size ?x" "i \<in> env_live ?x" by (simp_all add: auth_live_seats_def)
    with auth_run.run_nodes(3) [OF _ x this(1), of n s] auth_fresh_ok [OF x this(2)] assms(1) show ?thesis
      by (auto simp: auth_follows_def auth_leads_def)
  qed
  have live: "i \<in> auth_live_seats cfg" if "i < length (ac_seeds cfg)" "rn_started s ! i" for i
    using auth_run.run_nodes(2) [OF _ x, of n s i] assms(1) that by simp
  with auth_views_log [OF assms(1,2), of "commands cfg"] built full show ?thesis by blast
qed

theorem auth_run_completes_witness:
  "\<exists>n s nd. (auth_run_step toy_ed25519 put (toy_read 256) demo_auth_config ^^ n) (auth_run_init toy_ed25519 demo_auth_config) s \<and>
    rn_nodes s ! 1 = Some nd \<and> log (an_view nd) = commands demo_auth_config \<and> auth_run_complete demo_auth_config s"
proof -
  let ?x = "\<lparr>ae_lib = toy_ed25519, ae_write = put, ae_read = toy_read 256, ae_limit = 256, ae_cfg = demo_auth_config\<rparr>"
  have "env_ok ?x" using demo_auth_config_ok(1) by (simp add: env_ok_def)
  from auth_run.run_settles [OF this] obtain n s where
    s: "(auth_run_step toy_ed25519 put (toy_read 256) demo_auth_config ^^ n) (auth_run_init toy_ed25519 demo_auth_config) s"
    "\<nexists>t. auth_run_step toy_ed25519 put (toy_read 256) demo_auth_config s t" by auto
  have "unat (ac_leader demo_auth_config) = 0" "roster_is_quorum (ac_roster demo_auth_config) (card {0, 1 :: nat})"
    by (simp_all add: demo_auth_config_def roster_is_quorum_def quorum_reached_def demo_roster_def roster_len_def)
  with auth_run_completes [OF s(1) demo_auth_config_ok(1) s(2), unfolded demo_auth_config_ok(2)] s(1) show ?thesis
    by auto
qed

text \<open>At every moment of an authenticated run each replica's log is a prefix of the workload, and when the live seats
  are no quorum of the roster nothing is ever committed: the run stalls with all stores as they began.\<close>

theorem auth_run_is_safe:
  assumes "(auth_run_step L cw cr cfg ^^ n) (auth_run_init L cfg) s" "auth_config_ok L cw cr limit cfg"
    "i < length (ac_seeds cfg)" "rn_nodes s ! i = Some nd"
  shows "prefix (log (an_view nd)) (commands cfg) \<and>
    (\<not> roster_is_quorum (ac_roster cfg) (card (auth_live_seats cfg)) \<longrightarrow>
       log (an_view nd) = [] \<and> converged (auth_run_views s) = Some True)"
proof -
  have "log (an_view md) = []"
    if "\<not> roster_is_quorum (ac_roster cfg) (card (auth_live_seats cfg))" "j < length (ac_seeds cfg)" "rn_nodes s ! j = Some md" for j md
    using auth_run_node [OF assms(1,2) that(2,3)] that(1) by auto
  with auth_run_node [OF assms] auth_views_log(1) [OF assms(1,2), of "[]"] assms(3,4) show ?thesis
    by (auto simp: take_is_prefix)
qed

theorem auth_run_is_safe_witness:
  "\<exists>nd. rn_nodes (auth_run_init toy_ed25519 demo_auth_config) ! 1 = Some nd \<and> prefix (log (an_view nd)) (commands demo_auth_config)"
proof -
  have i: "1 < length (ac_seeds demo_auth_config)" "rn_nodes (auth_run_init toy_ed25519 demo_auth_config) ! 1 = Some (demo_node Byzantine 1)"
    using demo_new [of 1 Byzantine] by (simp_all add: demo_auth_config_def auth_run_init_def Let_def)
  from auth_run_is_safe [OF _ demo_auth_config_ok(1) i, of 0] i(2) show ?thesis by auto
qed

end
