(* ===== verification/Outcome.thy ===== *)
theory Outcome
  imports Auth_Run
begin

text \<open>
  What \<open>run_auth_cluster\<close> returns (\<open>AuthOutcome\<close> of \<open>crates/dlc-d-node/src/netauth.rs\<close>): the views published
  when the last task has ended or the time is up, whichever comes first.  The time may be up in any
  state of a run; a run without a next step is settled, and its outcome is determined.
\<close>

section \<open>Outcomes\<close>

record auth_outcome =
  out_views :: "(u32 \<times> global_config) list"
  out_complete :: bool

text \<open>The map from seats to views, in its order.\<close>

definition published :: "auth_state \<Rightarrow> (u32 \<times> global_config) list" where
  "published s = concat (map (\<lambda>i. case rn_nodes s ! i of
     Some n \<Rightarrow> if rn_started s ! i then [(of_nat i, an_view n)] else []
   | None \<Rightarrow> []) [0..<length (rn_nodes s)])"

text \<open>A seat's task has left its loop; a crashed seat has no task.\<close>

definition task_ended :: "auth_cluster_config \<Rightarrow> auth_state \<Rightarrow> nat \<Rightarrow> bool" where
  "task_ended cfg s i \<longleftrightarrow> rn_boxes s ! i = None \<or> rn_started s ! i \<and>
     (case rn_nodes s ! i of
        Some n \<Rightarrow> (case applied_of (an_view n) of Some a \<Rightarrow> \<not> a < length (ac_workload cfg) | None \<Rightarrow> False)
      | None \<Rightarrow> False)"

definition outcome_of :: "auth_cluster_config \<Rightarrow> auth_state \<Rightarrow> auth_outcome" where
  "outcome_of cfg s = \<lparr>out_views = published s,
     out_complete = (list_all (task_ended cfg s) [0..<length (rn_boxes s)] \<and> auth_run_complete cfg s)\<rparr>"

definition out_stores :: "auth_outcome \<Rightarrow> trm list option" where
  "out_stores r = stores (map snd (out_views r))"

definition out_converged :: "auth_outcome \<Rightarrow> bool option" where
  "out_converged r = converged (map snd (out_views r))"

definition out_committed :: "auth_outcome \<Rightarrow> nat" where
  "out_committed r = committed (map snd (out_views r))"

text \<open>The outcomes of a configuration: of a run cut off at any moment, and of one that has settled.\<close>

inductive auth_cluster_returns ::
    "ed25519_lib \<Rightarrow> (cbor \<Rightarrow> bytes) \<Rightarrow> (bytes \<Rightarrow> string + cbor) \<Rightarrow> auth_cluster_config \<Rightarrow> auth_outcome \<Rightarrow> bool"
  for L cw cr cfg where
  cut_off: "(auth_run_step L cw cr cfg ^^ n) (auth_run_init L cfg) s \<Longrightarrow>
     auth_cluster_returns L cw cr cfg (outcome_of cfg s)"

inductive auth_cluster_settles ::
    "ed25519_lib \<Rightarrow> (cbor \<Rightarrow> bytes) \<Rightarrow> (bytes \<Rightarrow> string + cbor) \<Rightarrow> auth_cluster_config \<Rightarrow> auth_outcome \<Rightarrow> bool"
  for L cw cr cfg where
  settles: "(auth_run_step L cw cr cfg ^^ n) (auth_run_init L cfg) s \<Longrightarrow> \<nexists>t. auth_run_step L cw cr cfg s t \<Longrightarrow>
     auth_cluster_settles L cw cr cfg (outcome_of cfg s)"

section \<open>Outcomes of any run\<close>

lemma published_views: "map snd (published s) = auth_run_views s"
  by (auto simp: published_def auth_run_views_def map_concat comp_def intro!: arg_cong [where f = concat] split: option.splits)

text \<open>A view holds a prefix of the workload and the fold of it.\<close>

definition holds_prefix :: "auth_cluster_config \<Rightarrow> nat \<Rightarrow> global_config \<Rightarrow> bool" where
  "holds_prefix cfg m v \<longleftrightarrow> m \<le> length (ac_workload cfg) \<and> log v = take m (commands cfg) \<and>
     (\<exists>r. replicas v = [r] \<and> unat (applied r) = m \<and> store r = apply_prefix (ac_init cfg) (take m (commands cfg)))"

lemma length_commands [simp]: "length (commands cfg) = length (ac_workload cfg)"
  by (simp add: commands_def)

lemma holds_prefixD:
  "holds_prefix cfg m v \<Longrightarrow> applied_of v = Some m"
  "holds_prefix cfg m v \<Longrightarrow> length (log v) = m"
  "holds_prefix cfg m v \<Longrightarrow> map_option store (get_nth (replicas v) 0) = Some (apply_prefix (ac_init cfg) (take m (commands cfg)))"
  by (auto simp: holds_prefix_def applied_of_def)

lemma published_from:
  assumes "(i, v) \<in> set (published s)"
  shows "\<exists>k n. k < length (rn_nodes s) \<and> i = of_nat k \<and> rn_nodes s ! k = Some n \<and> rn_started s ! k \<and> v = an_view n"
  using assms by (auto simp: published_def split: option.splits if_splits) (metis option.simps(5) singletonD prod.inject)

text \<open>The facts about a whole run, over its configuration alone.\<close>

lemma run_facts:
  assumes "(auth_run_step L cw cr cfg ^^ n) (auth_run_init L cfg) s" "auth_config_ok L cw cr limit cfg"
  shows "length (rn_nodes s) = length (ac_seeds cfg)" "length (rn_boxes s) = length (ac_seeds cfg)"
    "i < length (ac_seeds cfg) \<Longrightarrow> rn_boxes s ! i \<noteq> None \<longleftrightarrow> i \<in> auth_live_seats cfg"
    "i \<in> auth_live_seats cfg \<Longrightarrow> \<exists>nd. rn_nodes s ! i = Some nd"
    "i < length (ac_seeds cfg) \<Longrightarrow> rn_started s ! i \<Longrightarrow> i \<in> auth_live_seats cfg"
    "\<nexists>t. auth_run_step L cw cr cfg s t \<Longrightarrow> i \<in> auth_live_seats cfg \<Longrightarrow> rn_started s ! i"
proof -
  let ?x = "\<lparr>ae_lib = L, ae_write = cw, ae_read = cr, ae_limit = limit, ae_cfg = cfg\<rparr>"
  have x: "env_ok ?x" using assms(2) by (simp add: env_ok_def)
  have run: "(auth_run_step (ae_lib ?x) (ae_write ?x) (ae_read ?x) (ae_cfg ?x) ^^ n) (auth_run_init (ae_lib ?x) (ae_cfg ?x)) s"
    using assms(1) by simp
  show "length (rn_nodes s) = length (ac_seeds cfg)" "length (rn_boxes s) = length (ac_seeds cfg)"
    using auth_run.run_nodes(1) [OF run x envD(8) [OF x]] auth_run.run_channels(1) [OF run x envD(8) [OF x]] by simp_all
  show "i < length (ac_seeds cfg) \<Longrightarrow> rn_boxes s ! i \<noteq> None \<longleftrightarrow> i \<in> auth_live_seats cfg"
    "i < length (ac_seeds cfg) \<Longrightarrow> rn_started s ! i \<Longrightarrow> i \<in> auth_live_seats cfg"
    using auth_run.run_channels(2) [OF run x] auth_run.run_nodes(2) [OF run x] by auto
  have i: "i < env_size ?x" if "i \<in> auth_live_seats cfg" using that by (simp add: auth_live_seats_def)
  show "\<exists>nd. rn_nodes s ! i = Some nd" if "i \<in> auth_live_seats cfg"
    using auth_run.run_nodes(3) [OF run x i [OF that]] auth_fresh_ok [OF x, of i] that
    by (auto simp: auth_follows_def auth_leads_def)
  show "rn_started s ! i" if "\<nexists>t. auth_run_step L cw cr cfg s t" "i \<in> auth_live_seats cfg"
    using auth_run.run_channels(3) [OF run x i [OF that(2)]] that by simp
qed

lemma published_prefix:
  assumes "(auth_run_step L cw cr cfg ^^ n) (auth_run_init L cfg) s" "auth_config_ok L cw cr limit cfg"
    "(i, v) \<in> set (published s)"
  shows "\<exists>m. holds_prefix cfg m v \<and> (\<not> roster_is_quorum (ac_roster cfg) (card (auth_live_seats cfg)) \<longrightarrow> m = 0)"
proof -
  from published_from [OF assms(3)] run_facts(1) [OF assms(1,2)] obtain k nd where
    "k < length (ac_seeds cfg)" "rn_nodes s ! k = Some nd" "v = an_view nd" by auto
  with auth_run_node [OF assms(1,2)] show ?thesis by (force simp: holds_prefix_def)
qed

definition live_list :: "auth_cluster_config \<Rightarrow> nat list" where
  "live_list cfg = filter (\<lambda>i. i \<in> auth_live_seats cfg) [0..<length (ac_seeds cfg)]"

lemma concat_guarded: "concat (map (\<lambda>i. if P i then [f i] else []) xs) = map f (filter P xs)"
  by (induction xs) auto

lemma published_live:
  assumes "(auth_run_step L cw cr cfg ^^ n) (auth_run_init L cfg) s" "auth_config_ok L cw cr limit cfg"
    "\<nexists>t. auth_run_step L cw cr cfg s t"
  shows "published s = map (\<lambda>i. (of_nat i, an_view (the (rn_nodes s ! i)))) (live_list cfg)"
proof -
  note F = run_facts [OF assms(1,2)]
  have "(case rn_nodes s ! i of Some n \<Rightarrow> if rn_started s ! i then [(of_nat i :: u32, an_view n)] else [] | None \<Rightarrow> []) =
      (if i \<in> auth_live_seats cfg then [(of_nat i :: u32, an_view (the (rn_nodes s ! i)))] else [])" if "i < length (ac_seeds cfg)" for i
    using F(4) [of i] F(5) [OF that] F(6) [OF assms(3), of i] by (auto split: option.splits)
  then have eq: "map (\<lambda>i. case rn_nodes s ! i of Some n \<Rightarrow> if rn_started s ! i then [(of_nat i :: u32, an_view n)] else [] | None \<Rightarrow> [])
      [0..<length (rn_nodes s)] =
    map (\<lambda>i. if i \<in> auth_live_seats cfg then [(of_nat i :: u32, an_view (the (rn_nodes s ! i)))] else []) [0..<length (rn_nodes s)]"
    using F(1) by (intro map_cong) auto
  show ?thesis unfolding published_def eq concat_guarded by (simp add: F(1) live_list_def)
qed

text \<open>What an outcome says of views with one replica each.\<close>

abbreviation view_store :: "global_config \<Rightarrow> trm" where
  "view_store v \<equiv> store (hd (replicas v))"

lemma single_views:
  assumes "\<forall>v \<in> set vs. \<exists>r. replicas v = [r]"
  shows "stores vs = Some (map view_store vs)"
    "converged vs = Some (\<forall>v \<in> set vs. view_store v = view_store (hd vs))"
proof -
  show "stores vs = Some (map view_store vs)"
    using assms by (induction vs) (auto simp: stores_def)
  show "converged vs = Some (\<forall>v \<in> set vs. view_store v = view_store (hd vs))"
  proof (cases vs)
    case (Cons v ws)
    with assms obtain r where r: "replicas v = [r]" by auto
    have "\<forall>v \<in> set ws. \<exists>r. replicas v = [r]" using assms Cons by simp
    then have "foldr (\<lambda>v acc. case (get_nth (replicas v) 0, Some r) of
        (Some r, Some r0) \<Rightarrow> if store r = store r0 then acc else Some False
      | _ \<Rightarrow> None) ws (Some True) = Some (\<forall>v \<in> set ws. view_store v = store r)"
      by (induction ws) auto
    with Cons r show ?thesis by (simp add: converged_def)
  qed (simp add: converged_def)
qed

lemma foldl_max: "foldl max k xs = m \<longleftrightarrow> m \<in> insert k (set xs) \<and> k \<le> m \<and> (\<forall>x \<in> set xs. x \<le> (m :: nat))"
proof (induction xs arbitrary: k)
  case (Cons x xs)
  show ?case unfolding foldl_Cons Cons.IH by (auto simp: max_def)
qed auto

lemma out_of_views:
  assumes "out_views r = map f xs" "\<And>x. x \<in> set xs \<Longrightarrow> holds_prefix cfg m (snd (f x))" "xs \<noteq> []"
  shows "out_stores r = Some (map (\<lambda>_. apply_prefix (ac_init cfg) (take m (commands cfg))) xs)"
    "out_converged r = Some True" "out_committed r = m"
proof -
  let ?s = "apply_prefix (ac_init cfg) (take m (commands cfg))"
  have st: "\<exists>r. replicas (snd (f x)) = [r]" "view_store (snd (f x)) = ?s" if "x \<in> set xs" for x
    using assms(2) [OF that] by (auto simp: holds_prefix_def)
  then have one: "\<forall>v \<in> set (map snd (out_views r)). \<exists>r. replicas v = [r]" using assms(1) by auto
  show "out_stores r = Some (map (\<lambda>_. ?s) xs)"
    unfolding out_stores_def single_views(1) [OF one] using st(2) by (simp add: assms(1))
  show "out_converged r = Some True"
    unfolding out_converged_def single_views(2) [OF one] using st(2) assms(3) by (simp add: assms(1) hd_map)
  have "\<forall>n \<in> set (map (\<lambda>v. length (log v)) (map snd (out_views r))). n = m" "out_views r \<noteq> []"
    using assms holds_prefixD(2) by auto
  then show "out_committed r = m"
    unfolding out_committed_def committed_def foldl_max by (cases "out_views r") auto
qed

text \<open>Every configuration has a settled outcome.\<close>

lemma cluster_settles:
  assumes "auth_config_ok L cw cr limit cfg"
  shows "\<exists>r. auth_cluster_settles L cw cr cfg r"
proof -
  let ?x = "\<lparr>ae_lib = L, ae_write = cw, ae_read = cr, ae_limit = limit, ae_cfg = cfg\<rparr>"
  have "env_ok ?x" using assms by (simp add: env_ok_def)
  from auth_run.run_settles [OF this] show ?thesis by (auto intro: auth_cluster_settles.intros)
qed

text \<open>A settled outcome, with a live leader: everything or nothing.\<close>

lemma outcome_settled:
  assumes "auth_cluster_settles L cw cr cfg r" "auth_config_ok L cw cr limit cfg" "unat (ac_leader cfg) \<in> auth_live_seats cfg"
    "lg = (if roster_is_quorum (ac_roster cfg) (card (auth_live_seats cfg)) then commands cfg else [])"
  shows "map fst (out_views r) = map of_nat (live_list cfg)"
    "out_stores r = Some (map (\<lambda>_. apply_prefix (ac_init cfg) lg) (live_list cfg))"
    "out_converged r = Some True" "out_committed r = length lg"
    "out_complete r \<longleftrightarrow> lg = commands cfg" "\<forall>v \<in> snd ` set (out_views r). log v = lg"
proof -
  from assms(1) obtain n s where s: "(auth_run_step L cw cr cfg ^^ n) (auth_run_init L cfg) s"
    "\<nexists>t. auth_run_step L cw cr cfg s t" "r = outcome_of cfg s" by (auto simp: auth_cluster_settles.simps)
  note F = run_facts [OF s(1) assms(2)]
  have views: "out_views r = map (\<lambda>i. (of_nat i, an_view (the (rn_nodes s ! i)))) (live_list cfg)"
    using published_live [OF s(1) assms(2) s(2)] s(3) by (simp add: outcome_of_def)
  then show "map fst (out_views r) = map of_nat (live_list cfg)" by simp
  let ?q = "roster_is_quorum (ac_roster cfg) (card (auth_live_seats cfg))"
  let ?x = "\<lparr>ae_lib = L, ae_write = cw, ae_read = cr, ae_limit = limit, ae_cfg = cfg\<rparr>"
  have x: "env_ok ?x" using assms(2) by (simp add: env_ok_def)
  have seat: "\<exists>nd. rn_nodes s ! i = Some nd \<and> holds_prefix cfg (length lg) (an_view nd)" if i: "i \<in> auth_live_seats cfg" for i
  proof -
    from F(4) [OF i] obtain nd where nd: "rn_nodes s ! i = Some nd" by blast
    have il: "i < length (ac_seeds cfg)" using i by (simp add: auth_live_seats_def)
    from auth_run_node [OF s(1) assms(2) il nd] obtain m where
      m: "holds_prefix cfg m (an_view nd)" "\<not> ?q \<longrightarrow> m = 0" by (auto simp: holds_prefix_def)
    have "length (ac_workload cfg) \<le> m" if "?q"
      using auth_run.run_settled [OF _ x _ _ _, of n s i] s assms(3) i nd that holds_prefixD(2) [OF m(1)]
      by (simp add: auth_slots_def)
    with m assms(4) have "m = length lg" by (cases ?q) (auto simp: holds_prefix_def)
    with nd m(1) show ?thesis by blast
  qed
  have lg: "take (length lg) (commands cfg) = lg" using assms(4) by simp
  have "unat (ac_leader cfg) \<in> set (live_list cfg)" using assms(3) by (simp add: live_list_def auth_live_seats_def)
  then have nonempty: "live_list cfg \<noteq> []" by auto
  have hold: "holds_prefix cfg (length lg) (an_view (the (rn_nodes s ! i)))" if "i \<in> set (live_list cfg)" for i
    using seat [of i] that by (auto simp: live_list_def)
  from out_of_views [OF views _ nonempty, of cfg "length lg"] hold lg show
    "out_stores r = Some (map (\<lambda>_. apply_prefix (ac_init cfg) lg) (live_list cfg))"
    "out_converged r = Some True" "out_committed r = length lg" by auto
  show "\<forall>v \<in> snd ` set (out_views r). log v = lg" using views hold lg by (auto simp: holds_prefix_def)
  have app: "applied_of v = Some (length lg)" if "v \<in> set (auth_run_views s)" for v
    using that views holds_prefixD(1) [OF hold] by (auto simp: published_views [symmetric] outcome_of_def s(3))
  obtain i where i: "i \<in> set (live_list cfg)" using nonempty by (cases "live_list cfg") auto
  have "task_ended cfg s j \<longleftrightarrow> j \<notin> auth_live_seats cfg \<or> length lg = length (ac_workload cfg)" if "j < length (ac_seeds cfg)" for j
    using F(3) [OF that] F(6) [OF s(2), of j] seat [of j] holds_prefixD(1)
    by (fastforce simp: task_ended_def holds_prefix_def)
  then have "list_all (task_ended cfg s) [0..<length (rn_boxes s)] \<longleftrightarrow> length lg = length (ac_workload cfg)"
    using F(2) i by (auto simp: list_all_iff live_list_def)
  moreover have "auth_run_complete cfg s \<longleftrightarrow> length lg = length (ac_workload cfg)"
  proof -
    have "set (auth_run_views s) \<noteq> {}" using views i by (auto simp: published_views [symmetric] outcome_of_def s(3))
    with app show ?thesis by (auto simp: auth_run_complete_def list_all_iff)
  qed
  ultimately show "out_complete r \<longleftrightarrow> lg = commands cfg"
    using assms(4) by (auto simp: outcome_of_def s(3) commands_def)
qed

end
