(* ===== verification/Run_Broadcast.thy ===== *)
theory Run_Broadcast
  imports Broadcast Run Auth_Run
begin

text \<open>
  Both event loops implement the atomic broadcast of \<open>Broadcast\<close>: what a run presents, and each of its
  steps, is a run of the abstract machine whose clients offer the workload.
\<close>

section \<open>Growth in the abstract machine\<close>

lemma spec_offers:
  "spec_step\<^sup>*\<^sup>* s (s\<lparr>offered := set cs \<union> offered s\<rparr>)"
proof (induction cs arbitrary: s)
  case (Cons c cs)
  have "spec_step s (s\<lparr>offered := insert c (offered s)\<rparr>)" by (rule offer)
  also have "spec_step\<^sup>*\<^sup>* \<dots> (s\<lparr>offered := set cs \<union> insert c (offered s)\<rparr>)"
    using Cons.IH [of "s\<lparr>offered := insert c (offered s)\<rparr>"] by simp
  also have "set cs \<union> insert c (offered s) = set (c # cs) \<union> offered s" by auto
  finally show ?case .
qed simp

lemma spec_chooses:
  "set cs \<subseteq> offered s \<Longrightarrow> spec_step\<^sup>*\<^sup>* s (s\<lparr>chosen := chosen s @ cs\<rparr>)"
proof (induction cs arbitrary: s)
  case (Cons c cs)
  then have "spec_step s (s\<lparr>chosen := chosen s @ [c]\<rparr>)" by (intro choose) simp
  also have "spec_step\<^sup>*\<^sup>* \<dots> (s\<lparr>chosen := chosen s @ c # cs\<rparr>)"
    using Cons.IH [of "s\<lparr>chosen := chosen s @ [c]\<rparr>"] Cons.prems by simp
  finally show ?case .
qed simp

lemma spec_learns_one:
  assumes "i < length (learned s)" "learned s ! i + d \<le> length (chosen s)"
  shows "spec_step\<^sup>*\<^sup>* s (s\<lparr>learned := (learned s)[i := learned s ! i + d]\<rparr>)"
  using assms
proof (induction d arbitrary: s)
  case (Suc d)
  let ?t = "s\<lparr>learned := (learned s)[i := learned s ! i + 1]\<rparr>"
  have "spec_step s ?t" using Suc.prems by (intro learn) simp_all
  also have "spec_step\<^sup>*\<^sup>* \<dots> (s\<lparr>learned := (learned s)[i := learned s ! i + Suc d]\<rparr>)"
    using Suc.IH [of ?t] Suc.prems by simp
  finally show ?case .
qed simp

lemma spec_learns:
  assumes "length ns = length (learned s)" "\<And>i. i < length ns \<Longrightarrow> learned s ! i \<le> ns ! i \<and> ns ! i \<le> length (chosen s)"
  shows "spec_step\<^sup>*\<^sup>* s (s\<lparr>learned := ns\<rparr>)"
proof -
  have "spec_step\<^sup>*\<^sup>* s (s\<lparr>learned := take k ns @ drop k (learned s)\<rparr>)" if "k \<le> length ns" for k
    using that
  proof (induction k)
    case (Suc k)
    let ?t = "s\<lparr>learned := take k ns @ drop k (learned s)\<rparr>"
    have k: "k < length ns" "k < length (learned s)" using Suc.prems assms(1) by simp_all
    then have nth: "learned ?t ! k = learned s ! k" by (simp add: nth_append)
    have "(take k ns @ drop k (learned s))[k := ns ! k] = take (Suc k) ns @ drop (Suc k) (learned s)"
      using k by (simp add: list_update_append take_Suc_conv_app_nth Cons_nth_drop_Suc [symmetric])
    then have "spec_step\<^sup>*\<^sup>* ?t (s\<lparr>learned := take (Suc k) ns @ drop (Suc k) (learned s)\<rparr>)"
      using spec_learns_one [of k ?t "ns ! k - learned s ! k"] k nth assms(2) [OF k(1)] by simp
    with Suc show ?case by (meson Suc_leD rtranclp_trans)
  qed simp
  from this [of "length ns"] assms(1) show ?thesis by simp
qed

text \<open>The commands of a workload, the replicas' positions in it, and a leader who is ahead of all.\<close>

definition presented :: "command list \<Rightarrow> nat \<Rightarrow> nat list \<Rightarrow> broadcast" where
  "presented cmds l ns = \<lparr>chosen = take (ns ! l) cmds, learned = ns, offered = set cmds\<rparr>"

lemma presented_grows:
  assumes "length ms = length ns" "l < length ns" "\<And>i. i < length ns \<Longrightarrow> ns ! i \<le> ms ! i \<and> ms ! i \<le> ms ! l" "ms ! l \<le> length cmds"
  shows "spec_step\<^sup>*\<^sup>* (presented cmds l ns) (presented cmds l ms)"
proof -
  let ?new = "drop (ns ! l) (take (ms ! l) cmds)" and ?s = "presented cmds l ns"
  have "take (ns ! l) (take (ms ! l) cmds) = take (ns ! l) cmds" using assms(3) [OF assms(2)] by (simp add: min_def)
  then have chosen: "take (ns ! l) cmds @ ?new = take (ms ! l) cmds"
    using append_take_drop_id [of "ns ! l" "take (ms ! l) cmds"] by simp
  have "spec_step\<^sup>*\<^sup>* ?s (?s\<lparr>chosen := chosen ?s @ ?new\<rparr>)"
    by (rule spec_chooses) (auto simp: presented_def dest!: in_set_dropD in_set_takeD)
  also have "spec_step\<^sup>*\<^sup>* \<dots> (presented cmds l ms)"
    using spec_learns [of ms "?s\<lparr>chosen := chosen ?s @ ?new\<rparr>"] assms by (simp add: presented_def chosen)
  finally show ?thesis .
qed

lemma presented_start: "spec_step\<^sup>*\<^sup>* (spec_start sz) (presented cmds l (replicate sz 0))" if "l < sz"
  using spec_offers [of "spec_start sz" cmds] that by (simp add: spec_start_def presented_def)

text \<open>A list of positions that the leader bounds is reachable.\<close>

lemma presented_reachable:
  assumes "l < length ns" "\<And>i. i < length ns \<Longrightarrow> ns ! i \<le> ns ! l" "ns ! l \<le> length cmds"
  shows "spec_step\<^sup>*\<^sup>* (spec_start (length ns)) (presented cmds l ns)"
  using presented_start [OF assms(1)] presented_grows [of ns "replicate (length ns) 0" l cmds] assms
  by (auto intro: rtranclp_trans)

lemma presented_log:
  assumes "lg = take m cmds" "m \<le> length cmds" "ns ! i = length lg" "ns ! i \<le> ns ! l"
  shows "lg = take (learned (presented cmds l ns) ! i) (chosen (presented cmds l ns))"
  using assms by (simp add: presented_def min_def)

section \<open>What the event loops present\<close>

definition run_presents :: "cluster_config \<Rightarrow> node_run \<Rightarrow> broadcast" where
  "run_presents cfg s = presented (cc_workload cfg) (unat (cc_leader cfg)) (learned_by (\<lambda>n. length (log (nd_view n))) s)"

definition auth_run_presents :: "auth_cluster_config \<Rightarrow> auth_state \<Rightarrow> broadcast" where
  "auth_run_presents cfg s = presented (commands cfg) (unat (ac_leader cfg)) (learned_by auth_slots s)"

section \<open>Properties\<close>

text \<open>The crash-fault event loop implements atomic broadcast of its workload: what a run presents is
  reachable in the abstract machine, each of its steps is a run of that machine, and every started
  replica's log is what it has learned of the chosen commands.\<close>

theorem run_refines_broadcast:
  assumes "(run_step cfg ^^ n) (run_init cfg) s" "config_ok cfg"
  shows "spec_step\<^sup>*\<^sup>* (spec_start (unat (cc_size cfg))) (run_presents cfg s) \<and>
    (\<forall>t. run_step cfg s t \<longrightarrow> spec_step\<^sup>*\<^sup>* (run_presents cfg s) (run_presents cfg t)) \<and>
    (\<forall>i < unat (cc_size cfg). rn_started s ! i \<longrightarrow>
       log (nd_view (rn_nodes s ! i)) = take (learned (run_presents cfg s) ! i) (chosen (run_presents cfg s)))"
proof (intro conjI allI impI)
  note L = crash_run.run_learned [OF assms] and l = configD(3) [OF assms(2)]
  show "spec_step\<^sup>*\<^sup>* (spec_start (unat (cc_size cfg))) (run_presents cfg s)"
    unfolding run_presents_def using presented_reachable [of "unat (cc_leader cfg)" "learned_by slots_of s"] L l by auto
  show "spec_step\<^sup>*\<^sup>* (run_presents cfg s) (run_presents cfg t)" if "run_step cfg s t" for t
  proof -
    from assms(1) that have "(run_step cfg ^^ Suc n) (run_init cfg) t" by auto
    note M = crash_run.run_learned [OF this assms(2)]
    show ?thesis unfolding run_presents_def using L(3,4) M(1-3) that l by (intro presented_grows) auto
  qed
  fix i assume i: "i < unat (cc_size cfg)" "rn_started s ! i"
  from run_node [OF assms i(1)] obtain m where
    "m \<le> length (cc_workload cfg)" "log (nd_view (rn_nodes s ! i)) = take m (cc_workload cfg)" by blast
  then show "log (nd_view (rn_nodes s ! i)) = take (learned (run_presents cfg s) ! i) (chosen (run_presents cfg s))"
    unfolding run_presents_def using L(1,3) [OF i(1)] i
    by (intro presented_log) (auto simp: learned_by_def)
qed

text \<open>C19: the authenticated event loop implements the same atomic broadcast, with signatures, certificates and a
  crash or Byzantine threshold below it: what a run presents is reachable in the abstract machine whose
  clients offer the workload, each of its steps is a run of that machine, and every started
  replica's log is what it has learned of the chosen commands.\<close>

theorem auth_run_refines_broadcast:
  assumes "(auth_run_step L cw cr cfg ^^ n) (auth_run_init L cfg) s" "auth_config_ok L cw cr limit cfg"
  shows "spec_step\<^sup>*\<^sup>* (spec_start (length (ac_seeds cfg))) (auth_run_presents cfg s) \<and>
    (\<forall>t. auth_run_step L cw cr cfg s t \<longrightarrow> spec_step\<^sup>*\<^sup>* (auth_run_presents cfg s) (auth_run_presents cfg t)) \<and>
    (\<forall>i < length (ac_seeds cfg). \<forall>nd. rn_started s ! i \<and> rn_nodes s ! i = Some nd \<longrightarrow>
       log (an_view nd) = take (learned (auth_run_presents cfg s) ! i) (chosen (auth_run_presents cfg s)))"
proof (intro conjI allI impI)
  let ?x = "\<lparr>ae_lib = L, ae_write = cw, ae_read = cr, ae_limit = limit, ae_cfg = cfg\<rparr>"
  have x: "env_ok ?x" using assms(2) by (simp add: env_ok_def)
  have l: "unat (ac_leader cfg) < length (ac_seeds cfg)" using envD(8) [OF x] by simp
  have W: "length (commands cfg) = length (ac_workload cfg)" by (simp add: commands_def)
  note L = auth_run.run_learned [OF _ x, of n s, simplified, OF assms(1)]
  show "spec_step\<^sup>*\<^sup>* (spec_start (length (ac_seeds cfg))) (auth_run_presents cfg s)"
    unfolding auth_run_presents_def
    using presented_reachable [of "unat (ac_leader cfg)" "learned_by auth_slots s" "commands cfg"] L l W by auto
  show "spec_step\<^sup>*\<^sup>* (auth_run_presents cfg s) (auth_run_presents cfg t)" if "auth_run_step L cw cr cfg s t" for t
  proof -
    from assms(1) that obtain k where "(auth_run_step L cw cr cfg ^^ k) (auth_run_init L cfg) t" by (metis relpowp_Suc_I)
    note M = auth_run.run_learned [OF _ x, of k t, simplified, OF this]
    show ?thesis unfolding auth_run_presents_def using L(3,4) M(1-3) that l W by (intro presented_grows) auto
  qed
  fix i nd assume i: "i < length (ac_seeds cfg)" and nd: "rn_started s ! i \<and> rn_nodes s ! i = Some nd"
  from auth_run_node [OF assms i conjunct2 [OF nd]] obtain m where
    "m \<le> length (commands cfg)" "log (an_view nd) = take m (commands cfg)" unfolding W by blast
  then show "log (an_view nd) = take (learned (auth_run_presents cfg s) ! i) (chosen (auth_run_presents cfg s))"
    unfolding auth_run_presents_def using L(1,3) [OF i] i nd
    by (intro presented_log) (auto simp: learned_by_def auth_slots_def)
qed

theorem auth_run_refines_broadcast_witness:
  "spec_step\<^sup>*\<^sup>* (spec_start 2) (auth_run_presents demo_auth_config (auth_run_init toy_ed25519 demo_auth_config))"
proof -
  have "(auth_run_step toy_ed25519 put (toy_read 256) demo_auth_config ^^ 0) (auth_run_init toy_ed25519 demo_auth_config)
      (auth_run_init toy_ed25519 demo_auth_config)" by simp
  from conjunct1 [OF auth_run_refines_broadcast [OF this demo_auth_config_ok(1)]] show ?thesis
    by (simp add: demo_auth_config_def)
qed

end
