(* ===== verification/Fuzz.thy ===== *)
theory Fuzz
  imports Wire Cbor_Instance
begin

text \<open>
  The fuzz target of the wire format (\<open>crates/dlc-fuzz/fuzz/fuzz_targets/cbor_roundtrip.rs\<close>): the
  generators, which read their choices from a source of bytes, and the three assertions
  about encoding.  The source is \<open>Unstructured\<close> of the \<open>arbitrary\<close> crate, a parameter.
  A depth is a \<open>u8\<close> that only falls and is tested at 0, here a natural number.
\<close>

section \<open>Sources\<close>

text \<open>Reading from a source may fail; what is left of it is the new source.\<close>

type_synonym ('u, 'a) gen = "'u \<Rightarrow> string + 'a \<times> 'u"

record 'u source =
  range_usize :: "nat \<Rightarrow> nat \<Rightarrow> ('u, nat) gen"
  range_u8 :: "u8 \<Rightarrow> u8 \<Rightarrow> ('u, u8) gen"
  arb_u8 :: "('u, u8) gen"
  arb_u32 :: "('u, u32) gen"
  arb_u64 :: "('u, u64) gen"
  fill_buffer :: "nat \<Rightarrow> ('u, bytes) gen"

definition gbind :: "('u, 'a) gen \<Rightarrow> ('a \<Rightarrow> ('u, 'b) gen) \<Rightarrow> ('u, 'b) gen" where
  "gbind m f u = and_then (m u) (\<lambda>(a, u1). f a u1)"

definition gret :: "'a \<Rightarrow> ('u, 'a) gen" where
  "gret a u = Inr (a, u)"

definition gmap1 :: "('a \<Rightarrow> 'b) \<Rightarrow> ('u, 'a) gen \<Rightarrow> ('u, 'b) gen" where
  "gmap1 c f = gbind f (\<lambda>a. gret (c a))"

definition gmap2 :: "('a \<Rightarrow> 'b \<Rightarrow> 'c) \<Rightarrow> ('u, 'a) gen \<Rightarrow> ('u, 'b) gen \<Rightarrow> ('u, 'c) gen" where
  "gmap2 c f g = gbind f (\<lambda>a. gbind g (\<lambda>b. gret (c a b)))"

definition gmap3 ::
    "('a \<Rightarrow> 'b \<Rightarrow> 'c \<Rightarrow> 'd) \<Rightarrow> ('u, 'a) gen \<Rightarrow> ('u, 'b) gen \<Rightarrow> ('u, 'c) gen \<Rightarrow> ('u, 'd) gen" where
  "gmap3 c f g h = gbind f (\<lambda>a. gbind g (\<lambda>b. gbind h (\<lambda>x. gret (c a b x))))"

section \<open>Generators\<close>

definition MAX_DEPTH :: nat where
  "MAX_DEPTH = 6"

primrec gen_caps :: "'u source \<Rightarrow> nat \<Rightarrow> ('u, u32 list) gen" where
  "gen_caps U 0 = gret []"
| "gen_caps U (Suc n) = gmap2 (#) (arb_u32 U) (gen_caps U n)"

definition gen_label :: "'u source \<Rightarrow> ('u, label) gen" where
  "gen_label U = gbind (range_usize U 0 8) (\<lambda>len. gmap1 Label (gen_caps U len))"

definition gen_principal_id :: "'u source \<Rightarrow> ('u, principal_id) gen" where
  "gen_principal_id U = gmap1 PrincipalId (fill_buffer U 32)"

primrec gen_principal :: "'u source \<Rightarrow> nat \<Rightarrow> ('u, principal) gen" where
  "gen_principal U 0 = gmap1 Atom_p (gen_principal_id U)"
| "gen_principal U (Suc d) = gbind (range_u8 U 0 3) (\<lambda>c.
     if c = 0 then gmap1 Atom_p (gen_principal_id U)
     else if c = 1 then gmap2 And_p (gen_principal U d) (gen_principal U d)
     else if c = 2 then gmap2 Or_p (gen_principal U d) (gen_principal U d)
     else gmap2 Acting (gen_principal U d) (gen_principal U d))"

definition gen_time :: "'u source \<Rightarrow> ('u, time_bound) gen" where
  "gen_time U = gmap1 (\<lambda>t. \<lparr>epoch_ms = t\<rparr>) (arb_u64 U)"

definition gen_signature :: "'u source \<Rightarrow> ('u, signature) gen" where
  "gen_signature U = gbind (arb_u8 U) (\<lambda>alg. gbind (range_usize U 0 128) (\<lambda>len.
     gmap1 (\<lambda>bs. \<lparr>sig_alg = alg, sig_bytes = bs\<rparr>) (fill_buffer U len)))"

definition gen_action_id :: "'u source \<Rightarrow> ('u, action_id) gen" where
  "gen_action_id U = gbind (range_usize U 0 16) (\<lambda>len. gmap1 ActionId (fill_buffer U len))"

definition gen_dp_budget :: "'u source \<Rightarrow> ('u, dp_budget) gen" where
  "gen_dp_budget U = gmap2 (\<lambda>e d. \<lparr>epsilon_micros = e, delta_micros = d\<rparr>) (arb_u64 U) (arb_u64 U)"

primrec gen_obligation :: "'u source \<Rightarrow> nat \<Rightarrow> ('u, obligation) gen" where
  "gen_obligation U 0 = gret Top_o"
| "gen_obligation U (Suc d) = gbind (range_u8 U 0 6) (\<lambda>c.
     if c = 0 then gret Top_o
     else if c = 1 then gret Bot_o
     else if c = 2 then gmap2 ActOf (gen_principal U d) (gen_action_id U)
     else if c = 3 then gmap1 Within_o (gen_time U)
     else if c = 4 then gmap2 Tensor_o (gen_obligation U d) (gen_obligation U d)
     else if c = 5 then gmap2 Lolli_o (gen_obligation U d) (gen_obligation U d)
     else gmap1 DpBudget_o (gen_dp_budget U))"

primrec gen_prop :: "'u source \<Rightarrow> nat \<Rightarrow> ('u, dprop) gen" where
  "gen_prop U 0 = gmap1 Atom (arb_u32 U)"
| "gen_prop U (Suc d) = gbind (range_u8 U 0 11) (\<lambda>c.
     if c = 0 then gret Top
     else if c = 1 then gret Bot
     else if c = 2 then gmap1 Atom (arb_u32 U)
     else if c = 3 then gmap2 Imp (gen_prop U d) (gen_prop U d)
     else if c = 4 then gmap2 And (gen_prop U d) (gen_prop U d)
     else if c = 5 then gmap2 Or (gen_prop U d) (gen_prop U d)
     else if c = 6 then gmap2 Says (gen_principal U d) (gen_prop U d)
     else if c = 7 then gmap2 SpeaksFor (gen_principal U d) (gen_principal U d)
     else if c = 8 then gmap2 At (gen_prop U d) (gen_label U)
     else if c = 9 then gmap2 Boxed (gen_obligation U d) (gen_prop U d)
     else if c = 10 then gmap2 Within (gen_time U) (gen_prop U d)
     else gmap2 Tensor (gen_prop U d) (gen_prop U d))"

primrec gen_term :: "'u source \<Rightarrow> nat \<Rightarrow> ('u, trm) gen" where
  "gen_term U 0 = gmap1 Var (arb_u32 U)"
| "gen_term U (Suc d) = gbind (range_u8 U 0 21) (\<lambda>c.
     if c = 0 then gmap1 Var (arb_u32 U)
     else if c = 1 then gmap2 Lam (gen_prop U d) (gen_term U d)
     else if c = 2 then gmap2 App (gen_term U d) (gen_term U d)
     else if c = 3 then gmap3 Sign (gen_principal U d) (gen_term U d) (gen_signature U)
     else if c = 4 then gmap3 Verify (gen_principal U d) (gen_term U d) (gen_signature U)
     else if c = 5 then gmap2 Delegate (gen_term U d) (gen_term U d)
     else if c = 6 then gmap2 Attenuate (gen_term U d) (gen_prop U d)
     else if c = 7 then gmap2 Discharge (gen_term U d) (gen_term U d)
     else if c = 8 then gmap2 LiftLabel (gen_label U) (gen_term U d)
     else if c = 9 then gmap3 Declassify (gen_label U) (gen_term U d) (gen_term U d)
     else if c = 10 then gmap1 Now (gen_time U)
     else if c = 11 then gmap2 WithinIntro (gen_time U) (gen_term U d)
     else if c = 12 then gmap2 Pair_t (gen_term U d) (gen_term U d)
     else if c = 13 then gmap1 Fst (gen_term U d)
     else if c = 14 then gmap1 Snd (gen_term U d)
     else if c = 15 then gmap2 Inl_t (gen_prop U d) (gen_term U d)
     else if c = 16 then gmap2 Inr_t (gen_prop U d) (gen_term U d)
     else if c = 17 then gmap3 Case (gen_term U d) (gen_term U d) (gen_term U d)
     else if c = 18 then gmap2 TensorIntro (gen_term U d) (gen_term U d)
     else if c = 19 then gmap2 LetTensor (gen_term U d) (gen_term U d)
     else if c = 20 then gmap3 LetSays (gen_principal U d) (gen_term U d) (gen_term U d)
     else gmap1 SfExtract (gen_term U d))"

datatype fuzz_term = FuzzTerm trm

definition fuzz_term_arbitrary :: "'u source \<Rightarrow> ('u, fuzz_term) gen" where
  "fuzz_term_arbitrary U = gmap1 FuzzTerm (gen_term U MAX_DEPTH)"

section \<open>The target\<close>

datatype fuzz_outcome =
    Rejected_input string
  | Passed
  | Decode_failed
  | Not_original
  | Not_canonical

definition fuzz_target ::
    "'u source \<Rightarrow> (cbor \<Rightarrow> bytes) \<Rightarrow> (bytes \<Rightarrow> string + cbor) \<Rightarrow> 'u \<Rightarrow> fuzz_outcome" where
  "fuzz_target U cw cr u = (case fuzz_term_arbitrary U u of
     Inl e \<Rightarrow> Rejected_input e
   | Inr (FuzzTerm t, u1) \<Rightarrow>
       (let b1 = encode cw t in
        case decode cr b1 of
          Inl e \<Rightarrow> Decode_failed
        | Inr t2 \<Rightarrow>
            if t \<noteq> t2 then Not_original
            else if encode cw t2 \<noteq> b1 then Not_canonical
            else Passed))"

section \<open>What is generated\<close>

text \<open>
  What the crate documents: a choice lies within its bounds, a buffer is filled to its
  length.
\<close>

definition source_ok :: "'u source \<Rightarrow> bool" where
  "source_ok U \<longleftrightarrow>
     (\<forall>lo hi u a u1. lo \<le> hi \<longrightarrow> range_usize U lo hi u = Inr (a, u1) \<longrightarrow> lo \<le> a \<and> a \<le> hi) \<and>
     (\<forall>n u bs u1. fill_buffer U n u = Inr (bs, u1) \<longrightarrow> length bs = n)"

text \<open>The grammar of the generators: what a depth allows.\<close>

primrec principal_in :: "principal \<Rightarrow> nat \<Rightarrow> bool" where
  "principal_in (Atom_p i) d \<longleftrightarrow> wf_pid i"
| "principal_in (And_p a b) d \<longleftrightarrow> 0 < d \<and> principal_in a (d - 1) \<and> principal_in b (d - 1)"
| "principal_in (Or_p a b) d \<longleftrightarrow> 0 < d \<and> principal_in a (d - 1) \<and> principal_in b (d - 1)"
| "principal_in (Acting a b) d \<longleftrightarrow> 0 < d \<and> principal_in a (d - 1) \<and> principal_in b (d - 1)"

definition label_in :: "label \<Rightarrow> bool" where
  "label_in l \<longleftrightarrow> length (caps l) \<le> 8"

definition signature_in :: "signature \<Rightarrow> bool" where
  "signature_in s \<longleftrightarrow> length (sig_bytes s) \<le> 128"

definition action_in :: "action_id \<Rightarrow> bool" where
  "action_in a \<longleftrightarrow> length (action_bytes a) \<le> 16"

primrec obligation_in :: "obligation \<Rightarrow> nat \<Rightarrow> bool" where
  "obligation_in Top_o d \<longleftrightarrow> True"
| "obligation_in Bot_o d \<longleftrightarrow> 0 < d"
| "obligation_in (ActOf p a) d \<longleftrightarrow> 0 < d \<and> principal_in p (d - 1) \<and> action_in a"
| "obligation_in (Within_o t) d \<longleftrightarrow> 0 < d"
| "obligation_in (Tensor_o a b) d \<longleftrightarrow> 0 < d \<and> obligation_in a (d - 1) \<and> obligation_in b (d - 1)"
| "obligation_in (Lolli_o a b) d \<longleftrightarrow> 0 < d \<and> obligation_in a (d - 1) \<and> obligation_in b (d - 1)"
| "obligation_in (DpBudget_o b) d \<longleftrightarrow> 0 < d"

primrec prop_in :: "dprop \<Rightarrow> nat \<Rightarrow> bool" where
  "prop_in Top d \<longleftrightarrow> 0 < d"
| "prop_in Bot d \<longleftrightarrow> 0 < d"
| "prop_in (Atom n) d \<longleftrightarrow> True"
| "prop_in (Imp a b) d \<longleftrightarrow> 0 < d \<and> prop_in a (d - 1) \<and> prop_in b (d - 1)"
| "prop_in (And a b) d \<longleftrightarrow> 0 < d \<and> prop_in a (d - 1) \<and> prop_in b (d - 1)"
| "prop_in (Or a b) d \<longleftrightarrow> 0 < d \<and> prop_in a (d - 1) \<and> prop_in b (d - 1)"
| "prop_in (Says p a) d \<longleftrightarrow> 0 < d \<and> principal_in p (d - 1) \<and> prop_in a (d - 1)"
| "prop_in (SpeaksFor p q) d \<longleftrightarrow> 0 < d \<and> principal_in p (d - 1) \<and> principal_in q (d - 1)"
| "prop_in (At a l) d \<longleftrightarrow> 0 < d \<and> prop_in a (d - 1) \<and> label_in l"
| "prop_in (Boxed ob a) d \<longleftrightarrow> 0 < d \<and> obligation_in ob (d - 1) \<and> prop_in a (d - 1)"
| "prop_in (Within t a) d \<longleftrightarrow> 0 < d \<and> prop_in a (d - 1)"
| "prop_in (Tensor a b) d \<longleftrightarrow> 0 < d \<and> prop_in a (d - 1) \<and> prop_in b (d - 1)"
| "prop_in (Lolli a b) d \<longleftrightarrow> False"
| "prop_in (Replicated a l) d \<longleftrightarrow> False"

primrec term_in :: "trm \<Rightarrow> nat \<Rightarrow> bool" where
  "term_in (Var i) d \<longleftrightarrow> True"
| "term_in (Lam p b) d \<longleftrightarrow> 0 < d \<and> prop_in p (d - 1) \<and> term_in b (d - 1)"
| "term_in (App f x) d \<longleftrightarrow> 0 < d \<and> term_in f (d - 1) \<and> term_in x (d - 1)"
| "term_in (Sign p m s) d \<longleftrightarrow> 0 < d \<and> principal_in p (d - 1) \<and> term_in m (d - 1) \<and> signature_in s"
| "term_in (Verify p m s) d \<longleftrightarrow> 0 < d \<and> principal_in p (d - 1) \<and> term_in m (d - 1) \<and> signature_in s"
| "term_in (Delegate m n) d \<longleftrightarrow> 0 < d \<and> term_in m (d - 1) \<and> term_in n (d - 1)"
| "term_in (Attenuate m p) d \<longleftrightarrow> 0 < d \<and> term_in m (d - 1) \<and> prop_in p (d - 1)"
| "term_in (SaysBind p s b) d \<longleftrightarrow> False"
| "term_in (Boxed_t ob m n) d \<longleftrightarrow> False"
| "term_in (Discharge m n) d \<longleftrightarrow> 0 < d \<and> term_in m (d - 1) \<and> term_in n (d - 1)"
| "term_in (LiftLabel l m) d \<longleftrightarrow> 0 < d \<and> label_in l \<and> term_in m (d - 1)"
| "term_in (Declassify l m p) d \<longleftrightarrow> 0 < d \<and> label_in l \<and> term_in m (d - 1) \<and> term_in p (d - 1)"
| "term_in (Now t) d \<longleftrightarrow> 0 < d"
| "term_in (WithinIntro t m) d \<longleftrightarrow> 0 < d \<and> term_in m (d - 1)"
| "term_in (Pair_t a b) d \<longleftrightarrow> 0 < d \<and> term_in a (d - 1) \<and> term_in b (d - 1)"
| "term_in (Fst a) d \<longleftrightarrow> 0 < d \<and> term_in a (d - 1)"
| "term_in (Snd a) d \<longleftrightarrow> 0 < d \<and> term_in a (d - 1)"
| "term_in (Inl_t p a) d \<longleftrightarrow> 0 < d \<and> prop_in p (d - 1) \<and> term_in a (d - 1)"
| "term_in (Inr_t p a) d \<longleftrightarrow> 0 < d \<and> prop_in p (d - 1) \<and> term_in a (d - 1)"
| "term_in (Case s a b) d \<longleftrightarrow> 0 < d \<and> term_in s (d - 1) \<and> term_in a (d - 1) \<and> term_in b (d - 1)"
| "term_in (TensorIntro a b) d \<longleftrightarrow> 0 < d \<and> term_in a (d - 1) \<and> term_in b (d - 1)"
| "term_in (LetTensor s b) d \<longleftrightarrow> 0 < d \<and> term_in s (d - 1) \<and> term_in b (d - 1)"
| "term_in (LetSays p s b) d \<longleftrightarrow> 0 < d \<and> principal_in p (d - 1) \<and> term_in s (d - 1) \<and> term_in b (d - 1)"
| "term_in (SfExtract m) d \<longleftrightarrow> 0 < d \<and> term_in m (d - 1)"
| "term_in (Command m c l) d \<longleftrightarrow> False"
| "term_in (RunCmd v s) d \<longleftrightarrow> False"

section \<open>The generators stay in the grammar\<close>

named_theorems gens_intro

definition gens :: "('a \<Rightarrow> bool) \<Rightarrow> ('u, 'a) gen \<Rightarrow> bool" where
  "gens P m \<longleftrightarrow> (\<forall>u a u1. m u = Inr (a, u1) \<longrightarrow> P a)"

lemma gens_bind: "gens Q m \<Longrightarrow> (\<And>a. Q a \<Longrightarrow> gens P (f a)) \<Longrightarrow> gens P (gbind m f)"
  by (auto simp: gens_def gbind_def ok_elim) blast

lemma gens_any: "gens (\<lambda>_. True) m"
  by (simp add: gens_def)

lemma gens_ret [gens_intro]: "P a \<Longrightarrow> gens P (gret a)"
  by (simp add: gens_def gret_def)

lemma gens_if [gens_intro]: "gens P m \<Longrightarrow> gens P n \<Longrightarrow> gens P (if b then m else n)"
  by simp

lemma gens_choice [gens_intro]: "(\<And>a. gens P (f a)) \<Longrightarrow> gens P (gbind (range_u8 U lo hi) f)"
  by (rule gens_bind [OF gens_any])

lemma gens_map1: "gens Q m \<Longrightarrow> (\<And>a. Q a \<Longrightarrow> P (c a)) \<Longrightarrow> gens P (gmap1 c m)"
  unfolding gmap1_def by (erule gens_bind) (rule gens_ret)

lemma gens_map2: "gens Q m \<Longrightarrow> gens R n \<Longrightarrow> (\<And>a b. Q a \<Longrightarrow> R b \<Longrightarrow> P (c a b)) \<Longrightarrow> gens P (gmap2 c m n)"
  unfolding gmap2_def by (erule gens_bind, erule gens_bind) (rule gens_ret)

lemma gens_map3:
  "gens Q m \<Longrightarrow> gens R n \<Longrightarrow> gens S k \<Longrightarrow> (\<And>a b x. Q a \<Longrightarrow> R b \<Longrightarrow> S x \<Longrightarrow> P (c a b x)) \<Longrightarrow> gens P (gmap3 c m n k)"
  unfolding gmap3_def by (erule gens_bind, erule gens_bind, erule gens_bind) (rule gens_ret)

lemma source_okD:
  assumes "source_ok U"
  shows "gens (\<lambda>a. a \<le> hi) (range_usize U 0 hi)" "gens (\<lambda>bs. length bs = n) (fill_buffer U n)"
  using assms unfolding source_ok_def gens_def by (metis le0, metis)

lemma gens_caps: "gens (\<lambda>cs. length cs = n) (gen_caps U n)"
  by (induction n) (auto intro: gens_ret gens_map2 [OF gens_any])

lemma gens_leaves:
  assumes "source_ok U"
  shows "gens label_in (gen_label U)" "gens wf_pid (gen_principal_id U)" "gens signature_in (gen_signature U)"
    "gens action_in (gen_action_id U)"
proof -
  note U = source_okD [OF assms]
  show "gens label_in (gen_label U)" unfolding gen_label_def
    by (rule gens_bind [OF U(1)], rule gens_map1 [OF gens_caps]) (simp add: label_in_def)
  show "gens wf_pid (gen_principal_id U)" unfolding gen_principal_id_def
    by (rule gens_map1 [OF U(2)]) (simp add: wf_pid_def)
  show "gens signature_in (gen_signature U)" unfolding gen_signature_def
    by (rule gens_bind [OF gens_any], rule gens_bind [OF U(1)], rule gens_map1 [OF U(2)]) (simp add: signature_in_def)
  show "gens action_in (gen_action_id U)" unfolding gen_action_id_def
    by (rule gens_bind [OF U(1)], rule gens_map1 [OF U(2)]) (simp add: action_in_def)
qed

lemmas gens_free = gens_any [of "arb_u32 U" for U] gens_any [of "gen_time U" for U] gens_any [of "gen_dp_budget U" for U]

lemma gens_principal:
  assumes "source_ok U"
  shows "gens (\<lambda>p. principal_in p d) (gen_principal U d)"
proof (induction d)
  case 0
  show ?case by (simp, rule gens_map1 [OF gens_leaves(2) [OF assms]]) simp
next
  case (Suc d)
  note G = Suc.IH gens_leaves(2) [OF assms]
  show ?case unfolding gen_principal.simps
    by (intro gens_choice gens_if; ((rule gens_map1, rule G) | (rule gens_map2, rule G, rule G)); simp)
qed

lemma gens_obligation:
  assumes "source_ok U"
  shows "gens (\<lambda>ob. obligation_in ob d) (gen_obligation U d)"
proof (induction d)
  case (Suc d)
  note G = Suc.IH gens_principal [OF assms] gens_leaves [OF assms] gens_free
  show ?case unfolding gen_obligation.simps
    by (intro gens_choice gens_if; (rule gens_ret | (rule gens_map1, rule G) | (rule gens_map2, rule G, rule G)); simp)
qed (simp add: gens_ret)

lemma gens_prop:
  assumes "source_ok U"
  shows "gens (\<lambda>p. prop_in p d) (gen_prop U d)"
proof (induction d)
  case 0
  show ?case by (simp, rule gens_map1 [OF gens_any]) simp
next
  case (Suc d)
  note G = Suc.IH gens_principal [OF assms] gens_obligation [OF assms] gens_leaves [OF assms] gens_free
  show ?case unfolding gen_prop.simps
    by (intro gens_choice gens_if; (rule gens_ret | (rule gens_map1, rule G) | (rule gens_map2, rule G, rule G)); simp)
qed

lemma gens_term:
  assumes "source_ok U"
  shows "gens (\<lambda>t. term_in t d) (gen_term U d)"
proof (induction d)
  case 0
  show ?case by (simp, rule gens_map1 [OF gens_any]) simp
next
  case (Suc d)
  note G = Suc.IH gens_principal [OF assms] gens_prop [OF assms] gens_leaves [OF assms] gens_free
  show ?case unfolding gen_term.simps
    by (intro gens_choice gens_if; ((rule gens_map1, rule G) | (rule gens_map2, rule G, rule G) |
        (rule gens_map3, rule G, rule G, rule G)); simp)
qed

text \<open>What the grammar allows is well formed and nests no deeper than its depth and one.\<close>

lemma principal_in_wf: "principal_in p d \<Longrightarrow> wf_principal p \<and> cdepth (enc_principal p) \<le> Suc d"
  by (induction p arbitrary: d) (force simp: enc_principal_id_def)+

lemma cdepth_label: "cdepth (enc_label l) = 1"
proof -
  have "fold max (map cdepth (map u32_int cs)) 0 = 0" for cs
    by (induction cs) (simp_all add: u32_int_def)
  then show ?thesis by (simp add: enc_label_def)
qed

lemma cdepth_leaves:
  "cdepth (u32_int n) = 0" "cdepth (enc_time t) = 0" "cdepth (enc_dp_budget b) = 1" "cdepth (enc_signature s) = 1"
  by (simp_all add: u32_int_def u64_int_def enc_time_def enc_dp_budget_def enc_signature_def)

lemma obligation_in_wf: "obligation_in ob d \<Longrightarrow> wf_obligation ob \<and> cdepth (enc_obligation ob) \<le> Suc d"
proof (induction ob arbitrary: d)
  case (ActOf p a)
  with principal_in_wf [of p "d - 1"] show ?case by (cases d) auto
qed (force simp: cdepth_leaves)+

lemma prop_in_wf: "prop_in p d \<Longrightarrow> wf_prop p \<and> cdepth (enc_prop p) \<le> Suc d"
proof (induction p arbitrary: d)
  case (Says p a)
  with principal_in_wf [of p "d - 1"] Says.IH [of "d - 1"] show ?case by (cases d) auto
next
  case (SpeaksFor p q)
  with principal_in_wf [of p "d - 1"] principal_in_wf [of q "d - 1"] show ?case by (cases d) auto
next
  case (Boxed ob a)
  with obligation_in_wf [of ob "d - 1"] Boxed.IH [of "d - 1"] show ?case by (cases d) auto
qed (force simp: cdepth_leaves cdepth_label)+

lemma term_in_wf: "term_in t d \<Longrightarrow> wf_trm t \<and> cdepth (enc_term t) \<le> Suc d"
proof (induction t arbitrary: d)
  case (Lam p b)
  with prop_in_wf [of p "d - 1"] Lam.IH [of "d - 1"] show ?case by (cases d) auto
next
  case (Sign p m s)
  with principal_in_wf [of p "d - 1"] Sign.IH [of "d - 1"] show ?case by (cases d) (auto simp: cdepth_leaves)
next
  case (Verify p m s)
  with principal_in_wf [of p "d - 1"] Verify.IH [of "d - 1"] show ?case by (cases d) (auto simp: cdepth_leaves)
next
  case (Attenuate m p)
  with prop_in_wf [of p "d - 1"] Attenuate.IH [of "d - 1"] show ?case by (cases d) auto
next
  case (Inl_t p a)
  with prop_in_wf [of p "d - 1"] Inl_t.IH [of "d - 1"] show ?case by (cases d) auto
next
  case (Inr_t p a)
  with prop_in_wf [of p "d - 1"] Inr_t.IH [of "d - 1"] show ?case by (cases d) auto
next
  case (LetSays p s b)
  with principal_in_wf [of p "d - 1"] LetSays.IH [of "d - 1"] show ?case by (cases d) auto
qed (force simp: cdepth_leaves cdepth_label)+

section \<open>The generators reach the whole grammar\<close>

text \<open>A source that holds its choices one by one.\<close>

definition pop :: "(nat \<Rightarrow> 'a) \<Rightarrow> (nat list, 'a) gen" where
  "pop f u = (case u of [] \<Rightarrow> Inl ''empty'' | x # xs \<Rightarrow> Inr (f x, xs))"

definition tape :: "nat list source" where
  "tape = \<lparr>range_usize = (\<lambda>lo hi. pop (\<lambda>x. if lo \<le> x \<and> x \<le> hi then x else lo)),
     range_u8 = (\<lambda>lo hi. pop of_nat), arb_u8 = pop of_nat, arb_u32 = pop of_nat, arb_u64 = pop of_nat,
     fill_buffer = (\<lambda>n u. if length u < n then Inl ''empty'' else Inr (map of_nat (take n u), drop n u))\<rparr>"

lemma tape_ok: "source_ok tape"
  by (auto simp: source_ok_def tape_def pop_def split: list.splits if_splits)

definition reaches :: "(nat list, 'a) gen \<Rightarrow> 'a \<Rightarrow> bool" where
  "reaches m a \<longleftrightarrow> (\<exists>pre. \<forall>rest. m (pre @ rest) = Inr (a, rest))"

lemma reaches_ret [simp]: "reaches (gret a) a"
  by (auto simp: reaches_def gret_def intro: exI [of _ "[]"])

lemma reaches_bind:
  assumes "reaches m a" "reaches (f a) b"
  shows "reaches (gbind m f) b"
proof -
  from assms obtain p q where "\<forall>rest. m (p @ rest) = Inr (a, rest)" "\<forall>rest. f a (q @ rest) = Inr (b, rest)"
    by (auto simp: reaches_def)
  then have "\<forall>rest. gbind m f ((p @ q) @ rest) = Inr (b, rest)" by (simp add: gbind_def)
  then show ?thesis unfolding reaches_def by blast
qed

lemma reaches_map1: "reaches m a \<Longrightarrow> reaches (gmap1 c m) (c a)"
  unfolding gmap1_def by (erule reaches_bind) simp

lemma reaches_map2: "reaches m a \<Longrightarrow> reaches n b \<Longrightarrow> reaches (gmap2 c m n) (c a b)"
  unfolding gmap2_def by (erule reaches_bind, erule reaches_bind) simp

lemma reaches_map3: "reaches m a \<Longrightarrow> reaches n b \<Longrightarrow> reaches k x \<Longrightarrow> reaches (gmap3 c m n k) (c a b x)"
  unfolding gmap3_def by (erule reaches_bind, erule reaches_bind, erule reaches_bind) simp

lemmas reaches_maps = reaches_map1 reaches_map2 reaches_map3

lemma reaches_pop: "f x = a \<Longrightarrow> reaches (pop f) a"
  by (auto simp: reaches_def pop_def intro: exI [of _ "[x]"])

lemma reaches_words [simp]:
  "reaches (arb_u8 tape) g" "reaches (arb_u32 tape) i" "reaches (arb_u64 tape) w"
  by (auto simp: tape_def intro: reaches_pop [of _ "unat g"] reaches_pop [of _ "unat i"] reaches_pop [of _ "unat w"])

lemma reaches_choice: "reaches (f c) b \<Longrightarrow> reaches (gbind (range_u8 tape lo hi) f) b"
  by (rule reaches_bind [of _ c]) (auto simp: tape_def intro: reaches_pop [of _ "unat c"])

lemma reaches_range: "n \<le> hi \<Longrightarrow> reaches (range_usize tape 0 hi) n"
  by (auto simp: tape_def intro: reaches_pop [of _ n])

lemma reaches_fill:
  assumes "length bs = n"
  shows "reaches (fill_buffer tape n) bs"
proof -
  have "fill_buffer tape n (map unat bs @ rest) = Inr (bs, rest)" for rest
    using assms by (simp add: tape_def comp_def)
  then show ?thesis by (auto simp: reaches_def)
qed

lemma reaches_caps: "reaches (gen_caps tape (length cs)) cs"
  by (induction cs) (auto intro: reaches_map2)

lemma reaches_leaves:
  "reaches (gen_time tape) t" "reaches (gen_dp_budget tape) b" "label_in l \<Longrightarrow> reaches (gen_label tape) l"
  "wf_pid i \<Longrightarrow> reaches (gen_principal_id tape) i" "signature_in s \<Longrightarrow> reaches (gen_signature tape) s"
  "action_in a \<Longrightarrow> reaches (gen_action_id tape) a"
proof -
  show "reaches (gen_time tape) t"
    unfolding gen_time_def using reaches_map1 [of "arb_u64 tape" "epoch_ms t" "\<lambda>t. \<lparr>epoch_ms = t\<rparr>"] by (cases t) simp
  show "reaches (gen_dp_budget tape) b"
    unfolding gen_dp_budget_def
    using reaches_map2 [of "arb_u64 tape" "epsilon_micros b" "arb_u64 tape" "delta_micros b"
        "\<lambda>e d. \<lparr>epsilon_micros = e, delta_micros = d\<rparr>"] by (cases b) simp
  show "reaches (gen_label tape) l" if "label_in l"
    unfolding gen_label_def using reaches_map1 [OF reaches_caps, of Label "caps l"] that
    by (intro reaches_bind [OF reaches_range [of "length (caps l)"]]) (simp_all add: label_in_def)
  show "reaches (gen_principal_id tape) i" if "wf_pid i"
    unfolding gen_principal_id_def using reaches_map1 [OF reaches_fill, of "pid_bytes i" 32 PrincipalId] that
    by (simp add: wf_pid_def)
  show "reaches (gen_signature tape) s" if "signature_in s"
    unfolding gen_signature_def
    using reaches_map1 [OF reaches_fill [OF refl], of "\<lambda>bs. \<lparr>sig_alg = sig_alg s, sig_bytes = bs\<rparr>" "sig_bytes s"] that
    by (intro reaches_bind [OF reaches_words(1) [of "sig_alg s"]] reaches_bind [OF reaches_range [of "length (sig_bytes s)"]])
      (cases s; simp add: signature_in_def)+
  show "reaches (gen_action_id tape) a" if "action_in a"
    unfolding gen_action_id_def using reaches_map1 [OF reaches_fill [OF refl], of ActionId "action_bytes a"] that
    by (intro reaches_bind [OF reaches_range [of "length (action_bytes a)"]]) (simp_all add: action_in_def)
qed

text \<open>Each constructor is a branch of the choice.\<close>

lemma reaches_principal: "principal_in p d \<Longrightarrow> reaches (gen_principal tape d) p"
proof (induction p arbitrary: d)
  case (Atom_p i)
  then show ?case
    by (cases d) (auto intro!: reaches_choice [of _ 0] reaches_map1 reaches_leaves)
next
  case (And_p a b)
  then show ?case by (cases d) (auto intro!: reaches_choice [of _ 1] reaches_map2)
next
  case (Or_p a b)
  then show ?case by (cases d) (auto intro!: reaches_choice [of _ 2] reaches_map2)
next
  case (Acting a b)
  then show ?case by (cases d) (auto intro!: reaches_choice [of _ 3] reaches_map2)
qed

lemma reaches_obligation: "obligation_in ob d \<Longrightarrow> reaches (gen_obligation tape d) ob"
proof (induction ob arbitrary: d)
  case Top_o
  then show ?case by (cases d) (auto intro!: reaches_choice [of _ 0] reaches_maps reaches_leaves reaches_principal)
next
  case Bot_o
  then show ?case by (cases d) (auto intro!: reaches_choice [of _ 1] reaches_maps reaches_leaves reaches_principal)
next
  case (ActOf p a)
  then show ?case by (cases d) (auto intro!: reaches_choice [of _ 2] reaches_maps reaches_leaves reaches_principal)
next
  case (Within_o t)
  then show ?case by (cases d) (auto intro!: reaches_choice [of _ 3] reaches_maps reaches_leaves reaches_principal)
next
  case (Tensor_o a b)
  then show ?case by (cases d) (auto intro!: reaches_choice [of _ 4] reaches_maps reaches_leaves reaches_principal)
next
  case (Lolli_o a b)
  then show ?case by (cases d) (auto intro!: reaches_choice [of _ 5] reaches_maps reaches_leaves reaches_principal)
next
  case (DpBudget_o b)
  then show ?case by (cases d) (auto intro!: reaches_choice [of _ 6] reaches_maps reaches_leaves reaches_principal)
qed

lemma reaches_prop: "prop_in p d \<Longrightarrow> reaches (gen_prop tape d) p"
proof (induction p arbitrary: d)
  case Top
  then show ?case by (cases d) (auto intro!: reaches_choice [of _ 0] reaches_maps reaches_leaves reaches_principal reaches_obligation)
next
  case Bot
  then show ?case by (cases d) (auto intro!: reaches_choice [of _ 1] reaches_maps reaches_leaves reaches_principal reaches_obligation)
next
  case (Atom n)
  then show ?case by (cases d) (auto intro!: reaches_choice [of _ 2] reaches_maps reaches_leaves reaches_principal reaches_obligation)
next
  case (Imp a b)
  then show ?case by (cases d) (auto intro!: reaches_choice [of _ 3] reaches_maps reaches_leaves reaches_principal reaches_obligation)
next
  case (And a b)
  then show ?case by (cases d) (auto intro!: reaches_choice [of _ 4] reaches_maps reaches_leaves reaches_principal reaches_obligation)
next
  case (Or a b)
  then show ?case by (cases d) (auto intro!: reaches_choice [of _ 5] reaches_maps reaches_leaves reaches_principal reaches_obligation)
next
  case (Says p a)
  then show ?case by (cases d) (auto intro!: reaches_choice [of _ 6] reaches_maps reaches_leaves reaches_principal reaches_obligation)
next
  case (SpeaksFor p q)
  then show ?case by (cases d) (auto intro!: reaches_choice [of _ 7] reaches_maps reaches_leaves reaches_principal reaches_obligation)
next
  case (At a l)
  then show ?case by (cases d) (auto intro!: reaches_choice [of _ 8] reaches_maps reaches_leaves reaches_principal reaches_obligation)
next
  case (Boxed ob a)
  then show ?case by (cases d) (auto intro!: reaches_choice [of _ 9] reaches_maps reaches_leaves reaches_principal reaches_obligation)
next
  case (Within t a)
  then show ?case by (cases d) (auto intro!: reaches_choice [of _ 10] reaches_maps reaches_leaves reaches_principal reaches_obligation)
next
  case (Tensor a b)
  then show ?case by (cases d) (auto intro!: reaches_choice [of _ 11] reaches_maps reaches_leaves reaches_principal reaches_obligation)
qed simp_all

lemma reaches_term: "term_in t d \<Longrightarrow> reaches (gen_term tape d) t"
proof (induction t arbitrary: d)
  case (Var i)
  then show ?case by (cases d) (auto intro!: reaches_choice [of _ 0] reaches_maps reaches_leaves reaches_principal reaches_prop)
next
  case (Lam p b)
  then show ?case by (cases d) (auto intro!: reaches_choice [of _ 1] reaches_maps reaches_leaves reaches_principal reaches_prop)
next
  case (App f x)
  then show ?case by (cases d) (auto intro!: reaches_choice [of _ 2] reaches_maps reaches_leaves reaches_principal reaches_prop)
next
  case (Sign p m s)
  then show ?case by (cases d) (auto intro!: reaches_choice [of _ 3] reaches_maps reaches_leaves reaches_principal reaches_prop)
next
  case (Verify p m s)
  then show ?case by (cases d) (auto intro!: reaches_choice [of _ 4] reaches_maps reaches_leaves reaches_principal reaches_prop)
next
  case (Delegate m n)
  then show ?case by (cases d) (auto intro!: reaches_choice [of _ 5] reaches_maps reaches_leaves reaches_principal reaches_prop)
next
  case (Attenuate m p)
  then show ?case by (cases d) (auto intro!: reaches_choice [of _ 6] reaches_maps reaches_leaves reaches_principal reaches_prop)
next
  case (Discharge m n)
  then show ?case by (cases d) (auto intro!: reaches_choice [of _ 7] reaches_maps reaches_leaves reaches_principal reaches_prop)
next
  case (LiftLabel l m)
  then show ?case by (cases d) (auto intro!: reaches_choice [of _ 8] reaches_maps reaches_leaves reaches_principal reaches_prop)
next
  case (Declassify l m p)
  then show ?case by (cases d) (auto intro!: reaches_choice [of _ 9] reaches_maps reaches_leaves reaches_principal reaches_prop)
next
  case (Now t)
  then show ?case by (cases d) (auto intro!: reaches_choice [of _ 10] reaches_maps reaches_leaves reaches_principal reaches_prop)
next
  case (WithinIntro t m)
  then show ?case by (cases d) (auto intro!: reaches_choice [of _ 11] reaches_maps reaches_leaves reaches_principal reaches_prop)
next
  case (Pair_t a b)
  then show ?case by (cases d) (auto intro!: reaches_choice [of _ 12] reaches_maps reaches_leaves reaches_principal reaches_prop)
next
  case (Fst a)
  then show ?case by (cases d) (auto intro!: reaches_choice [of _ 13] reaches_maps reaches_leaves reaches_principal reaches_prop)
next
  case (Snd a)
  then show ?case by (cases d) (auto intro!: reaches_choice [of _ 14] reaches_maps reaches_leaves reaches_principal reaches_prop)
next
  case (Inl_t p a)
  then show ?case by (cases d) (auto intro!: reaches_choice [of _ 15] reaches_maps reaches_leaves reaches_principal reaches_prop)
next
  case (Inr_t p a)
  then show ?case by (cases d) (auto intro!: reaches_choice [of _ 16] reaches_maps reaches_leaves reaches_principal reaches_prop)
next
  case (Case s a b)
  then show ?case by (cases d) (auto intro!: reaches_choice [of _ 17] reaches_maps reaches_leaves reaches_principal reaches_prop)
next
  case (TensorIntro a b)
  then show ?case by (cases d) (auto intro!: reaches_choice [of _ 18] reaches_maps reaches_leaves reaches_principal reaches_prop)
next
  case (LetTensor s b)
  then show ?case by (cases d) (auto intro!: reaches_choice [of _ 19] reaches_maps reaches_leaves reaches_principal reaches_prop)
next
  case (LetSays p s b)
  then show ?case by (cases d) (auto intro!: reaches_choice [of _ 20] reaches_maps reaches_leaves reaches_principal reaches_prop)
next
  case (SfExtract m)
  then show ?case by (cases d) (auto intro!: reaches_choice [of _ 21] reaches_maps reaches_leaves reaches_principal reaches_prop)
qed simp_all

section \<open>Properties\<close>

text \<open>C32: the fuzz target cannot fail.  Whatever the source yields, the term it makes is encoded and
  decoded back to itself, and encoded again to the same bytes, for every CBOR reader that allows
  seven levels of nesting; an input can at most be rejected because the source runs dry.\<close>

theorem fuzz_target_passes:
  assumes "source_ok U" "cbor_codec cw cr limit" "7 \<le> limit"
  shows "fuzz_target U cw cr u = Passed \<or> (\<exists>e. fuzz_target U cw cr u = Rejected_input e \<and> gen_term U MAX_DEPTH u = Inl e)"
proof (cases "gen_term U MAX_DEPTH u")
  case (Inl e)
  then show ?thesis by (simp add: fuzz_target_def fuzz_term_arbitrary_def gmap1_def gbind_def)
next
  case (Inr r)
  then obtain t u1 where t: "gen_term U MAX_DEPTH u = Inr (t, u1)" by (cases r) auto
  with gens_term [OF assms(1), of MAX_DEPTH] have "term_in t 6" by (auto simp: gens_def MAX_DEPTH_def)
  from term_in_wf [OF this] assms(3) have "decode cr (encode cw t) = Inr t"
    by (intro decode_encode [OF assms(2)]) auto
  with t show ?thesis
    by (simp add: fuzz_target_def fuzz_term_arbitrary_def gmap1_def gbind_def gret_def Let_def)
qed

theorem fuzz_target_passes_witness:
  "fuzz_target tape put (toy_read 256) [1, 0, 2, 7] = Passed \<or>
   (\<exists>e. fuzz_target tape put (toy_read 256) [1, 0, 2, 7] = Rejected_input e \<and> gen_term tape MAX_DEPTH [1, 0, 2, 7] = Inl e)"
  by (rule fuzz_target_passes [OF tape_ok toy_codec]) simp

text \<open>What the fuzzer covers.  A generated term lies in the grammar \<open>term_in\<close> of depth six, which has
  no \<open>SaysBind\<close>, \<open>Boxed\<close>, \<open>Command\<close> or \<open>RunCmd\<close> term and no \<open>Lolli\<close> or \<open>Replicated\<close> proposition; and every term
  of that grammar is generated from some source.\<close>

theorem fuzz_coverage:
  "(source_ok U \<and> gen_term U MAX_DEPTH u = Inr (t, u1) \<longrightarrow> term_in t 6) \<and>
   (term_in t 6 \<longrightarrow> (\<exists>v. gen_term tape MAX_DEPTH v = Inr (t, [])))"
proof -
  have "\<exists>v. gen_term tape MAX_DEPTH v = Inr (t, [])" if "term_in t 6"
    using reaches_term [OF that] unfolding reaches_def MAX_DEPTH_def by (metis append_Nil2)
  with gens_term [of U MAX_DEPTH] show ?thesis by (auto simp: gens_def MAX_DEPTH_def)
qed

theorem fuzz_coverage_witness:
  "\<exists>v. gen_term tape MAX_DEPTH v = Inr (Lam (Atom 7) (App (Var 0) (Now \<lparr>epoch_ms = 5\<rparr>)), [])"
  using fuzz_coverage [of tape "[]" "Lam (Atom 7) (App (Var 0) (Now \<lparr>epoch_ms = 5\<rparr>))" "[]"] by simp

end
