(* ===== verification/Render.thy ===== *)
theory Render
  imports Export
begin

text \<open>
  Text that the binaries print: lines, the derived \<open>Debug\<close> of the data of \<open>crates/dlc-core/src\<close>, and
  the compact rendering of a store in \<open>crates/dlc-d-node/src/main.rs\<close>.  A string is its UTF-8 bytes.
\<close>

section \<open>Characters and lines\<close>

definition utf8 :: "nat list \<Rightarrow> string" where
  "utf8 bs = map char_of bs"

definition em_dash :: string where
  "em_dash = utf8 [0xE2, 0x80, 0x94]"

definition box_char :: string where
  "box_char = utf8 [0xE2, 0x94, 0x80]"

definition arrow_char :: string where
  "arrow_char = utf8 [0xE2, 0x86, 0x92]"

definition lambda_char :: string where
  "lambda_char = utf8 [0xCE, 0xBB]"

definition langle :: string where
  "langle = utf8 [0xE2, 0x9F, 0xA8]"

definition rangle :: string where
  "rangle = utf8 [0xE2, 0x9F, 0xA9]"

definition pi_char :: string where
  "pi_char = utf8 [0xCF, 0x80]"

definition sub_one :: string where
  "sub_one = utf8 [0xE2, 0x82, 0x81]"

definition sub_two :: string where
  "sub_two = utf8 [0xE2, 0x82, 0x82]"

definition section_char :: string where
  "section_char = utf8 [0xC2, 0xA7]"

definition bullet :: string where
  "bullet = utf8 [0xE2, 0x80, 0xA2]"

definition println :: "string \<Rightarrow> string" where
  "println s = s @ [CHR 0x0A]"

definition show_bool :: "bool \<Rightarrow> string" where
  "show_bool b = (if b then ''true'' else ''false'')"

fun commas :: "string list \<Rightarrow> string" where
  "commas [] = []"
| "commas [s] = s"
| "commas (s # ss) = s @ '', '' @ commas ss"

section \<open>The derived format\<close>

text \<open>Of a list, of a constructor with its fields in order, and of a struct with named fields.\<close>

definition bracketed :: "string list \<Rightarrow> string" where
  "bracketed ss = ''['' @ commas ss @ '']''"

definition call :: "string \<Rightarrow> string list \<Rightarrow> string" where
  "call name fs = name @ ''('' @ commas fs @ '')''"

definition struct :: "string \<Rightarrow> (string \<times> string) list \<Rightarrow> string" where
  "struct name fs = name @ '' { '' @ commas (map (\<lambda>(f, v). f @ '': '' @ v) fs) @ '' }''"

definition debug_bytes :: "bytes \<Rightarrow> string" where
  "debug_bytes bs = bracketed (map (\<lambda>b. show_nat (unat b)) bs)"

primrec debug_principal :: "principal \<Rightarrow> string" where
  "debug_principal (Atom_p i) = call ''Atom'' [call ''PrincipalId'' [debug_bytes (pid_bytes i)]]"
| "debug_principal (And_p p q) = call ''And'' [debug_principal p, debug_principal q]"
| "debug_principal (Or_p p q) = call ''Or'' [debug_principal p, debug_principal q]"
| "debug_principal (Acting p q) = call ''Acting'' [debug_principal p, debug_principal q]"

definition debug_label :: "label \<Rightarrow> string" where
  "debug_label l = call ''Label'' [bracketed (map show_u32 (caps l))]"

definition debug_time :: "time_bound \<Rightarrow> string" where
  "debug_time t = struct ''TimeBound'' [(''epoch_ms'', show_nat (unat (epoch_ms t)))]"

definition debug_dp_budget :: "dp_budget \<Rightarrow> string" where
  "debug_dp_budget b = struct ''DpBudget'' [(''epsilon_micros'', show_nat (unat (epsilon_micros b))),
     (''delta_micros'', show_nat (unat (delta_micros b)))]"

definition debug_signature :: "signature \<Rightarrow> string" where
  "debug_signature s = struct ''Signature'' [(''alg'', show_nat (unat (sig_alg s))), (''bytes'', debug_bytes (sig_bytes s))]"

primrec debug_obligation :: "obligation \<Rightarrow> string" where
  "debug_obligation Top_o = ''Top''"
| "debug_obligation Bot_o = ''Bot''"
| "debug_obligation (ActOf p a) = call ''ActOf'' [debug_principal p, call ''ActionId'' [debug_bytes (action_bytes a)]]"
| "debug_obligation (Within_o t) = call ''Within'' [debug_time t]"
| "debug_obligation (Tensor_o a b) = call ''Tensor'' [debug_obligation a, debug_obligation b]"
| "debug_obligation (Lolli_o a b) = call ''Lolli'' [debug_obligation a, debug_obligation b]"
| "debug_obligation (DpBudget_o b) = call ''DpBudget'' [debug_dp_budget b]"

primrec debug_prop :: "dprop \<Rightarrow> string" where
  "debug_prop Top = ''Top''"
| "debug_prop Bot = ''Bot''"
| "debug_prop (Atom n) = call ''Atom'' [show_u32 n]"
| "debug_prop (Imp a b) = call ''Imp'' [debug_prop a, debug_prop b]"
| "debug_prop (And a b) = call ''And'' [debug_prop a, debug_prop b]"
| "debug_prop (Or a b) = call ''Or'' [debug_prop a, debug_prop b]"
| "debug_prop (Says p a) = call ''Says'' [debug_principal p, debug_prop a]"
| "debug_prop (SpeaksFor p q) = call ''SpeaksFor'' [debug_principal p, debug_principal q]"
| "debug_prop (At a l) = call ''At'' [debug_prop a, debug_label l]"
| "debug_prop (Boxed ob a) = call ''Boxed'' [debug_obligation ob, debug_prop a]"
| "debug_prop (Within t a) = call ''Within'' [debug_time t, debug_prop a]"
| "debug_prop (Tensor a b) = call ''Tensor'' [debug_prop a, debug_prop b]"
| "debug_prop (Lolli a b) = call ''Lolli'' [debug_prop a, debug_prop b]"
| "debug_prop (Replicated a l) = call ''Replicated'' [debug_prop a, debug_label l]"

primrec debug :: "trm \<Rightarrow> string" where
  "debug (Var i) = call ''Var'' [show_u32 i]"
| "debug (Lam p b) = call ''Lam'' [debug_prop p, debug b]"
| "debug (App f x) = call ''App'' [debug f, debug x]"
| "debug (Sign p m s) = call ''Sign'' [debug_principal p, debug m, debug_signature s]"
| "debug (Verify p m s) = call ''Verify'' [debug_principal p, debug m, debug_signature s]"
| "debug (Delegate m n) = call ''Delegate'' [debug m, debug n]"
| "debug (Attenuate m p) = call ''Attenuate'' [debug m, debug_prop p]"
| "debug (SaysBind p m n) = call ''SaysBind'' [debug_principal p, debug m, debug n]"
| "debug (Boxed_t ob m n) = call ''Boxed'' [debug_obligation ob, debug m, debug n]"
| "debug (Discharge m n) = call ''Discharge'' [debug m, debug n]"
| "debug (LiftLabel l m) = call ''LiftLabel'' [debug_label l, debug m]"
| "debug (Declassify l m n) = call ''Declassify'' [debug_label l, debug m, debug n]"
| "debug (Now t) = call ''Now'' [debug_time t]"
| "debug (WithinIntro t m) = call ''WithinIntro'' [debug_time t, debug m]"
| "debug (Pair_t a b) = call ''Pair'' [debug a, debug b]"
| "debug (Fst a) = call ''Fst'' [debug a]"
| "debug (Snd a) = call ''Snd'' [debug a]"
| "debug (Inl_t p a) = call ''Inl'' [debug_prop p, debug a]"
| "debug (Inr_t p a) = call ''Inr'' [debug_prop p, debug a]"
| "debug (Case s a b) = call ''Case'' [debug s, debug a, debug b]"
| "debug (TensorIntro a b) = call ''TensorIntro'' [debug a, debug b]"
| "debug (LetTensor s b) = call ''LetTensor'' [debug s, debug b]"
| "debug (LetSays p s b) = call ''LetSays'' [debug_principal p, debug s, debug b]"
| "debug (SfExtract m) = call ''SfExtract'' [debug m]"
| "debug (Command m c l) = call ''Command'' [debug m, debug c, debug_label l]"
| "debug (RunCmd v s) = call ''RunCmd'' [debug v, debug s]"

section \<open>A store at a glance\<close>

fun render :: "trm \<Rightarrow> string" where
  "render (Var i) = ''x'' @ show_u32 i"
| "render (Lam p b) = lambda_char @ ''.'' @ render b"
| "render (Pair_t a b) = langle @ render a @ '', '' @ render b @ rangle"
| "render (Fst a) = pi_char @ sub_one @ '' '' @ render a"
| "render (Snd a) = pi_char @ sub_two @ '' '' @ render a"
| "render (App f a) = ''('' @ render f @ '' '' @ render a @ '')''"
| "render t = debug t"

lemmas symbol_defs = utf8_def em_dash_def box_char_def arrow_char_def lambda_char_def langle_def rangle_def pi_char_def sub_one_def sub_two_def section_char_def bullet_def

end
