(* ===== verification/Bench.thy ===== *)
theory Bench
  imports Cli Admission Render
begin

text \<open>
  The benchmark of the golden-vector flow (\<open>crates/dlc-bench/src/bin/bench_vectors.rs\<close>): its tokens, the
  assertions that it repeats while it measures, the median that it takes, and the report that it
  prints.  The clock and the host's name are parameters; writing the report to its file is left out.
\<close>

section \<open>Measuring\<close>

definition ITERS :: nat where
  "ITERS = 2000"

text \<open>
  The work is an assertion, so it passes every time or panics the first time; \<open>elapsed i\<close> is what the clock
  shows for round \<open>i\<close>.  Without rounds there is no sample to index, a panic too.
\<close>

definition time_median :: "nat \<Rightarrow> bool \<Rightarrow> (nat \<Rightarrow> nat) \<Rightarrow> nat option" where
  "time_median iters passes elapsed =
     (if 0 < iters \<and> \<not> passes then None
      else let samples = sort (map elapsed [0..<iters]) in get_nth samples (length samples div 2))"

section \<open>Tokens\<close>

definition bench_ident :: "ed25519_lib \<Rightarrow> (bytes \<Rightarrow> bytes) \<Rightarrow> bytes \<Rightarrow> bytes \<times> bytes" where
  "bench_ident L sha256 seed = (let pk = ed25519_public_key L seed in (principal_id_of sha256 pk, pk))"

definition bench_sign_over :: "ed25519_lib \<Rightarrow> (cbor \<Rightarrow> bytes) \<Rightarrow> bytes \<Rightarrow> principal \<Rightarrow> trm \<Rightarrow> trm" where
  "bench_sign_over L cw seed p inner = (let canonical = canonical_bytes cw inner; sig = ed25519_sign L seed canonical in
     Sign p inner \<lparr>sig_alg = ALG_ED25519, sig_bytes = sig\<rparr>)"

text \<open>The keyring, and the two tokens with their claims.\<close>

definition bench_keyring :: "ed25519_lib \<Rightarrow> (bytes \<Rightarrow> bytes) \<Rightarrow> key_ring" where
  "bench_keyring L sha256 = (case (bench_ident L sha256 (replicate 32 0xaa), bench_ident L sha256 (replicate 32 0xbb)) of
     ((pid_a, pk_a), (pid_b, pk_b)) \<Rightarrow> \<lparr>entries =
       [\<lparr>kr_principal = PrincipalId pid_a, kr_alg = ALG_ED25519, public_key = pk_a\<rparr>,
        \<lparr>kr_principal = PrincipalId pid_b, kr_alg = ALG_ED25519, public_key = pk_b\<rparr>]\<rparr>)"

definition bench_principal :: "ed25519_lib \<Rightarrow> (bytes \<Rightarrow> bytes) \<Rightarrow> u8 \<Rightarrow> principal" where
  "bench_principal L sha256 b = Atom_p (PrincipalId (fst (bench_ident L sha256 (replicate 32 b))))"

definition issued :: "ed25519_lib \<Rightarrow> (cbor \<Rightarrow> bytes) \<Rightarrow> (bytes \<Rightarrow> bytes) \<Rightarrow> trm" where
  "issued L cw sha256 = bench_sign_over L cw (replicate 32 0xbb) (bench_principal L sha256 0xbb)
     (Now \<lparr>epoch_ms = 1750000000000\<rparr>)"

definition chain_token :: "ed25519_lib \<Rightarrow> (cbor \<Rightarrow> bytes) \<Rightarrow> (bytes \<Rightarrow> bytes) \<Rightarrow> trm" where
  "chain_token L cw sha256 = (let grant = bench_sign_over L cw (replicate 32 0xaa) (bench_principal L sha256 0xaa) (Var 0) in
     Attenuate (Delegate grant (issued L cw sha256)) Top)"

definition chain_claim :: "ed25519_lib \<Rightarrow> (bytes \<Rightarrow> bytes) \<Rightarrow> dprop" where
  "chain_claim L sha256 = Says (Acting (bench_principal L sha256 0xaa) (bench_principal L sha256 0xbb)) Top"

definition chain_assumption :: "ed25519_lib \<Rightarrow> (bytes \<Rightarrow> bytes) \<Rightarrow> dprop" where
  "chain_assumption L sha256 = SpeaksFor (bench_principal L sha256 0xbb) (bench_principal L sha256 0xaa)"

text \<open>The tool credential of the fourth measurement, with its keyring and issuer.\<close>

definition bench_tool :: bytes where
  "bench_tool = ascii ''SendEmail''"

definition ops_credential :: "ed25519_lib \<Rightarrow> key_ring \<times> principal \<times> signature" where
  "ops_credential L = (let ops_seed = replicate 32 5; ops_pk = ed25519_public_key L ops_seed;
       cap_msg = ascii ''dlc-d/cap-invoke:'' @ to_le_bytes (cap_atom bench_tool) in
     (\<lparr>entries = [\<lparr>kr_principal = PrincipalId ops_pk, kr_alg = ALG_ED25519, public_key = ops_pk\<rparr>]\<rparr>,
      Atom_p (PrincipalId ops_pk), \<lparr>sig_alg = ALG_ED25519, sig_bytes = ed25519_sign L ops_seed cap_msg\<rparr>))"

section \<open>The report\<close>

definition quoted :: "string \<Rightarrow> string" where
  "quoted s = [CHR 0x22] @ s @ [CHR 0x22]"

definition nl :: string where
  "nl = [CHR 0x0A]"

definition bench_json :: "string \<Rightarrow> bool \<Rightarrow> nat \<Rightarrow> nat \<Rightarrow> nat \<Rightarrow> nat \<Rightarrow> nat \<Rightarrow> nat \<Rightarrow> nat \<Rightarrow> string" where
  "bench_json arch dbg issued_len issued_ns chain_len chain_ns logic_ns admit_ns cap_atom_ns =
     ''{'' @ nl @
     ''  '' @ quoted ''generator'' @ '': '' @ quoted ''cargo run --release -p dlc-bench --bin bench-vectors'' @ '','' @ nl @
     ''  '' @ quoted ''host'' @ '': '' @ quoted arch @ '','' @ nl @
     ''  '' @ quoted ''profile'' @ '': '' @ quoted (if dbg then ''debug'' else ''release'') @ '','' @ nl @
     ''  '' @ quoted ''iterations'' @ '': '' @ show_nat ITERS @ '','' @ nl @
     ''  '' @ quoted ''comparison_formats'' @ '': '' @
     quoted (''PENDING '' @ em_dash @ '' DLC numbers only; JWT/Biscuit comparison requires adding those implementations'') @ '','' @ nl @
     ''  '' @ quoted ''results'' @ '': ['' @ nl @
     ''    {'' @ quoted ''name'' @ '': '' @ quoted ''issued-token'' @ '', '' @ quoted ''token_bytes'' @ '': '' @ show_nat issued_len @
     '', '' @ quoted ''verify_median_ns'' @ '': '' @ show_nat issued_ns @ ''},'' @ nl @
     ''    {'' @ quoted ''name'' @ '': '' @ quoted ''delegated-attenuated-chain'' @ '', '' @ quoted ''token_bytes'' @ '': '' @
     show_nat chain_len @ '', '' @ quoted ''verify_median_ns'' @ '': '' @ show_nat chain_ns @ ''},'' @ nl @
     ''    {'' @ quoted ''name'' @ '': '' @ quoted ''chain-logical-typing-only'' @ '', '' @ quoted ''token_bytes'' @ '': '' @
     show_nat chain_len @ '', '' @ quoted ''verify_median_ns'' @ '': '' @ show_nat logic_ns @ ''},'' @ nl @
     ''    {'' @ quoted ''name'' @ '': '' @ quoted ''admission-pep-admit'' @ '', '' @ quoted ''note'' @ '': '' @
     quoted (''dlc_d::runtime::admit '' @ em_dash @ '' one Ed25519 verify_in_keyring + FNV-1a cap binding, fail-closed; runtime re-derives nothing (typeability proved at compile time by admit_joint)'') @
     '', '' @ quoted ''verify_median_ns'' @ '': '' @ show_nat admit_ns @ ''},'' @ nl @
     ''    {'' @ quoted ''name'' @ '': '' @ quoted ''cap-atom-fnv1a-only'' @ '', '' @ quoted ''note'' @ '': '' @
     quoted (''cap_atom(tool) alone '' @ em_dash @ '' the tool->atom binding'') @ '', '' @ quoted ''verify_median_ns'' @ '': '' @
     show_nat cap_atom_ns @ ''}'' @ nl @
     ''  ]'' @ nl @
     ''}'' @ nl"

section \<open>The binary\<close>

text \<open>\<open>clock k\<close> measures the rounds of measurement \<open>k\<close>.  \<open>None\<close> is a panic, of an assertion or of \<open>unwrap\<close>.\<close>

definition bench_main :: "ed25519_lib \<Rightarrow> (cbor \<Rightarrow> bytes) \<Rightarrow> (bytes \<Rightarrow> string + cbor) \<Rightarrow> (bytes \<Rightarrow> bytes) \<Rightarrow>
    string \<Rightarrow> bool \<Rightarrow> (nat \<Rightarrow> nat \<Rightarrow> nat) \<Rightarrow> string option" where
  "bench_main L cw cr sha256 arch dbg clock =
     (let keyring = bench_keyring L sha256;
          issued_claim = Says (bench_principal L sha256 0xbb) Top;
          assumption = chain_assumption L sha256;
          issued_wire = encode cw (issued L cw sha256);
          chain_wire = encode cw (chain_token L cw sha256)
      in do {
        issued_ns \<leftarrow> time_median ITERS (verify L cw cr issued_wire issued_claim keyring = Some VOk) (clock 0);
        chain_ns \<leftarrow> time_median ITERS
          (verify_with_assumptions L cw cr chain_wire (chain_claim L sha256) keyring [assumption] = Some VOk) (clock 1);
        chain_term \<leftarrow> (case decode cr chain_wire of Inr t \<Rightarrow> Some t | Inl e \<Rightarrow> None);
        logic_ns \<leftarrow> time_median ITERS
          (decide_pure \<lparr>tp_ctx = \<lparr>additive = [assumption], linear = []\<rparr>, tp_term = chain_term, tp_prop = chain_claim L sha256\<rparr>)
          (clock 2);
        admitted \<leftarrow> (case ops_credential L of (ring, ops, sig) \<Rightarrow>
          if admit L ring ops bench_tool sig = Inr () then Some True else None);
        admit_ns \<leftarrow> (case ops_credential L of (ring, ops, sig) \<Rightarrow>
          time_median ITERS (admit L ring ops bench_tool sig = Inr ()) (clock 3));
        cap_atom_ns \<leftarrow> time_median ITERS True (clock 4);
        Some (bench_json arch dbg (length issued_wire) issued_ns (length chain_wire) chain_ns logic_ns admit_ns cap_atom_ns)
      })"

section \<open>The median\<close>

lemma sort_filter_length: "length (filter P (sort xs)) = length (filter P (xs :: nat list))"
  by (simp add: filter_sort)

lemma card_samples: "card {i. i < n \<and> P (f i)} = length (filter P (map f [0..<n]))"
  unfolding length_filter_conv_card by (rule arg_cong [where f = card]) auto

lemma length_filter_part:
  "length (filter P (take k xs)) \<le> length (filter P xs)" "length (filter P (drop k xs)) \<le> length (filter P xs)"
proof -
  have "length (filter P xs) = length (filter P (take k xs)) + length (filter P (drop k xs))"
    by (simp only: filter_append [symmetric] length_append [symmetric] append_take_drop_id)
  then show "length (filter P (take k xs)) \<le> length (filter P xs)" "length (filter P (drop k xs)) \<le> length (filter P xs)"
    by simp_all
qed

text \<open>The sample in the middle has half of the samples on either side.\<close>

lemma time_median_middle:
  assumes "0 < n"
  shows "\<exists>m. time_median n True f = Some m \<and> m \<in> f ` {..<n} \<and> n < 2 * card {i. i < n \<and> f i \<le> m} \<and> n \<le> 2 * card {i. i < n \<and> m \<le> f i}"
proof -
  let ?s = "sort (map f [0..<n])" and ?k = "n div 2"
  let ?m = "?s ! ?k"
  have k: "?k < length ?s" using assms by simp
  have mono: "?s ! i \<le> ?s ! j" if "i \<le> j" "j < n" for i j
    by (rule sorted_nth_mono) (use that in simp_all)
  have "?m \<in> set ?s" by (rule nth_mem [OF k])
  then have m: "?m \<in> f ` {..<n}" by auto
  have "filter (\<lambda>x. x \<le> ?m) (take (Suc ?k) ?s) = take (Suc ?k) ?s"
    using k by (auto simp: filter_id_conv in_set_conv_nth less_Suc_eq_le intro!: mono)
  then have "Suc ?k \<le> length (filter (\<lambda>x. x \<le> ?m) ?s)"
    using k length_filter_part(1) [of "\<lambda>x. x \<le> ?m" "Suc ?k" ?s] by simp
  then have le: "n < 2 * card {i. i < n \<and> f i \<le> ?m}"
    unfolding card_samples [where P = "\<lambda>x. x \<le> ?m"] sort_filter_length by simp
  have "filter (\<lambda>x. ?m \<le> x) (drop ?k ?s) = drop ?k ?s"
    using k by (auto simp: filter_id_conv in_set_conv_nth less_Suc_eq_le intro!: mono)
  then have "n - ?k \<le> length (filter (\<lambda>x. ?m \<le> x) ?s)"
    using length_filter_part(2) [of "\<lambda>x. ?m \<le> x" ?k ?s] by simp
  then have "n \<le> 2 * card {i. i < n \<and> ?m \<le> f i}"
    unfolding card_samples [where P = "\<lambda>x. ?m \<le> x"] sort_filter_length by simp
  with m le show ?thesis using assms k by (auto simp: time_median_def Let_def get_nth_def)
qed

section \<open>The tokens verify\<close>

lemma bench_keyring_finds:
  assumes "fst (bench_ident L sha256 (replicate 32 0xaa)) \<noteq> fst (bench_ident L sha256 (replicate 32 0xbb))" "b = 0xaa \<or> b = 0xbb"
  shows "holds_key L (bench_keyring L sha256) (PrincipalId (fst (bench_ident L sha256 (replicate 32 b)))) (replicate 32 b)"
  using assms by (auto simp: holds_key_def bench_keyring_def bench_ident_def Let_def)

lemma bench_sign_as:
  "bench_sign_over L cw (replicate 32 b) (bench_principal L sha256 b) m =
     sign_as L cw (PrincipalId (fst (bench_ident L sha256 (replicate 32 b)))) (replicate 32 b) m"
  by (simp add: bench_sign_over_def bench_principal_def sign_as_def Let_def)

lemmas bench_defs = issued_def chain_token_def chain_claim_def chain_assumption_def bench_sign_over_def bench_principal_def
  bench_ident_def principal_id_of_def Let_def

lemma bench_decodes:
  assumes "cbor_codec cw cr limit" "4 \<le> limit" "\<forall>pk. length (sha256 pk) = 32"
  shows "decode cr (encode cw (issued L cw sha256)) = Inr (issued L cw sha256)"
    "decode cr (encode cw (chain_token L cw sha256)) = Inr (chain_token L cw sha256)"
  using assms(2,3)
  by (auto intro!: decode_encode [OF assms(1)] simp: bench_defs wf_pid_def
      enc_principal_id_def enc_time_def enc_signature_def u32_int_def u64_int_def)

lemma bench_typed:
  "infer \<lparr>additive = [], linear = []\<rparr> (issued L cw sha256) = Some (Says (bench_principal L sha256 0xbb) Top)"
  "infer \<lparr>additive = [chain_assumption L sha256], linear = []\<rparr> (chain_token L cw sha256) = Some (chain_claim L sha256)"
  by (simp_all add: bench_defs delegate_says_def attenuate_says_def infer_var_def)

lemma bench_signed:
  assumes "ed25519_ok L" "fst (bench_ident L sha256 (replicate 32 0xaa)) \<noteq> fst (bench_ident L sha256 (replicate 32 0xbb))"
  shows "\<forall>s \<in> set (subterms (issued L cw sha256)). sig_ok L cw (bench_keyring L sha256) s"
    "\<forall>s \<in> set (subterms (chain_token L cw sha256)). sig_ok L cw (bench_keyring L sha256) s"
proof -
  have "sig_ok L cw (bench_keyring L sha256) (bench_sign_over L cw (replicate 32 b) (bench_principal L sha256 b) m)"
    if "b = 0xaa \<or> b = 0xbb" for b m
    unfolding bench_sign_as by (rule sign_as_ok [OF assms(1) bench_keyring_finds [OF assms(2) that]])
  from this [of "0xaa" "Var 0"] this [of "0xbb" "Now \<lparr>epoch_ms = 1750000000000\<rparr>"] show
    "\<forall>s \<in> set (subterms (issued L cw sha256)). sig_ok L cw (bench_keyring L sha256) s"
    "\<forall>s \<in> set (subterms (chain_token L cw sha256)). sig_ok L cw (bench_keyring L sha256) s"
    by (auto simp: issued_def chain_token_def bench_sign_over_def Let_def sig_ok_def)
qed

lemma ops_admitted:
  assumes "ed25519_ok L"
  shows "case ops_credential L of (ring, ops, sig) \<Rightarrow> admit L ring ops bench_tool sig = Inr ()"
  using ed25519_sign_verify [OF assms, of "replicate 32 5"]
  by (simp add: admit_ok verify_in_keyring_def ops_credential_def Let_def ALG_ED25519_def cap_message_def)

section \<open>Properties\<close>

text \<open>The benchmark measures what it says.  When the two identities have different principals, none of its
  assertions fails: the issued token and the delegated chain verify, the chain's typing problem is
  decided, the tool credential is admitted; and each time it reports is one that was measured, with
  more than half of the rounds no longer and at least half no shorter.\<close>

theorem bench_reports_medians:
  assumes "ed25519_ok L" "cbor_codec cw cr limit" "4 \<le> limit" "\<forall>pk. length (sha256 pk) = 32"
    "sha256 (ed25519_public_key L (replicate 32 0xaa)) \<noteq> sha256 (ed25519_public_key L (replicate 32 0xbb))"
  shows "\<exists>ns. bench_main L cw cr sha256 arch dbg clock =
      Some (bench_json arch dbg (length (encode cw (issued L cw sha256))) (ns 0)
        (length (encode cw (chain_token L cw sha256))) (ns 1) (ns 2) (ns 3) (ns 4)) \<and>
    (\<forall>k < 5. ns k \<in> clock k ` {..<2000} \<and> 2000 < 2 * card {i. i < 2000 \<and> clock k i \<le> ns k} \<and>
       2000 \<le> 2 * card {i. i < 2000 \<and> ns k \<le> clock k i})"
proof -
  define ns where "ns k = the (time_median ITERS True (clock k))" for k
  have n: "time_median ITERS True (clock k) = Some (ns k) \<and> ns k \<in> clock k ` {..<2000} \<and>
      2000 < 2 * card {i. i < 2000 \<and> clock k i \<le> ns k} \<and> 2000 \<le> 2 * card {i. i < 2000 \<and> ns k \<le> clock k i}" for k
    using time_median_middle [of ITERS "clock k"] by (auto simp: ITERS_def ns_def)
  have ids: "fst (bench_ident L sha256 (replicate 32 0xaa)) \<noteq> fst (bench_ident L sha256 (replicate 32 0xbb))"
    using assms(5) by (simp add: bench_ident_def principal_id_of_def Let_def)
  note D = bench_decodes [OF assms(2-4), of L]
  have V: "verify L cw cr (encode cw (issued L cw sha256)) (Says (bench_principal L sha256 0xbb) Top) (bench_keyring L sha256) = Some VOk"
    "verify_with_assumptions L cw cr (encode cw (chain_token L cw sha256)) (chain_claim L sha256) (bench_keyring L sha256)
      [chain_assumption L sha256] = Some VOk"
    using D bench_typed bench_signed [OF assms(1) ids] by (auto simp: verify_def verify_accepts)
  have T: "decide_pure \<lparr>tp_ctx = \<lparr>additive = [chain_assumption L sha256], linear = []\<rparr>, tp_term = chain_token L cw sha256,
      tp_prop = chain_claim L sha256\<rparr>"
    using bench_typed by (simp add: decide_pure_def)
  obtain ring ops sig where O: "ops_credential L = (ring, ops, sig)" "admit L ring ops bench_tool sig = Inr ()"
    using ops_admitted [OF assms(1)] by (cases "ops_credential L") auto
  have "bench_main L cw cr sha256 arch dbg clock =
      Some (bench_json arch dbg (length (encode cw (issued L cw sha256))) (ns 0)
        (length (encode cw (chain_token L cw sha256))) (ns 1) (ns 2) (ns 3) (ns 4))"
    by (simp add: bench_main_def Let_def D V T O n)
  with n show ?thesis by (intro exI [of _ ns]) blast
qed

theorem bench_reports_medians_witness:
  "\<exists>out. bench_main toy_ed25519 put (toy_read 4) (\<lambda>pk. if hd pk = 0xaa then replicate 32 1 else replicate 32 2)
     ''x86_64'' False (\<lambda>k i. i mod 7) = Some out"
proof -
  let ?h = "\<lambda>pk :: bytes. if hd pk = 0xaa then replicate 32 1 else replicate 32 2 :: bytes"
  have "\<forall>pk. length (?h pk) = 32" by simp
  moreover have "?h (ed25519_public_key toy_ed25519 (replicate 32 0xaa)) \<noteq> ?h (ed25519_public_key toy_ed25519 (replicate 32 0xbb))"
    by (simp add: ed25519_public_key_def toy_ed25519_def)
  ultimately show ?thesis
    using bench_reports_medians [OF toy_ed25519_ok toy_codec order.refl, of ?h "''x86_64''" False "\<lambda>k i. i mod 7"] by blast
qed

end
