(* ===== verification/Node_Main.thy ===== *)
theory Node_Main
  imports Demo Outcome Render
begin

text \<open>
  The demonstration binary of the authenticated node (\<open>crates/dlc-d-node/src/main.rs\<close>): four clusters run to
  their outcome, two equivocations, and what is printed about them.  What a configuration's cluster
  returns is a parameter; the property is about outcomes of settled runs.
\<close>

section \<open>The scenarios\<close>

definition run_config :: "ed25519_lib \<Rightarrow> (cbor \<Rightarrow> bytes) \<Rightarrow> roster \<Rightarrow> u32 \<Rightarrow> u32 list \<Rightarrow> failure_budget \<Rightarrow> auth_cluster_config" where
  "run_config L cw r n crashed b = \<lparr>ac_seeds = map (\<lambda>i. demo_seed (ucast (of_nat i :: u32))) [0..<unat n],
     ac_roster = r, ac_leader = 0, ac_init = init, ac_workload = [(cmd True, cap_for L cw (cmd True))],
     ac_crashed = crashed, ac_budget = b\<rparr>"

section \<open>What is printed\<close>

text \<open>\<open>report\<close>, from what it reads of the outcome; the last argument is the first store and whether it is the model's.\<close>

definition report_text :: "string \<Rightarrow> u32 list \<Rightarrow> nat \<Rightarrow> bool \<Rightarrow> bool \<Rightarrow> (trm \<times> bool) option \<Rightarrow> string" where
  "report_text title live slots conv compl first =
     println (box_char @ box_char @ '' '' @ title) @
     println (''   live replicas : '' @ bracketed (map show_u32 live)) @
     println (''   committed     : '' @ show_nat slots @ '' slot(s)'') @
     println (''   converged     : '' @ show_bool conv) @
     println (''   complete      : '' @ show_bool compl) @
     (case first of
        None \<Rightarrow> println (''   store         : (no live replica)'' @ [CHR 0x0A])
      | Some (s, same) \<Rightarrow> println (''   store         : '' @ render s) @
          println (''   == model      : '' @ show_bool same @ [CHR 0x0A]))"

definition report :: "string \<Rightarrow> auth_outcome \<Rightarrow> string option" where
  "report title r =
     (let model = apply_prefix init [cmd True] in
      case (out_converged r, out_stores r) of
        (Some conv, Some ss) \<Rightarrow> Some (report_text title (map fst (out_views r)) (out_committed r) conv (out_complete r)
          (map_option (\<lambda>s. (s, s = model)) (get_nth ss 0)))
      | _ \<Rightarrow> None)"

definition print_equiv :: "string \<Rightarrow> equiv_outcome \<Rightarrow> string" where
  "print_equiv title r =
     println (''   '' @ title @ '':'') @
     concat (map (\<lambda>(i, s). println (''       replica '' @ show_u32 i @ '' applied '' @ render s)) (eq_applied r)) @
     (if eq_applied r = [] then println ''       (no replica applied)'' else []) @
     println (''       diverged: '' @ show_bool (eq_diverged r) @ ''  ('' @
       (if eq_diverged r then ''SAFETY VIOLATED '' @ em_dash @ '' two honest replicas disagree''
        else ''safe '' @ em_dash @ '' no two honest replicas disagree'') @ '')'' @ [CHR 0x0A])"

definition banner :: string where
  "banner =
     println (''DLC-D '' @ em_dash @ '' the authenticated node, over the verified RSM transition core'') @
     println ''  transitions: dlc_core::rsm::{commit, world_step}   (R2-corresponded)'' @
     println ''  decision:    dlc_d_rsm::consensus::{decided, byz_decided}  (transported)'' @
     println ''  wire:        Ed25519 proposals / votes / quorum certificates (Tamarin+ProVerif)'' @
     println (''  transport:   in-process byte channels (TRUSTED '' @ em_dash @ '' spec/r6-1-node-design.md '' @ section_char @ ''5)'' @ [CHR 0x0A])"

definition equiv_banner :: string where
  "equiv_banner =
     println (box_char @ box_char @ '' equivocating leader: crash roster vs Byzantine roster'') @
     println (''   (leader seat 0 signs conflicting votes for two distinct commands)'' @ [CHR 0x0A])"

definition verdict :: "bool \<Rightarrow> bool \<Rightarrow> string" where
  "verdict crash byz =
     println (''   verdict: crash roster DIVERGED = '' @ show_bool crash @ ''; Byzantine roster DIVERGED = '' @ show_bool byz) @
     println (''   '' @ arrow_char @ '' the Byzantine quorum threshold is what defeats equivocation'') @
     println (''     (rust_byz_agreement, spec/r6-1b-replication-protocol.md '' @ section_char @ ''6.5)'')"

section \<open>The binary\<close>

text \<open>Its four clusters, with their titles.\<close>

definition node_scenarios ::
    "ed25519_lib \<Rightarrow> (cbor \<Rightarrow> bytes) \<Rightarrow> roster \<Rightarrow> roster \<Rightarrow> (string \<times> auth_cluster_config) list" where
  "node_scenarios L cw r3 r4 =
     [(''crash roster n=3, no faults'', run_config L cw r3 3 [] (fb_zero 1)),
      (''crash roster n=3, 1 crashed (within budget)'', run_config L cw r3 3 [2] ((fb_zero 1)\<lparr>consumed := 1\<rparr>)),
      (''crash roster n=3, 2 crashed (over budget '' @ arrow_char @ '' stall)'',
         run_config L cw r3 3 [1, 2] ((fb_zero 1)\<lparr>consumed := 2\<rparr>)),
      (''Byzantine roster n=4, no faults'', run_config L cw r4 4 [] (fb_zero 1))]"

fun reports :: "(auth_cluster_config \<Rightarrow> auth_outcome) \<Rightarrow> (string \<times> auth_cluster_config) list \<Rightarrow> string option" where
  "reports runs [] = Some []"
| "reports runs ((title, cfg) # rest) =
     (case (report title (runs cfg), reports runs rest) of
        (Some s, Some t) \<Rightarrow> Some (s @ t)
      | _ \<Rightarrow> None)"

definition node_main :: "ed25519_lib \<Rightarrow> (cbor \<Rightarrow> bytes) \<Rightarrow> (auth_cluster_config \<Rightarrow> auth_outcome) \<Rightarrow> string option" where
  "node_main L cw runs = (case (crash_roster L 3, byz_roster L 4) of
     (Some r3, Some r4) \<Rightarrow>
       (case (reports runs (node_scenarios L cw r3 r4), equivocation L cw r3 [1] [2], equivocation L cw r4 [1, 2] [3]) of
          (Some text, Some crash, Some byz) \<Rightarrow>
            Some (banner @ text @ equiv_banner @
              print_equiv ''crash roster n=3 (quorum 2)'' crash @
              print_equiv ''Byzantine roster n=4 (quorum 3)'' byz @
              verdict (eq_diverged crash) (eq_diverged byz))
        | _ \<Rightarrow> None)
   | _ \<Rightarrow> None)"

section \<open>Its clusters\<close>

lemma run_config_ok:
  assumes "ed25519_ok L" "cbor_codec cw cr limit" "4 \<le> limit" "with_quorum (keys L n) q = Some r" "2 \<le> n" "n \<le> 1000"
  shows "auth_config_ok L cw cr limit (run_config L cw r n crashed b)"
proof -
  have n: "2 \<le> unat n" "unat n \<le> 1000" using assms(5,6) by (simp_all add: word_le_nat_alt)
  have "wf_command (cmd True)" "shallow limit (cmd True)"
    using assms(3) by (simp_all add: wf_command_def shallow_def cmd_def u32_int_def)
  moreover have "verify_capability L cw (cap_for L cw c) c" for c
    using ed25519_sign_verify [OF assms(1)]
    by (simp add: verify_capability_def cap_for_def issue_capability_def issuer_seed_def demo_seed_def)
  ultimately show ?thesis using assms(1-4) n
    by (auto simp: auth_config_ok_def run_config_def with_quorum_Some roster_len_def keys_nth demo_seed_def)
qed

lemma run_config_live:
  "auth_live_seats (run_config L cw r n crashed b) = {i. i < unat n \<and> of_nat i \<notin> set crashed}"
  "live_list (run_config L cw r n crashed b) = filter (\<lambda>i. of_nat i \<notin> set crashed) [0..<unat n]"
  by (auto simp: auth_live_seats_def live_list_def run_config_def intro: filter_cong)

lemma report_settled:
  assumes "auth_cluster_settles L cw cr (run_config L cw r n crashed b) out" "ed25519_ok L" "cbor_codec cw cr limit" "4 \<le> limit"
    "with_quorum (keys L n) q = Some r" "2 \<le> n" "n \<le> 1000" "0 \<notin> set crashed"
    "live = filter (\<lambda>i. of_nat i \<notin> set crashed) [0..<unat n]"
  shows "report title out = Some (if quorum_reached q (length live) (unat n)
    then report_text title (map of_nat live) 1 True True (Some (Pair_t init init, True))
    else report_text title (map of_nat live) 0 True False (Some (init, False)))"
proof -
  let ?cfg = "run_config L cw r n crashed b"
  have r: "roster_len r = unat n" "rquorum r = q" using assms(5) by (auto simp: with_quorum_Some roster_len_def)
  have live: "auth_live_seats ?cfg = set live" "live_list ?cfg = live" and d: "distinct live"
    using assms(9) by (auto simp: run_config_live)
  have lead: "unat (ac_leader ?cfg) \<in> auth_live_seats ?cfg" "0 \<in> set live"
    using assms(6,8,9) unfolding live(1) by (auto simp: run_config_def word_le_nat_alt)
  then have first: "get_nth (map f live) 0 = Some (f (live ! 0))" for f :: "nat \<Rightarrow> trm"
    by (cases live) auto
  have quorum: "roster_is_quorum (ac_roster ?cfg) (card (set live)) \<longleftrightarrow> quorum_reached q (length live) (unat n)"
    unfolding distinct_card [OF d] by (simp add: run_config_def roster_is_quorum_def r)
  have cmds: "commands ?cfg = [cmd True]" "ac_init ?cfg = init" by (simp_all add: commands_def run_config_def)
  have stores: "apply_prefix init [cmd True] = Pair_t init init" "apply_prefix init [] = init"
    by (simp_all add: apply_prefix_fold cmd_applied)
  have neq: "init \<noteq> Pair_t init init" by (simp add: init_def)
  note S = outcome_settled [OF assms(1) run_config_ok [OF assms(2-7)] lead(1) refl, unfolded live quorum cmds]
  show ?thesis
    using S stores neq by (cases "quorum_reached q (length live) (unat n)") (simp_all add: report_def first)
qed

lemma four_seats: "[0..<3] = [0, 1, 2 :: nat]" "[0..<4] = [0, 1, 2, 3 :: nat]"
  by (simp_all add: upt_rec)

section \<open>Properties\<close>

text \<open>C23: the demonstration shows what it announces.  When its four clusters settle, the binary prints that the full
  crash cluster and the one with a crashed replica have committed the command on every live
  replica with the store of the model, that the one with two crashed replicas has stalled with its
  initial store, that the Byzantine cluster has committed, and that the equivocating leader has made
  replicas 1 and 2 of the crash roster diverge and none of the Byzantine roster.\<close>

theorem node_main_output:
  assumes "ed25519_ok L" "cbor_codec cw cr limit" "4 \<le> limit" "crash_roster L 3 = Some r3" "byz_roster L 4 = Some r4"
    "\<forall>cfg \<in> snd ` set (node_scenarios L cw r3 r4). auth_cluster_settles L cw cr cfg (runs cfg)"
  shows "node_main L cw runs = Some (banner @
    report_text ''crash roster n=3, no faults'' [0, 1, 2] 1 True True (Some (Pair_t init init, True)) @
    report_text ''crash roster n=3, 1 crashed (within budget)'' [0, 1] 1 True True (Some (Pair_t init init, True)) @
    report_text (''crash roster n=3, 2 crashed (over budget '' @ arrow_char @ '' stall)'') [0] 0 True False (Some (init, False)) @
    report_text ''Byzantine roster n=4, no faults'' [0, 1, 2, 3] 1 True True (Some (Pair_t init init, True)) @
    equiv_banner @
    print_equiv ''crash roster n=3 (quorum 2)'' \<lparr>eq_applied = [(1, Pair_t init init), (2, init)], eq_diverged = True\<rparr> @
    print_equiv ''Byzantine roster n=4 (quorum 3)''
      \<lparr>eq_applied = [(1, Pair_t init init), (2, Pair_t init init)], eq_diverged = False\<rparr> @
    verdict True False)"
proof -
  have r: "with_quorum (keys L 3) Crash = Some r3" "with_quorum (keys L 4) Byzantine = Some r4"
    using assms(4,5) by (simp_all add: crash_roster_def roster_new_def byz_roster_def roster_new_byzantine_def)
  have S: "auth_cluster_settles L cw cr cfg (runs cfg)" if "cfg \<in> snd ` set (node_scenarios L cw r3 r4)" for cfg
    using that assms(6) by blast
  note R = report_settled [OF S assms(1-3)]
  have reps: "report title (runs (run_config L cw r3 3 [] (fb_zero 1))) =
      Some (report_text title [0, 1, 2] 1 True True (Some (Pair_t init init, True)))"
    "report title (runs (run_config L cw r3 3 [2] ((fb_zero 1)\<lparr>consumed := 1\<rparr>))) =
      Some (report_text title [0, 1] 1 True True (Some (Pair_t init init, True)))"
    "report title (runs (run_config L cw r3 3 [1, 2] ((fb_zero 1)\<lparr>consumed := 2\<rparr>))) =
      Some (report_text title [0] 0 True False (Some (init, False)))"
    "report title (runs (run_config L cw r4 4 [] (fb_zero 1))) =
      Some (report_text title [0, 1, 2, 3] 1 True True (Some (Pair_t init init, True)))" for title
    by (subst R [OF _ r(1) _ _ _ refl] R [OF _ r(2) _ _ _ refl];
      simp add: node_scenarios_def four_seats quorum_reached_def)+
  have q: "roster_is_quorum r3 (Suc (Suc 0))" "roster_is_quorum r4 (Suc (Suc (Suc 0)))" "\<not> roster_is_quorum r4 (Suc (Suc 0))"
    using r by (auto simp: with_quorum_Some roster_is_quorum_def quorum_reached_def roster_len_def)
  show ?thesis
    using equivocation_eq [OF assms(1) r(1), of "[1]" "[2]" cw] equivocation_eq [OF assms(1) r(2), of "[1, 2]" "[3]" cw] q
    by (simp add: node_main_def assms(4,5) node_scenarios_def reps Let_def)
qed

theorem node_main_output_witness:
  "\<exists>runs pre. node_main toy_ed25519 put runs = Some (pre @ verdict True False)"
proof -
  let ?r3 = "\<lparr>members = keys toy_ed25519 3, rquorum = Crash\<rparr>" and ?r4 = "\<lparr>members = keys toy_ed25519 4, rquorum = Byzantine\<rparr>"
  have r: "with_quorum (keys toy_ed25519 3) Crash = Some ?r3" "with_quorum (keys toy_ed25519 4) Byzantine = Some ?r4"
    by (simp_all add: toy_roster)
  have ex: "\<exists>out. auth_cluster_settles toy_ed25519 put (toy_read 4) cfg out"
    if "cfg \<in> snd ` set (node_scenarios toy_ed25519 put ?r3 ?r4)" for cfg
    using that by (auto simp: node_scenarios_def
        intro!: cluster_settles run_config_ok [OF toy_ed25519_ok toy_codec _ r(1)] run_config_ok [OF toy_ed25519_ok toy_codec _ r(2)])
  define runs where "runs = (\<lambda>cfg. SOME out. auth_cluster_settles toy_ed25519 put (toy_read 4) cfg out)"
  have S: "\<forall>cfg \<in> snd ` set (node_scenarios toy_ed25519 put ?r3 ?r4). auth_cluster_settles toy_ed25519 put (toy_read 4) cfg (runs cfg)"
    unfolding runs_def by (intro ballI someI_ex [OF ex])
  have rosters: "crash_roster toy_ed25519 3 = Some ?r3" "byz_roster toy_ed25519 4 = Some ?r4"
    using r by (simp_all add: crash_roster_def roster_new_def byz_roster_def roster_new_byzantine_def)
  show ?thesis
    using node_main_output [OF toy_ed25519_ok toy_codec order.refl rosters, of runs, OF S,
        unfolded append_assoc [symmetric]] by blast
qed

end
