(* ===== verification/Ledger_Main.thy ===== *)
theory Ledger_Main
  imports Outcome Demo Render
begin

text \<open>
  The binary of the governed ledger (\<open>crates/dlc-d-ledger/src/main.rs\<close>): admission of the Treasury's credential,
  refusal of the other tool's, two governed writes on the authenticated cluster, and the exit code.
  What the cluster returns is a parameter, as in \<open>Node_Main\<close>.
\<close>

section \<open>The binary\<close>

text \<open>What it writes to its two streams, and its exit code.\<close>

record exited =
  ex_out :: string
  ex_err :: string
  ex_code :: nat

definition name_text :: "bytes \<Rightarrow> string" where
  "name_text bs = utf8 (map unat bs)"

definition debug_admit_error :: "admit_error \<Rightarrow> string" where
  "debug_admit_error e = (case e of Unauthorized \<Rightarrow> ''Unauthorized'')"

definition ledger_banner :: string where
  "ledger_banner =
     println (''DLC-D '' @ em_dash @ '' the governed replicated ledger'') @
     println (''  envelope:    cap = Invoke<Credit> @ Treasury, flow = Ledger <= Audit,'') @
     println ''               budget = Faults<1>, delegate = attenuate_only'' @
     println ''  transitions: dlc_core::rsm::{commit, world_step}   (R2-corresponded)'' @
     println (''  transport:   in-process byte channels (TRUSTED '' @ em_dash @ '' the honest TCB)'' @ [CHR 0x0A]) @
     println (box_char @ box_char @ '' 1. runtime admission (Ed25519 over the tool's cap atom, fail-closed)'')"

definition writes_banner :: string where
  "writes_banner =
     println (box_char @ box_char @ '' 2. governed writes (each demands its capability witness at the type level)'') @
     println ''   Treasury credit(2) and Teller credit(1) built'' @
     println ''   (the Teller's authority is a NARROWING delegation of the Treasury's:'' @
     println (''    delegating a tool the Treasury lacks fails to compile)'' @ [CHR 0x0A]) @
     println (box_char @ box_char @ '' 3. replication (authenticated cluster, n=4 Byzantine roster)'')"

definition closing :: string where
  "closing =
     println ([CHR 0x0A] @ box_char @ box_char @ '' what this run showed'') @
     println (''   '' @ bullet @ '' authority verified at run time (real signature, tool-bound, fail-closed)'') @
     println (''   '' @ bullet @ '' two governed writes, one issued by a NARROWED delegate'') @
     println (''   '' @ bullet @ '' replicated through the R2-corresponded transition core, every replica'') @
     println ''     agreeing with the model's own applyPrefix'' @
     println (''   '' @ bullet @ '' and the violations that would break any of it are compile errors:'') @
     println ''     ungranted tool, illegal flow, over-budget, widening delegation,'' @
     println (''     missing witness '' @ em_dash @ '' each pinned in tests/ui/'') @
     println ([CHR 0x0A] @ ''   Compilation is the proof. The same admission chain is enforcing tool'') @
     println ''   calls on nucleus's live kernel path today.''"

definition admitted_line :: string where
  "admitted_line = println (''   Treasury credential for '' @ [CHR 0x22] @ name_text Credit_NAME @ [CHR 0x22] @ '' '' @ arrow_char @ '' ADMITTED, witness minted'')"

definition refused_line :: string where
  "refused_line = println (''   Treasury credential for '' @ [CHR 0x22] @ name_text Seize_NAME @ [CHR 0x22] @ '' '' @ arrow_char @ '' REFUSED for Credit (tool-bound signature)'' @ [CHR 0x0A])"

definition ledger_config :: "ed25519_lib \<Rightarrow> (cbor \<Rightarrow> bytes) \<Rightarrow> roster \<Rightarrow> auth_cluster_config" where
  "ledger_config L cw r = (let root_cmd = credit 2; delegated_cmd = teller_credit 1 in
     \<lparr>ac_seeds = map (\<lambda>i. demo_seed (of_nat i)) [0..<4], ac_roster = r, ac_leader = 0, ac_init = ledger_init,
      ac_workload = [(root_cmd, issue_capability L cw issuer_seed root_cmd),
        (delegated_cmd, issue_capability L cw issuer_seed delegated_cmd)],
      ac_crashed = [], ac_budget = ledger_budget\<rparr>)"

definition replication_text :: "nat \<Rightarrow> bool \<Rightarrow> bool \<Rightarrow> string" where
  "replication_text slots conv matches_model =
     println (''   committed slots: '' @ show_nat slots) @
     println (''   replicas converged: '' @ show_bool conv) @
     println (''   every replica's store == the model's applyPrefix: '' @ show_bool matches_model)"

definition own_failure :: "admit_error \<Rightarrow> string" where
  "own_failure e = println (''   the demo's own credential failed to verify: '' @ debug_admit_error e)"

definition seize_failure :: string where
  "seize_failure = println ''   FAIL: a wrong-tool credential minted a Credit witness''"

definition replication_failure :: string where
  "replication_failure = println ([CHR 0x0A] @ ''FAIL: the governed ledger did not replicate as the model says.'')"

text \<open>The third part: the outcome is printed and judged.\<close>

definition replication :: "auth_outcome \<Rightarrow> exited option" where
  "replication r = (let expected = apply_prefix ledger_init [credit 2, teller_credit 1] in
     case (out_stores r, out_converged r) of
       (Some ss, Some conv) \<Rightarrow>
         (let matches_model = list_all (\<lambda>s. s = expected) ss;
              text = replication_text (out_committed r) conv matches_model
          in Some (if \<not> (conv \<and> matches_model \<and> out_committed r = 2)
            then \<lparr>ex_out = text, ex_err = replication_failure, ex_code = 1\<rparr>
            else \<lparr>ex_out = text @ closing, ex_err = [], ex_code = 0\<rparr>))
     | _ \<Rightarrow> None)"

definition ledger_main :: "ed25519_lib \<Rightarrow> (cbor \<Rightarrow> bytes) \<Rightarrow> (auth_cluster_config \<Rightarrow> auth_outcome) \<Rightarrow> exited option" where
  "ledger_main L cw runs = (case treasury_credential L Credit_NAME of (keyring, iss, credential) \<Rightarrow>
     (case admit_credit L keyring iss credential of
        Inl e \<Rightarrow> Some \<lparr>ex_out = ledger_banner,
          ex_err = own_failure e, ex_code = 1\<rparr>
      | Inr u \<Rightarrow>
          (case treasury_credential L Seize_NAME of (_, _, seize_credential) \<Rightarrow>
             (case admit_credit L keyring iss seize_credential of
                Inr u \<Rightarrow> Some \<lparr>ex_out = ledger_banner @ admitted_line,
                  ex_err = seize_failure, ex_code = 1\<rparr>
              | Inl e \<Rightarrow>
                  (case byz_roster L 4 of
                     None \<Rightarrow> None
                   | Some r \<Rightarrow> map_option (\<lambda>x. x\<lparr>ex_out := ledger_banner @ admitted_line @ refused_line @ writes_banner @ ex_out x\<rparr>)
                       (replication (runs (ledger_config L cw r))))))))"

text \<open>The Treasury's credential for the other tool, offered for \<open>Credit\<close>.\<close>

definition seize_refused :: "ed25519_lib \<Rightarrow> bool" where
  "seize_refused L \<longleftrightarrow> (case treasury_credential L Seize_NAME of (keyring, iss, sig) \<Rightarrow> admit_credit L keyring iss sig \<noteq> Inr ())"

section \<open>The ledger's cluster\<close>

lemma pairs_depth: "cdepth (enc_term (((\<lambda>body. Pair_t body (Var 0)) ^^ k) (Var 0))) \<le> Suc k"
  by (induction k) (auto simp: u32_int_def)

lemma pairs_wf: "wf_trm (((\<lambda>body. Pair_t body (Var 0)) ^^ k) (Var 0))"
  by (induction k) simp_all

lemma credit_shallow:
  assumes "5 \<le> limit"
  shows "wf_command (credit n) \<and> shallow limit (credit n)"
proof -
  have "unat (min n 3) \<le> 3" using word_le_nat_alt [of "min n 3" 3] by simp
  with pairs_depth [of "unat (min n 3)"] assms show ?thesis
    by (simp add: wf_command_def shallow_def credit_def credit_payload_def pairs_wf u32_int_def)
qed

lemma teller_credit_eq: "teller_credit n = credit n"
  by (simp add: teller_credit_def credit_payload_command_def credit_def)

lemma ledger_config_ok:
  assumes "ed25519_ok L" "cbor_codec cw cr limit" "5 \<le> limit" "byz_roster L 4 = Some r"
  shows "auth_config_ok L cw cr limit (ledger_config L cw r)"
proof -
  from assms(4) have r: "distinct (keys L 4)" "members r = keys L 4" "rquorum r = Byzantine"
    by (auto simp: byz_roster_def roster_new_byzantine_def with_quorum_Some)
  have "verify_capability L cw (issue_capability L cw issuer_seed c) c" for c
    using ed25519_sign_verify [OF assms(1)] by (simp add: verify_capability_def issue_capability_def issuer_seed_def demo_seed_def)
  moreover have "ucast (word_of_nat i :: u32) = (word_of_nat i :: u8)" if "i < 4" for i
    using that by (simp add: less_Suc_eq numeral_eq_Suc) auto
  ultimately show ?thesis using assms(1-3) r credit_shallow [OF assms(3)]
    by (auto simp: auth_config_ok_def ledger_config_def Let_def roster_len_def keys_nth demo_seed_def teller_credit_eq)
qed

text \<open>The stores after none, one and both of the writes are different.\<close>

lemma ledger_stores:
  assumes "m \<le> 2"
  shows "apply_prefix ledger_init (take m [credit 2, credit 1]) = apply_prefix ledger_init [credit 2, credit 1] \<longleftrightarrow> m = 2"
proof -
  let ?i = ledger_init and ?s = "Pair_t (Pair_t ledger_init ledger_init) ledger_init"
  have "unat (min (2 :: u32) 3) = Suc (Suc 0)" "unat (min (1 :: u32) 3) = Suc 0" by simp_all
  then have stores: "apply_prefix ?i [] = ?i" "apply_prefix ?i [credit 2] = ?s" "apply_prefix ?i [credit 2, credit 1] = Pair_t ?s ?s"
    using credits_applied [of "[]"] credits_applied [of "[2]"] credits_applied [of "[2, 1]"] by (simp_all add: numeral_2_eq_2)
  have "?i \<noteq> Pair_t ?s ?s" by (simp add: ledger_init_def)
  moreover have "m = 0 \<or> m = 1 \<or> m = 2" using assms by auto
  ultimately show ?thesis using stores by (auto simp: ledger_init_def)
qed

text \<open>What the checks of the third part come to, for views that hold prefixes of the workload.\<close>

lemma replication_exact:
  assumes "\<forall>v \<in> set (map snd (out_views r)). \<exists>m. holds_prefix (ledger_config L cw q) m v"
  shows "\<exists>x. replication r = Some x \<and> (ex_code x = 0 \<longleftrightarrow> out_views r \<noteq> [] \<and>
    (\<forall>v \<in> snd ` set (out_views r). log v = [credit 2, teller_credit 1]))"
proof -
  obtain vs where vs: "map snd (out_views r) = vs" "snd ` set (out_views r) = set vs" "out_views r = [] \<longleftrightarrow> vs = []" by auto
  let ?both = "[credit 2, credit 1]"
  have work: "commands (ledger_config L cw q) = ?both" "ac_init (ledger_config L cw q) = ledger_init"
    "length (ac_workload (ledger_config L cw q)) = 2"
    by (simp_all add: commands_def ledger_config_def Let_def teller_credit_eq)
  have v: "length (log v) \<le> 2 \<and> (log v = ?both \<longleftrightarrow> length (log v) = 2) \<and> (\<exists>r. replicas v = [r]) \<and>
      (view_store v = apply_prefix ledger_init ?both \<longleftrightarrow> length (log v) = 2)" if "v \<in> set vs" for v
  proof -
    from assms that vs(1) obtain m where "holds_prefix (ledger_config L cw q) m v" by blast
    then have "m \<le> 2" "log v = take m ?both" "\<exists>r. replicas v = [r]" "view_store v = apply_prefix ledger_init (take m ?both)"
      by (auto simp: holds_prefix_def work)
    with ledger_stores [of m] show ?thesis by (auto simp: min_def)
  qed
  then have one: "\<forall>v \<in> set vs. \<exists>r. replicas v = [r]" by blast
  have A: "out_committed r = 2 \<longleftrightarrow> (\<exists>v \<in> set vs. length (log v) = 2)"
    using v unfolding out_committed_def committed_def foldl_max vs(1) by auto
  have B: "list_all (\<lambda>s. s = apply_prefix ledger_init ?both) (map view_store vs) \<longleftrightarrow> (\<forall>v \<in> set vs. length (log v) = 2)"
    using v by (auto simp: list_all_iff)
  have C: "(\<forall>v \<in> set vs. length (log v) = 2) \<Longrightarrow> \<forall>v \<in> set vs. view_store v = view_store (hd vs)"
    using v by (metis hd_in_set list.set_cases list.distinct(1))
  have "\<exists>x. replication r = Some x \<and> (ex_code x = 0 \<longleftrightarrow> (\<forall>v \<in> set vs. view_store v = view_store (hd vs)) \<and>
      list_all (\<lambda>s. s = apply_prefix ledger_init ?both) (map view_store vs) \<and> out_committed r = 2)"
    by (simp add: replication_def out_stores_def out_converged_def vs(1) single_views [OF one] teller_credit_eq Let_def)
  moreover have D: "(\<forall>v \<in> set vs. log v = ?both) \<longleftrightarrow> (\<forall>v \<in> set vs. length (log v) = 2)" using v by auto
  have "(\<forall>v \<in> set vs. view_store v = view_store (hd vs)) \<and>
      list_all (\<lambda>s. s = apply_prefix ledger_init ?both) (map view_store vs) \<and> out_committed r = 2 \<longleftrightarrow>
    vs \<noteq> [] \<and> (\<forall>v \<in> set vs. log v = ?both)"
    unfolding A B D using C by (cases vs) auto
  ultimately show ?thesis by (simp only: vs(2,3) teller_credit_eq)
qed

text \<open>All four seats are live, and a quorum.\<close>

lemma ledger_settled:
  assumes "auth_cluster_settles L cw cr (ledger_config L cw r) out" "ed25519_ok L" "cbor_codec cw cr limit" "5 \<le> limit"
    "byz_roster L 4 = Some r"
  shows "out_views out \<noteq> [] \<and> (\<forall>v \<in> snd ` set (out_views out). log v = [credit 2, teller_credit 1])"
proof -
  let ?cfg = "ledger_config L cw r"
  have live: "auth_live_seats ?cfg = {0..<4}" "live_list ?cfg = [0..<4]"
    by (auto simp: auth_live_seats_def live_list_def ledger_config_def Let_def filter_id_conv)
  have "roster_is_quorum (ac_roster ?cfg) (card (auth_live_seats ?cfg))" "unat (ac_leader ?cfg) \<in> auth_live_seats ?cfg"
    unfolding live using assms(5)
    by (auto simp: roster_is_quorum_def quorum_reached_def roster_len_def ledger_config_def Let_def byz_roster_def
        roster_new_byzantine_def with_quorum_Some)
  with outcome_settled(1,6) [OF assms(1) ledger_config_ok [OF assms(2-5)] this(2) refl] live(2) show ?thesis
    by (auto simp: commands_def ledger_config_def Let_def)
qed

section \<open>Properties\<close>

text \<open>C22: the ledger's exit code says what the run has shown.  However long the cluster was let run, the binary does
  not panic, and exits with 0 exactly when the other tool's credential was refused, some replica has
  published a view, and every published view holds both writes in order; when the run has settled
  only the refusal is left to decide.\<close>

theorem ledger_exit:
  assumes "ed25519_ok L" "cbor_codec cw cr limit" "5 \<le> limit" "byz_roster L 4 = Some r"
    "auth_cluster_returns L cw cr (ledger_config L cw r) (runs (ledger_config L cw r))"
  shows "\<exists>x. ledger_main L cw runs = Some x \<and>
    (ex_code x = 0 \<longleftrightarrow> seize_refused L \<and> out_views (runs (ledger_config L cw r)) \<noteq> [] \<and>
       (\<forall>v \<in> snd ` set (out_views (runs (ledger_config L cw r))). log v = [credit 2, teller_credit 1])) \<and>
    (auth_cluster_settles L cw cr (ledger_config L cw r) (runs (ledger_config L cw r)) \<longrightarrow>
       (ex_code x = 0 \<longleftrightarrow> seize_refused L))"
proof -
  let ?cfg = "ledger_config L cw r"
  from assms(5) obtain n s where s: "(auth_run_step L cw cr ?cfg ^^ n) (auth_run_init L ?cfg) s" "runs ?cfg = outcome_of ?cfg s"
    by (auto simp: auth_cluster_returns.simps)
  have "\<forall>v \<in> set (map snd (out_views (runs ?cfg))). \<exists>m. holds_prefix ?cfg m v"
    using published_prefix [OF s(1) ledger_config_ok [OF assms(1-4)]] s(2) by (fastforce simp: outcome_of_def)
  note this [THEN replication_exact]
  then obtain x where x: "replication (runs ?cfg) = Some x"
    "ex_code x = 0 \<longleftrightarrow> out_views (runs ?cfg) \<noteq> [] \<and> (\<forall>v \<in> snd ` set (out_views (runs ?cfg)). log v = [credit 2, teller_credit 1])"
    by (elim exE conjE)
  have same: "fst (treasury_credential L Seize_NAME) = fst (treasury_credential L Credit_NAME)"
    "fst (snd (treasury_credential L Seize_NAME)) = fst (snd (treasury_credential L Credit_NAME))"
    by (simp_all add: treasury_credential_def Let_def)
  obtain k p sig1 where T1: "treasury_credential L Credit_NAME = (k, p, sig1)" by (rule prod_cases3)
  with same obtain sig2 where T2: "treasury_credential L Seize_NAME = (k, p, sig2)"
    by (cases "treasury_credential L Seize_NAME") auto
  note T = T1 T2
  have "admit_credit L k p sig1 = Inr ()" using treasury_admitted [OF assms(1), of Credit_NAME] by (simp add: admit_credit_def T)
  moreover have "out_views (runs ?cfg) \<noteq> [] \<and> (\<forall>v \<in> snd ` set (out_views (runs ?cfg)). log v = [credit 2, teller_credit 1])"
    if "auth_cluster_settles L cw cr ?cfg (runs ?cfg)"
    using ledger_settled [OF that assms(1-4)] .
  ultimately show ?thesis
    using x assms(4) by (cases "admit_credit L k p sig2") (simp_all add: ledger_main_def seize_refused_def T)
qed

lemma seize_refused_iff:
  "seize_refused L \<longleftrightarrow> ed25519_verify L (ed25519_public_key L (replicate 32 0x7a)) (cap_message (cap_atom Credit_NAME))
     (ed25519_sign L (replicate 32 0x7a) (cap_message (cap_atom Seize_NAME))) \<noteq> Inr ()"
  by (simp add: seize_refused_def admit_credit_def admit_ok verify_in_keyring_ok treasury_credential_def Let_def
      cap_message_def ALG_ED25519_def)

lemma toy_signature_binds:
  assumes "length pk = 32" "length m = 21" "length n = 21" "ed25519_verify toy_ed25519 pk m (ed25519_sign toy_ed25519 pk n) = Inr ()"
  shows "m = n"
  using assms by (simp add: ed25519_verify_ok ed25519_sign_def toy_ed25519_def)

lemma seize_refused_toy: "seize_refused toy_ed25519"
proof -
  have "cap_message (cap_atom Credit_NAME) \<noteq> cap_message (cap_atom Seize_NAME)"
    by (simp add: cap_message_inj tool_atoms_differ)
  moreover have "length (cap_message a) = 21" for a by (simp add: cap_message_def ascii_def to_le_bytes_def)
  moreover have "ed25519_public_key toy_ed25519 seed = seed" for seed by (simp add: ed25519_public_key_def toy_ed25519_def)
  ultimately show ?thesis unfolding seize_refused_iff
    using toy_signature_binds [of "replicate 32 0x7a" "cap_message (cap_atom Credit_NAME)" "cap_message (cap_atom Seize_NAME)"]
    by auto
qed

theorem ledger_exit_witness:
  "\<exists>runs x. ledger_main toy_ed25519 put runs = Some x \<and> ex_code x = 0"
proof -
  let ?r = "\<lparr>members = keys toy_ed25519 4, rquorum = Byzantine\<rparr>"
  have r: "byz_roster toy_ed25519 4 = Some ?r" by (simp add: byz_roster_def roster_new_byzantine_def toy_roster)
  from cluster_settles [OF ledger_config_ok [OF toy_ed25519_ok toy_codec order.refl r]] obtain out where
    out: "auth_cluster_settles toy_ed25519 put (toy_read 5) (ledger_config toy_ed25519 put ?r) out" by blast
  then have "auth_cluster_returns toy_ed25519 put (toy_read 5) (ledger_config toy_ed25519 put ?r) out"
    by (auto simp: auth_cluster_settles.simps auth_cluster_returns.simps)
  from ledger_exit [OF toy_ed25519_ok toy_codec order.refl r, of "\<lambda>_. out", OF this] out seize_refused_toy show ?thesis by blast
qed

end
