(* ===== verification/Ledger_Crate.thy ===== *)
theory Ledger_Crate
  imports Authority
begin

text \<open>
  The governed ledger as a crate (\<open>crates/dlc-d-ledger/src/lib.rs\<close>): its tools, issuers, labels and
  declarations, and the envelopes of its two services.  The property joins the compile-time gates,
  the certificate and the capability of the commands.
\<close>

section \<open>The crate and its services\<close>

definition ledger_crate :: crate where
  "ledger_crate = \<lparr>tool_names = [[''Credit''] \<mapsto> Credit_NAME, [''Seize''] \<mapsto> Seize_NAME],
     decls = [Grants [''Treasury''] [[''Credit'']], Delegates [''Treasury''] [''Teller''] [[''Credit'']]],
     flows = [([''Ledger''], [''Audit''])]\<rparr>"

definition credit_envelope :: envelope where
  "credit_envelope = \<lparr>env_cap = Some ([''Credit''], [''Treasury'']), env_flow = Some ([''Ledger''], [''Audit'']),
     env_budget = Some 1, env_delegate = Some ()\<rparr>"

definition teller_envelope :: envelope where
  "teller_envelope = \<lparr>env_cap = Some ([''Credit''], [''Teller'']), env_flow = Some ([''Ledger''], [''Audit'']),
     env_budget = Some 1, env_delegate = Some ()\<rparr>"

section \<open>Crates that build on it\<close>

text \<open>A crate that compiles and holds the ledger's declarations, and perhaps more.\<close>

definition extends_ledger :: "crate \<Rightarrow> bool" where
  "extends_ledger C \<longleftrightarrow> crate_ok C \<and> set (decls ledger_crate) \<subseteq> set (decls C) \<and> set (flows ledger_crate) \<subseteq> set (flows C) \<and>
     tool_names ledger_crate \<subseteq>\<^sub>m tool_names C"

lemma ledger_compiles: "extends_ledger ledger_crate"
  by (auto simp: extends_ledger_def crate_ok_def ledger_crate_def decl_ok_def granted_def)

lemma ledger_grants:
  assumes "extends_ledger C" "i = [''Treasury''] \<or> i = [''Teller'']"
  shows "granted C i t \<longleftrightarrow> t = [''Credit'']" "issuer_grants C i = Some [Credit_NAME]"
    "tool_names C [''Credit''] = Some Credit_NAME" "tool_names C [''Seize''] = Some Seize_NAME" "lineage C i"
proof -
  from assms(1) have C: "crate_ok C" "Grants [''Treasury''] [[''Credit'']] \<in> set (decls C)"
    "Delegates [''Treasury''] [''Teller''] [[''Credit'']] \<in> set (decls C)"
    and names: "tool_names ledger_crate \<subseteq>\<^sub>m tool_names C"
    by (auto simp: extends_ledger_def ledger_crate_def)
  then have "tool_names C t = Some n" if "tool_names ledger_crate t = Some n" for t n
    using that by (metis domI map_le_def)
  from this [of "[''Credit'']"] this [of "[''Seize'']"] show
    n: "tool_names C [''Credit''] = Some Credit_NAME" "tool_names C [''Seize''] = Some Seize_NAME"
    by (simp_all add: ledger_crate_def)
  from assms(2) have "\<exists>d \<in> set (decls C). declared d = i \<and> listed d = [[''Credit'']]"
    by (elim disjE) (rule bexI [OF _ C(2)], simp, rule bexI [OF _ C(3)], simp)
  then obtain d where d: "d \<in> set (decls C)" "declared d = i" "listed d = [[''Credit'']]" by blast
  have one: "d' = d" if "d' \<in> set (decls C)" "declared d' = i" for d'
    using C(1) d that by (auto simp: crate_ok_def distinct_map inj_on_def)
  show "granted C i t \<longleftrightarrow> t = [''Credit'']"
  proof
    assume "granted C i t"
    then obtain d' where "d' \<in> set (decls C)" "declared d' = i" "t \<in> set (listed d')" unfolding granted_def by blast
    with one [OF this(1,2)] d(3) show "t = [''Credit'']" by simp
  next
    assume "t = [''Credit'']"
    with d show "granted C i t" unfolding granted_def by (intro bexI [of _ d]) simp_all
  qed
  from d show "lineage C i" by (auto simp: lineage_def)
  have "find (\<lambda>d. declared d = i) (decls C) = Some d"
    using find_declared [of "decls C" d] C(1) d(1,2) by (simp add: crate_ok_def)
  with d n show "issuer_grants C i = Some [Credit_NAME]" by (simp add: issuer_grants_def)
qed

section \<open>Properties\<close>

text \<open>The ledger's authority is what its crate documents.  In every crate that compiles and holds its
  declarations, both services compile and their certificates are decided for the atom that their
  commands carry; the Treasury's and the Teller's services for \<open>Seize\<close> do not compile, their
  certificates are refused, and no delegation from the Treasury hands on anything but \<open>Credit\<close>.\<close>

theorem ledger_authority:
  assumes "extends_ledger C"
  shows "(\<forall>env \<in> {credit_envelope, teller_envelope}. service_ok C env \<and>
      (\<exists>problem. certificate_test C env = Some problem \<and> decide_pure problem \<and>
         (\<forall>n. cap (credit n) = map_option Atom (demanded_atom problem) \<and> cap (teller_credit n) = cap (credit n)))) \<and>
    (\<forall>env. \<forall>iss \<in> {[''Treasury''], [''Teller'']}. env_cap env = Some ([''Seize''], iss) \<longrightarrow> \<not> service_ok C env \<and>
      (\<exists>problem. certificate_test C env = Some problem \<and> \<not> decide_pure problem)) \<and>
    (\<forall>i ts. Delegates [''Treasury''] i ts \<in> set (decls C) \<longrightarrow> set ts = {[''Credit'']})"
proof (intro conjI ballI allI impI)
  note G = ledger_grants [OF assms]
  have flow: "flows_into C [''Ledger''] [''Audit'']"
    using assms by (auto simp: flows_into_def extends_ledger_def ledger_crate_def)
  fix env assume env: "env \<in> {credit_envelope, teller_envelope}"
  then obtain iss where iss: "iss = [''Treasury''] \<or> iss = [''Teller'']" "env = \<lparr>env_cap = Some ([''Credit''], iss),
      env_flow = Some ([''Ledger''], [''Audit'']), env_budget = Some 1, env_delegate = Some ()\<rparr>"
    by (auto simp: credit_envelope_def teller_envelope_def)
  show "service_ok C env" using G [OF iss(1)] flow by (auto simp: iss(2) service_ok_def lower_def emitted_ok_def)
  show "\<exists>problem. certificate_test C env = Some problem \<and> decide_pure problem \<and>
      (\<forall>n. cap (credit n) = map_option Atom (demanded_atom problem) \<and> cap (teller_credit n) = cap (credit n))"
    using G [OF iss(1)] by (simp add: iss(2) certificate_test_def cap_problem_granted demanded_atom_cap credit_def
        teller_credit_def credit_payload_command_def)
next
  note G = ledger_grants [OF assms]
  fix env :: envelope and iss assume iss: "iss \<in> {[''Treasury''], [''Teller'']}" "env_cap env = Some ([''Seize''], iss)"
  then have i: "iss = [''Treasury''] \<or> iss = [''Teller'']" by simp
  show "\<not> service_ok C env" using service_cap [of C env, OF _ iss(2)] G(1) [OF i] by auto
  show "\<exists>problem. certificate_test C env = Some problem \<and> \<not> decide_pure problem"
  proof -
    have "Seize_NAME \<noteq> Credit_NAME" using tool_atoms_differ by metis
    then have "\<not> decide_pure (cap_problem [Credit_NAME] (ascii (last iss)) Seize_NAME)"
      by (simp add: cap_problem_hd tool_atoms_differ)
    moreover have "certificate_test C env = Some (cap_problem [Credit_NAME] (ascii (last iss)) Seize_NAME)"
      using G(2,4) [OF i] iss(2) by (simp add: certificate_test_def)
    ultimately show ?thesis by blast
  qed
next
  fix i ts assume d: "Delegates [''Treasury''] i ts \<in> set (decls C)"
  then have "decl_ok C (Delegates [''Treasury''] i ts)" using assms by (simp add: extends_ledger_def crate_ok_def)
  then have "ts \<noteq> []" "\<forall>t \<in> set ts. granted C [''Treasury''] t" unfolding decl_ok_def by simp_all
  then show "set ts = {[''Credit'']}" unfolding ledger_grants(1) [OF assms disjI1 [OF refl]] by (cases ts) auto
qed

theorem ledger_authority_witness:
  "service_ok ledger_crate credit_envelope \<and> service_ok ledger_crate teller_envelope"
  using ledger_authority [OF ledger_compiles] by simp

end
