(* ===== verification/Wire_Tests.thy ===== *)
theory Wire_Tests
  imports Cbor_Instance Wire
begin

text \<open>
  The unit tests of the wire format (\<open>crates/dlc-protocol/src/wire.rs\<close>) as propositions
  about the model, for any CBOR library that reads back what it wrote down to sixteen
  levels of nesting.  The two tests of inputs that are no CBOR are about that library and are
  left out.
\<close>

section \<open>Round trips\<close>

definition round_trip :: "(cbor \<Rightarrow> bytes) \<Rightarrow> (bytes \<Rightarrow> string + cbor) \<Rightarrow> trm \<Rightarrow> bool" where
  "round_trip cw cr t \<longleftrightarrow> decode cr (encode cw t) = Inr t"

definition sevens :: principal where
  "sevens = Atom_p (PrincipalId (replicate 32 7))"

definition ab_sig :: signature where
  "ab_sig = \<lparr>sig_alg = 0, sig_bytes = replicate 64 0xAB\<rparr>"

text \<open>The terms that the \<open>rt_\<close> tests of \<open>wire.rs\<close> send around, in their order.\<close>

definition rt_atoms :: "trm list" where
  "rt_atoms =
    [Var 42,
     Lam (Atom 3) (Var 0),
     App (Lam (Atom 0) (Var 0)) (Var 5),
     Sign sevens (Var 0) ab_sig,
     Verify sevens (Var 0) ab_sig,
     Delegate (Sign sevens (Var 0) ab_sig) (Sign sevens (Var 1) ab_sig),
     Attenuate (Sign sevens (Var 0) ab_sig) (Atom 1),
     Discharge (Var 0) (Var 1),
     LiftLabel (Label [1, 2, 3]) (Var 0),
     Declassify (Label [1]) (Var 0) (Var 1),
     Now \<lparr>epoch_ms = 1700000000000\<rparr>,
     WithinIntro \<lparr>epoch_ms = 1700000000000\<rparr> (Var 0)]"

definition rt_connectives :: "trm list" where
  "rt_connectives =
    [Pair_t (Var 0) (Var 1),
     Fst (Pair_t (Var 0) (Var 1)),
     Snd (Pair_t (Var 0) (Var 1)),
     Inl_t (Atom 0) (Var 0),
     Inr_t (Atom 0) (Var 0),
     Case (Var 0) (Var 1) (Var 2),
     TensorIntro (Var 0) (Var 1),
     LetTensor (TensorIntro (Var 0) (Var 1)) (Var 0),
     LetSays sevens (Sign sevens (Var 0) ab_sig) (Var 0),
     SfExtract (Sign sevens (Var 0) ab_sig)]"

definition rt_deeply_nested :: trm where
  "rt_deeply_nested = foldl (\<lambda>acc _. Lam (Atom 0) acc) (Var 0) [0..<10]"

definition rt_full_delegation_chain :: trm where
  "rt_full_delegation_chain = (let speaks_for = Sign sevens (Var 0) ab_sig;
       says = Sign sevens (Var 1) ab_sig in
     Attenuate (Delegate speaks_for says) (Atom 7))"

section \<open>Canonical encodings\<close>

definition is_canonical :: "(cbor \<Rightarrow> bytes) \<Rightarrow> (bytes \<Rightarrow> string + cbor) \<Rightarrow> trm \<Rightarrow> bool" where
  "is_canonical cw cr t \<longleftrightarrow> (let b1 = encode cw t in
     case decode cr b1 of Inl e \<Rightarrow> False | Inr t2 \<Rightarrow> t2 = t \<and> encode cw t2 = b1)"

definition canonical_cases :: "(string \<times> trm) list" where
  "canonical_cases =
    [(''Var'', Var 42),
     (''Lam'', Lam (Atom 3) (Var 0)),
     (''App'', App (Var 1) (Var 2)),
     (''Sign'', Sign sevens (Var 0) ab_sig),
     (''Verify'', Verify sevens (Var 0) ab_sig),
     (''Delegate'', Delegate (Var 0) (Var 1)),
     (''Attenuate'', Attenuate (Var 0) Top),
     (''Discharge'', Discharge (Var 0) (Var 1)),
     (''LiftLabel'', LiftLabel (Label [1, 2, 3]) (Var 0)),
     (''Declassify'', Declassify (Label [4, 5]) (Var 0) (Var 1)),
     (''Now'', Now \<lparr>epoch_ms = 1700000000000\<rparr>),
     (''WithinIntro'', WithinIntro \<lparr>epoch_ms = 2000000000000\<rparr> (Var 0)),
     (''Pair'', Pair_t (Var 0) (Var 1)),
     (''Fst'', Fst (Var 0)),
     (''Snd'', Snd (Var 0)),
     (''Inl'', Inl_t (Atom 1) (Var 0)),
     (''Inr'', Inr_t (Atom 2) (Var 0)),
     (''Case'', Case (Var 0) (Var 1) (Var 2)),
     (''TensorIntro'', TensorIntro (Var 0) (Var 1)),
     (''LetTensor'', LetTensor (Var 0) (Var 1)),
     (''LetSays'', LetSays sevens (Var 0) (Var 1)),
     (''SfExtract'', SfExtract (Var 0)),
     (''SaysBind'', SaysBind sevens (Var 0) (Var 1)),
     (''Boxed'', Boxed_t (Tensor_o Top_o Bot_o) (Var 0) (Var 1))]"

definition canonical_roundtrip_all :: "(cbor \<Rightarrow> bytes) \<Rightarrow> (bytes \<Rightarrow> string + cbor) \<Rightarrow> bool" where
  "canonical_roundtrip_all cw cr \<longleftrightarrow>
     list_all (\<lambda>(name, t). is_canonical cw cr t) canonical_cases \<and> length canonical_cases = 24"

definition canonical_compound :: trm where
  "canonical_compound = (let
       inner = Delegate (Sign sevens (Var 0) ab_sig) (Sign sevens (Var 1) ab_sig);
       attenuated = Attenuate inner (Says sevens (Atom 7));
       labelled = LiftLabel (Label [1, 2, 3, 4]) attenuated in
     Case labelled (Var 0) (Var 1))"

definition canonical_seed_corpus :: "trm list" where
  "canonical_seed_corpus = (let
       p_q = And_p sevens sevens;
       acting = Acting p_q sevens in
    [Var (- 1),
     LiftLabel (Label []) (Var 0),
     LiftLabel (Label (map of_nat [0..<256])) (Var 0),
     Sign acting (Var 0) ab_sig])"

section \<open>All pass\<close>

definition within16 :: "trm \<Rightarrow> bool" where
  "within16 t \<longleftrightarrow> wf_trm t \<and> cdepth (enc_term t) \<le> 16"

lemma cdepth_wire_leaves [simp]: "cdepth (u32_int i) = 0" "cdepth (u64_int j) = 0"
  "cdepth (enc_time tau) = 0" "cdepth (enc_principal_id pid) = 0" "cdepth (enc_signature sg) = 1"
  by (simp_all add: u32_int_def u64_int_def enc_time_def enc_principal_id_def enc_signature_def)

lemma cdepth_caps: "cdepth (enc_label l) \<le> Suc k"
  by (simp add: enc_label_def fold_max)

lemma cdepth_caps' [simp]: "cdepth (enc_label l) \<le> numeral k"
  using cdepth_caps [of l "pred_numeral k"] by (simp add: numeral_eq_Suc)

lemma wf_sevens [simp]: "wf_principal sevens"
  by (simp add: sevens_def wf_pid_def)

lemma within16_terms:
  "list_all within16 (rt_atoms @ rt_connectives @ [rt_deeply_nested, rt_full_delegation_chain])"
  "list_all within16 (map snd canonical_cases)"
  "list_all within16 (canonical_compound # canonical_seed_corpus)"
  by (simp_all add: within16_def rt_atoms_def rt_connectives_def rt_deeply_nested_def
      rt_full_delegation_chain_def canonical_cases_def canonical_compound_def
      canonical_seed_corpus_def Let_def upt_conv_Cons) (simp_all add: sevens_def)

lemma round_trip_ok:
  assumes "cbor_codec cw cr limit" "16 \<le> limit" "within16 t"
  shows "round_trip cw cr t" "is_canonical cw cr t"
proof -
  have "cdepth (enc_term t) \<le> limit" using assms(2,3) by (auto simp: within16_def)
  with decode_encode [OF assms(1) _ this] assms(3)
  show "round_trip cw cr t" "is_canonical cw cr t"
    by (simp_all add: round_trip_def is_canonical_def within16_def Let_def)
qed

lemma wire_tests:
  assumes "cbor_codec cw cr limit" "16 \<le> limit"
  shows "list_all (round_trip cw cr)
      (rt_atoms @ rt_connectives @ [rt_deeply_nested, rt_full_delegation_chain])"
    "canonical_roundtrip_all cw cr"
    "list_all (is_canonical cw cr) (canonical_compound # canonical_seed_corpus)"
proof -
  note ok = round_trip_ok [OF assms]
  show "list_all (round_trip cw cr)
      (rt_atoms @ rt_connectives @ [rt_deeply_nested, rt_full_delegation_chain])"
    using within16_terms(1) ok(1) by (auto simp only: list_all_iff)
  show "list_all (is_canonical cw cr) (canonical_compound # canonical_seed_corpus)"
    using within16_terms(3) ok(2) by (auto simp only: list_all_iff)
  have "is_canonical cw cr t" if "(n, t) \<in> set canonical_cases" for n t
  proof -
    from that have "t \<in> set (map snd canonical_cases)" by force
    with within16_terms(2) have "within16 t" by (simp only: list_all_iff)
    then show ?thesis by (rule ok(2))
  qed
  moreover have "length canonical_cases = 24" by (simp add: canonical_cases_def)
  ultimately show "canonical_roundtrip_all cw cr"
    by (auto simp: canonical_roundtrip_all_def list_all_iff)
qed

text \<open>The list is said to have every constructor; two are missing.\<close>

lemma canonical_cases_incomplete:
  "(n, Command m c l) \<notin> set canonical_cases" "(n, RunCmd v s) \<notin> set canonical_cases"
  by (simp_all add: canonical_cases_def)

end
