(* ===== verification/Core_Tests.thy ===== *)
theory Core_Tests
  imports Rsm Graded
begin

text \<open>
  The unit tests of \<open>dlc-core\<close> and \<open>dlc-grade-quantale\<close>, each a proposition that its
  assertions hold of the model: \<open>assert_eq!\<close> is an equation, \<open>assert!\<close> a formula, \<open>unwrap\<close> an
  equation with \<open>Some\<close>.  That all are true checks the model against what the authors of
  the code expect of it.
\<close>

section \<open>Typing (\<open>decide.rs\<close>)\<close>

definition problem :: "ctx \<Rightarrow> trm \<Rightarrow> dprop \<Rightarrow> typing_problem" where
  "problem \<Gamma> t \<phi> = \<lparr>tp_ctx = \<Gamma>, tp_term = t, tp_prop = \<phi>\<rparr>"

text \<open>\<open>Principal::Atom(PrincipalId([b; 32]))\<close> and the stub signature of 64 zero bytes.\<close>

definition party :: "u8 \<Rightarrow> principal" where
  "party b = Atom_p (PrincipalId (replicate 32 b))"

definition stub_sig :: signature where
  "stub_sig = \<lparr>sig_alg = 0, sig_bytes = replicate 64 0\<rparr>"

definition var_lookup_additive :: bool where
  "var_lookup_additive \<longleftrightarrow> (let \<Gamma> = cons_a ctx_empty (Atom 0) in
     decide_pure (problem \<Gamma> (Var 0) (Atom 0)))"

definition var_lookup_miss :: bool where
  "var_lookup_miss \<longleftrightarrow> (let \<Gamma> = cons_a ctx_empty (Atom 0) in
     \<not> decide_pure (problem \<Gamma> (Var 1) (Atom 0)))"

definition var_lookup_linear :: bool where
  "var_lookup_linear \<longleftrightarrow> (let \<Gamma> = cons_l ctx_empty (Atom 7) in
     decide_pure (problem \<Gamma> (Var 0) (Atom 7)))"

definition imp_i_identity :: bool where
  "imp_i_identity \<longleftrightarrow>
     decide_pure (problem ctx_empty (Lam (Atom 0) (Var 0)) (Imp (Atom 0) (Atom 0)))"

definition imp_e_identity_application :: bool where
  "imp_e_identity_application \<longleftrightarrow> (let \<Gamma> = cons_a ctx_empty (Atom 0) in
     decide_pure (problem \<Gamma> (App (Lam (Atom 0) (Var 0)) (Var 0)) (Atom 0)))"

definition imp_e_type_mismatch :: bool where
  "imp_e_type_mismatch \<longleftrightarrow> (let \<Gamma> = cons_a ctx_empty (Atom 1) in
     \<not> decide_pure (problem \<Gamma> (App (Lam (Atom 0) (Var 0)) (Var 0)) (Atom 0)))"

definition says_i_basic :: bool where
  "says_i_basic \<longleftrightarrow> (let p = party 3; \<Gamma> = cons_a ctx_empty (Atom 0) in
     decide_pure (problem \<Gamma> (Sign p (Var 0) stub_sig) (Says p (Atom 0))))"

definition now_infers_top_and_rejects_atom_claim :: bool where
  "now_infers_top_and_rejects_atom_claim \<longleftrightarrow> (let t = Now \<lparr>epoch_ms = 0\<rparr> in
     decide_pure (problem ctx_empty t Top) \<and> \<not> decide_pure (problem ctx_empty t (Atom 0)))"

definition verify_strips_says :: bool where
  "verify_strips_says \<longleftrightarrow> (let p = party 3; \<Gamma> = cons_a ctx_empty (Atom 0) in
     decide_pure (problem \<Gamma> (Verify p (Sign p (Var 0) stub_sig) stub_sig) (Atom 0)))"

definition delegate_produces_acting_principal :: bool where
  "delegate_produces_acting_principal \<longleftrightarrow> (let p = party 1; q = party 2;
       m = Sign p (Var 0) stub_sig; n = Sign q (Var 1) stub_sig;
       \<Gamma> = cons_a (cons_a ctx_empty (Atom 0)) (SpeaksFor q p) in
     decide_pure (problem \<Gamma> (Delegate m n) (Says (Acting p q) (Atom 0))))"

definition attenuate_narrows_says :: bool where
  "attenuate_narrows_says \<longleftrightarrow> (let p = party 4; \<Gamma> = cons_a ctx_empty (Atom 0) in
     decide_pure (problem \<Gamma> (Attenuate (Sign p (Var 0) stub_sig) (Atom 1)) (Says p (Atom 1))))"

definition lift_label_wraps_at_label :: bool where
  "lift_label_wraps_at_label \<longleftrightarrow> (let l = Label [3]; \<Gamma> = cons_a ctx_empty (Atom 0) in
     decide_pure (problem \<Gamma> (LiftLabel l (Var 0)) (At (Atom 0) l)))"

definition within_intro_produces_within_modality :: bool where
  "within_intro_produces_within_modality \<longleftrightarrow> (let tau = \<lparr>epoch_ms = 999999\<rparr>;
       \<Gamma> = cons_a ctx_empty (Atom 0) in
     decide_pure (problem \<Gamma> (WithinIntro tau (Var 0)) (Within tau (Atom 0))))"

definition discharge_strips_box :: bool where
  "discharge_strips_box \<longleftrightarrow> (let \<Gamma> = cons_a ctx_empty (Boxed Top_o (Atom 0)) in
     decide_pure (problem \<Gamma> (Discharge (Var 0) (Var 0)) (Atom 0)))"

definition pair_produces_and :: bool where
  "pair_produces_and \<longleftrightarrow> (let \<Gamma> = cons_a (cons_a ctx_empty (Atom 1)) (Atom 0) in
     decide_pure (problem \<Gamma> (Pair_t (Var 0) (Var 1)) (And (Atom 0) (Atom 1))))"

definition pair_fst_snd_round_trip :: bool where
  "pair_fst_snd_round_trip \<longleftrightarrow> (let \<Gamma> = cons_a (cons_a ctx_empty (Atom 1)) (Atom 0);
       pair = Pair_t (Var 0) (Var 1) in
     decide_pure (problem \<Gamma> (Fst pair) (Atom 0)) \<and> decide_pure (problem \<Gamma> (Snd pair) (Atom 1)))"

definition inl_produces_or_left :: bool where
  "inl_produces_or_left \<longleftrightarrow> (let \<Gamma> = cons_a ctx_empty (Atom 0) in
     decide_pure (problem \<Gamma> (Inl_t (Atom 1) (Var 0)) (Or (Atom 0) (Atom 1))))"

definition inr_produces_or_right :: bool where
  "inr_produces_or_right \<longleftrightarrow> (let \<Gamma> = cons_a ctx_empty (Atom 1) in
     decide_pure (problem \<Gamma> (Inr_t (Atom 0) (Var 0)) (Or (Atom 0) (Atom 1))))"

definition case_eliminates_or :: bool where
  "case_eliminates_or \<longleftrightarrow> (let \<Gamma> = cons_a ctx_empty (Or (Atom 0) (Atom 0)) in
     decide_pure (problem \<Gamma> (Case (Var 0) (Var 0) (Var 0)) (Atom 0)))"

definition case_rejects_disagreeing_branches :: bool where
  "case_rejects_disagreeing_branches \<longleftrightarrow> (let \<Gamma> = cons_a ctx_empty (Or (Atom 0) (Atom 1)) in
     \<not> decide_pure (problem \<Gamma> (Case (Var 0) (Var 0) (Var 0)) (Atom 0)))"

definition tensor_intro_produces_tensor :: bool where
  "tensor_intro_produces_tensor \<longleftrightarrow> (let \<Gamma> = cons_a (cons_a ctx_empty (Atom 1)) (Atom 0) in
     decide_pure (problem \<Gamma> (TensorIntro (Var 0) (Var 1)) (Tensor (Atom 0) (Atom 1))))"

definition let_says_binds_inner_proof :: bool where
  "let_says_binds_inner_proof \<longleftrightarrow> (let p = party 9; \<Gamma> = cons_a ctx_empty (Says p (Atom 0)) in
     decide_pure (problem \<Gamma> (LetSays p (Var 0) (Var 0)) (Atom 0)))"

definition sf_extract_pulls_speaks_for :: bool where
  "sf_extract_pulls_speaks_for \<longleftrightarrow> (let p = party 1; q = party 2; sf = SpeaksFor q p;
       \<Gamma> = cons_a ctx_empty (Says p sf) in
     decide_pure (problem \<Gamma> (SfExtract (Var 0)) sf))"

definition delegate_rejects_chain_splicing :: bool where
  "delegate_rejects_chain_splicing \<longleftrightarrow> (let p = party 1; q = party 2; r = party 3;
       m = Sign p (Var 0) stub_sig; n = Sign r (Var 1) stub_sig;
       \<Gamma> = cons_a (cons_a ctx_empty (Atom 0)) (SpeaksFor q p) in
     \<not> decide_pure (problem \<Gamma> (Delegate m n) (Atom 0)))"

lemma party_eq [simp]: "party a = party b \<longleftrightarrow> a = b"
  by (simp add: party_def)

lemmas decide_test_defs = var_lookup_additive_def var_lookup_miss_def var_lookup_linear_def
  imp_i_identity_def imp_e_identity_application_def imp_e_type_mismatch_def says_i_basic_def
  now_infers_top_and_rejects_atom_claim_def verify_strips_says_def
  delegate_produces_acting_principal_def attenuate_narrows_says_def lift_label_wraps_at_label_def
  within_intro_produces_within_modality_def discharge_strips_box_def pair_produces_and_def
  pair_fst_snd_round_trip_def inl_produces_or_left_def inr_produces_or_right_def
  case_eliminates_or_def case_rejects_disagreeing_branches_def tensor_intro_produces_tensor_def
  let_says_binds_inner_proof_def sf_extract_pulls_speaks_for_def delegate_rejects_chain_splicing_def

lemmas decide_test_simps = problem_def decide_pure_def infer_helpers get_nth_def ctx_empty_def

lemma decide_tests:
  "var_lookup_additive" "var_lookup_miss" "var_lookup_linear" "imp_i_identity"
  "imp_e_identity_application" "imp_e_type_mismatch" "says_i_basic"
  "now_infers_top_and_rejects_atom_claim" "verify_strips_says" "delegate_produces_acting_principal"
  "attenuate_narrows_says" "lift_label_wraps_at_label" "within_intro_produces_within_modality"
  "discharge_strips_box" "pair_produces_and" "pair_fst_snd_round_trip" "inl_produces_or_left"
  "inr_produces_or_right" "case_eliminates_or" "case_rejects_disagreeing_branches"
  "tensor_intro_produces_tensor" "let_says_binds_inner_proof" "sf_extract_pulls_speaks_for"
  "delegate_rejects_chain_splicing"
  by (simp_all add: decide_test_defs decide_test_simps Let_def)

section \<open>Substitution (\<open>subst.rs\<close>)\<close>

definition identity_lambda_unchanged :: bool where
  "identity_lambda_unchanged \<longleftrightarrow> subst (Lam (Atom 0) (Var 0)) (Var 7) = Lam (Atom 0) (Var 0)"

definition subst_var_zero_returns_value :: bool where
  "subst_var_zero_returns_value \<longleftrightarrow> subst (Var 0) (Var 3) = Var 3"

definition subst_free_var_decrements :: bool where
  "subst_free_var_decrements \<longleftrightarrow> subst (Var 1) (Var 99) = Var 0"

definition shift_closed_lambda_is_noop :: bool where
  "shift_closed_lambda_is_noop \<longleftrightarrow> (let idt = Lam (Atom 0) (Var 0) in shift idt 5 0 = idt)"

definition shift_increments_free_var :: bool where
  "shift_increments_free_var \<longleftrightarrow> shift (Var 2) 3 0 = Var 5"

definition subst_under_binder_lifts_value :: bool where
  "subst_under_binder_lifts_value \<longleftrightarrow> subst (Lam (Atom 0) (Var 1)) (Var 0) = Lam (Atom 0) (Var 1)"

section \<open>Reduction (\<open>reduce.rs\<close>)\<close>

definition beta_identity :: bool where
  "beta_identity \<longleftrightarrow> (let idt = Lam (Atom 0) (Var 0); arg = Var 5 in step (App idt arg) = Some arg)"

definition beta_under_binder :: bool where
  "beta_under_binder \<longleftrightarrow> (let kk = Lam (Atom 0) (Lam (Atom 1) (Var 0)) in
     step (App kk (Var 7)) = Some (Lam (Atom 1) (Var 0)))"

definition delegate_beta_produces_acting_principal :: bool where
  "delegate_beta_produces_acting_principal \<longleftrightarrow> (let p = party 1; q = party 2; inner_proof = Var 0;
       m_sign_p = Sign p (Var 99) stub_sig; n_sign_q = Sign q inner_proof stub_sig in
     step (Delegate m_sign_p n_sign_q) = Some (Sign (Acting p q) inner_proof stub_sig))"

definition var_is_normal :: bool where
  "var_is_normal \<longleftrightarrow> step (Var 0) = None"

definition lambda_is_normal :: bool where
  "lambda_is_normal \<longleftrightarrow> step (Lam (Atom 0) (Var 0)) = None"

definition reduce_with_fuel_terminates :: bool where
  "reduce_with_fuel_terminates \<longleftrightarrow>
     reduce_with_fuel (App (Lam (Atom 0) (Var 0)) (Var 0)) 10 = (Var 0, 1)"

definition nested_projection_evaluates :: bool where
  "nested_projection_evaluates \<longleftrightarrow> (let a = Var 1; b = Var 2; c = Var 3 in
     reduce_with_fuel (Fst (Fst (Pair_t (Pair_t a b) c))) 10 = (a, 2))"

definition xi_app_reduces_function_position :: bool where
  "xi_app_reduces_function_position \<longleftrightarrow> (let kk = Lam (Atom 0) (Lam (Atom 1) (Var 0)) in
     reduce_with_fuel (App (App kk (Var 7)) (Var 9)) 10 = (Var 9, 2))"

definition frozen_scrutinee_is_stuck :: bool where
  "frozen_scrutinee_is_stuck \<longleftrightarrow>
     step (LetSays (party 1) (Attenuate (Var 0) Top) (Var 0)) = None"

lemmas reduce_test_defs = identity_lambda_unchanged_def subst_var_zero_returns_value_def
  subst_free_var_decrements_def shift_closed_lambda_is_noop_def shift_increments_free_var_def
  subst_under_binder_lifts_value_def beta_identity_def beta_under_binder_def
  delegate_beta_produces_acting_principal_def var_is_normal_def lambda_is_normal_def
  frozen_scrutinee_is_stuck_def

text \<open>The fuel as a numeral is unfolded by a term's normal form instead of by counting.\<close>

lemma reduce_steps_of:
  "step t = Some u \<Longrightarrow> step u = None \<Longrightarrow> 1 < fuel \<Longrightarrow> reduce_with_fuel t fuel = (u, 1)"
  "step t = Some u \<Longrightarrow> step u = Some v \<Longrightarrow> step v = None \<Longrightarrow> 2 < fuel \<Longrightarrow> reduce_with_fuel t fuel = (v, 2)"
proof -
  have u: "unat (2 :: u32) = Suc (Suc 0)" by simp
  show "step t = Some u \<Longrightarrow> step u = None \<Longrightarrow> 1 < fuel \<Longrightarrow> reduce_with_fuel t fuel = (u, 1)"
    by (auto simp: reduce_with_fuel_char intro: step_red)
  show "step t = Some u \<Longrightarrow> step u = Some v \<Longrightarrow> step v = None \<Longrightarrow> 2 < fuel \<Longrightarrow> reduce_with_fuel t fuel = (v, 2)"
    unfolding reduce_with_fuel_char u by (auto intro: step_red)
qed

lemma reduce_tests:
  "identity_lambda_unchanged" "subst_var_zero_returns_value" "subst_free_var_decrements"
  "shift_closed_lambda_is_noop" "shift_increments_free_var" "subst_under_binder_lifts_value"
  "beta_identity" "beta_under_binder" "delegate_beta_produces_acting_principal" "var_is_normal"
  "lambda_is_normal" "frozen_scrutinee_is_stuck"
  by (simp_all add: reduce_test_defs subst_def Let_def)

lemma fuel_tests:
  "reduce_with_fuel_terminates" "nested_projection_evaluates" "xi_app_reduces_function_position"
  by (simp_all add: reduce_with_fuel_terminates_def nested_projection_evaluates_def
      xi_app_reduces_function_position_def Let_def reduce_steps_of subst_def)

section \<open>The replicated state machine (\<open>rsm.rs\<close>)\<close>

definition dup_cmd :: command where
  "dup_cmd = \<lparr>payload = Lam (Atom 0) (Pair_t (Var 0) (Var 0)), cap = None\<rparr>"

definition initial_store :: trm where
  "initial_store = Var 0"

definition dup_store :: trm where
  "dup_store = Pair_t (Var 0) (Var 0)"

definition apply_command_changes_store :: bool where
  "apply_command_changes_store \<longleftrightarrow>
     apply_command dup_cmd initial_store = dup_store \<and> apply_command dup_cmd initial_store \<noteq> initial_store"

definition apply_prefix_one_slot :: bool where
  "apply_prefix_one_slot \<longleftrightarrow> apply_prefix initial_store [dup_cmd] = dup_store"

definition two_replicas_converge_on_prefix :: bool where
  "two_replicas_converge_on_prefix \<longleftrightarrow> (let lg = [dup_cmd];
       r1 = deliver lg \<lparr>rid = 0, store = initial_store, applied = 0\<rparr>;
       r2 = deliver lg \<lparr>rid = 1, store = initial_store, applied = 0\<rparr> in
     store r1 = store r2 \<and> store r1 = dup_store \<and> store r1 \<noteq> initial_store \<and>
     applied r1 = 1 \<and> applied r2 = 1)"

definition world_step_two_replica_run :: bool where
  "world_step_two_replica_run \<longleftrightarrow>
    (let authorized = \<lparr>payload = payload dup_cmd, cap = Some (Atom 7)\<rparr>;
       g0 = \<lparr>replicas = [\<lparr>rid = 0, store = initial_store, applied = 0\<rparr>,
               \<lparr>rid = 1, store = initial_store, applied = 0\<rparr>],
             log = [], budget = fb_zero 1\<rparr>;
       g1 = commit g0 authorized; g2 = world_step g1; g3 = world_step g2 in
     length (log g1) = 1 \<and> length (replicas g1) = 2 \<and> within_contract (budget g1) \<and>
     store (replicas g2 ! 0) = dup_store \<and> store (replicas g2 ! 1) = dup_store \<and>
     store (replicas g2 ! 0) = store (replicas g2 ! 1) \<and>
     store (replicas g2 ! 0) \<noteq> initial_store \<and> applied (replicas g2 ! 0) = 1 \<and>
     store (replicas g3 ! 0) = store (replicas g2 ! 0) \<and> applied (replicas g3 ! 0) = 1)"

definition failure_budget_contract :: bool where
  "failure_budget_contract \<longleftrightarrow> (let b = fb_zero 2; b1 = fb_saturating_add b 2;
       b2 = fb_saturating_add b 3 in
     within_contract b \<and> fb_le b \<and> within_contract b1 \<and> \<not> fb_le b2 \<and> \<not> within_contract b2)"

lemma apply_dup_cmd: "payload c = payload dup_cmd \<Longrightarrow> apply_command c initial_store = dup_store"
  by (simp add: apply_command_def dup_cmd_def initial_store_def dup_store_def apply_fuel_def
      reduce_steps_of(1) subst_def)

lemma rsm_tests:
  "apply_command_changes_store" "apply_prefix_one_slot" "two_replicas_converge_on_prefix"
  "world_step_two_replica_run" "failure_budget_contract"
proof -
  show "apply_command_changes_store"
    by (simp add: apply_command_changes_store_def apply_dup_cmd) (simp add: dup_store_def initial_store_def)
  show "apply_prefix_one_slot"
    using apply_prefix_simps(2) [of initial_store "[]" dup_cmd]
    by (simp add: apply_prefix_one_slot_def apply_dup_cmd)
  show "two_replicas_converge_on_prefix"
    by (simp add: two_replicas_converge_on_prefix_def Let_def deliver_def get_nth_def apply_dup_cmd)
      (simp add: dup_store_def initial_store_def)
  show "world_step_two_replica_run"
    by (simp add: world_step_two_replica_run_def Let_def deliver_def get_nth_def apply_dup_cmd
        within_contract_def fb_le_def fb_zero_def) (simp add: dup_store_def initial_store_def)
  show "failure_budget_contract"
    by (simp add: failure_budget_contract_def Let_def within_contract_def fb_le_def fb_zero_def
        fb_saturating_add_def)
qed

section \<open>Budgets and grades (\<open>graded.rs\<close>, \<open>obligation.rs\<close>, \<open>dlc-grade-quantale\<close>)\<close>

definition dp :: "u64 \<Rightarrow> u64 \<Rightarrow> dp_budget" where
  "dp e d = \<lparr>epsilon_micros = e, delta_micros = d\<rparr>"

definition pure_is_zero_grade :: bool where
  "pure_is_zero_grade \<longleftrightarrow> grade (graded_pure (42 :: u32)) = dp_zero"

definition counit_recovers_value_at_zero_grade :: bool where
  "counit_recovers_value_at_zero_grade \<longleftrightarrow> counit (graded_pure ''hello'') = Inr ''hello''"

definition counit_refuses_nonzero_grade :: bool where
  "counit_refuses_nonzero_grade \<longleftrightarrow> (let g = consume (graded_pure ''hello'') (dp 1 0) in
     isl (counit g))"

definition consume_is_associative :: bool where
  "consume_is_associative \<longleftrightarrow> (let eps_a = dp 100 0; eps_b = dp 200 5;
       lhs = consume (consume (graded_pure ()) eps_a) eps_b;
       rhs = consume (graded_pure ()) (dp_saturating_add eps_a eps_b) in lhs = rhs)"

definition within_budget_check :: bool where
  "within_budget_check \<longleftrightarrow> (let ceiling = dp 1000 100;
       g = consume (graded_pure ()) (dp 500 50); over = consume g (dp 600 0) in
     within_budget g ceiling \<and> \<not> within_budget over ceiling)"

definition map_preserves_grade :: bool where
  "map_preserves_grade \<longleftrightarrow> (let g = consume (graded_pure (3 :: u32)) (dp 50 0);
       mapped = graded_map (\<lambda>x. x * 2) g in
     gvalue mapped = 6 \<and> epsilon_micros (grade mapped) = 50)"

definition dp_budget_add_saturates :: bool where
  "dp_budget_add_saturates \<longleftrightarrow> (let sum = dp_saturating_add (dp (- 1 - 5) 0) (dp 10 0) in
     epsilon_micros sum = - 1)"

definition dp_budget_leq_componentwise :: bool where
  "dp_budget_leq_componentwise \<longleftrightarrow> (let a = dp 5 10; b = dp 10 10 in dp_leq a b \<and> \<not> dp_leq b a)"

definition dp_budget_leq_is_partial :: bool where
  "dp_budget_leq_is_partial \<longleftrightarrow> (let a = dp 10 0; b = dp 0 10 in \<not> dp_leq a b \<and> \<not> dp_leq b a)"

definition discharged_preserves_obligation_for_audit :: bool where
  "discharged_preserves_obligation_for_audit \<longleftrightarrow> obl (new_sealed Top_o) = Top_o"

definition spend_of :: "u64 \<Rightarrow> u64 \<Rightarrow> spend" where
  "spend_of e d = Spend (dp e d)"

definition remaining_agrees_with_the_kernel_budget_admission :: bool where
  "remaining_agrees_with_the_kernel_budget_admission \<longleftrightarrow> (let ceiling = dp 100 10;
       spents = [spend_of 0 0, spend_of 30 5, spend_of 70 0, spend_of 100 10];
       wants = [spend_of 0 0, spend_of 10 0, spend_of 30 5, spend_of 31 0, spend_of 0 6] in
     list_all (\<lambda>s. dp_leq (spent s) ceiling \<and>
       (let headroom = remaining s (Spend ceiling) in
        list_all (\<lambda>w. within_budget (consume (consume (graded_pure ()) (spent s)) (spent w)) ceiling =
          dp_leq (spent w) (spent headroom)) wants)) spents)"

lemmas graded_test_defs = pure_is_zero_grade_def counit_recovers_value_at_zero_grade_def
  counit_refuses_nonzero_grade_def consume_is_associative_def within_budget_check_def
  map_preserves_grade_def dp_budget_add_saturates_def dp_budget_leq_componentwise_def
  dp_budget_leq_is_partial_def discharged_preserves_obligation_for_audit_def
  remaining_agrees_with_the_kernel_budget_admission_def

lemmas graded_test_simps = dp_def dp_zero_def graded_pure_def counit_def consume_def
  dp_saturating_add_def within_budget_def dp_leq_def graded_map_def new_sealed_def spend_of_def
  remaining_def spend_residual_def sat_add_def sat_sub_def

lemma graded_tests:
  "pure_is_zero_grade" "counit_recovers_value_at_zero_grade" "counit_refuses_nonzero_grade"
  "consume_is_associative" "within_budget_check" "map_preserves_grade" "dp_budget_add_saturates"
  "dp_budget_leq_componentwise" "dp_budget_leq_is_partial"
  "discharged_preserves_obligation_for_audit" "remaining_agrees_with_the_kernel_budget_admission"
  by (simp_all add: graded_test_defs graded_test_simps Let_def)

end
