(* ===== verification/Node_Tests.thy ===== *)
theory Node_Tests
  imports Core_Tests Net Admission
begin

text \<open>
  Unit tests of the node (\<open>crates/dlc-d-node/src\<close>: \<open>proto.rs\<close>, \<open>codec.rs\<close>, \<open>auth.rs\<close>), of the
  quorum predicates (\<open>dlc-d-rsm/src/lib.rs\<close>), of Ed25519 and of admission (\<open>dlc-d/src/runtime.rs\<close>,
  \<open>admission.rs\<close>) as propositions about the model.  Those that expect a signature to be refused ask
  that the library refuse that one signature: nothing else is known of it.
\<close>

section \<open>The protocol (\<open>proto.rs\<close>)\<close>

definition seed_of :: "u8 \<Rightarrow> bytes" where
  "seed_of n = replicate 32 n"

definition tagged_cmd :: "u32 \<Rightarrow> command" where
  "tagged_cmd t = \<lparr>payload = Lam (Atom t) (Pair_t (Var 0) (Var 0)), cap = None\<rparr>"

definition roster3 :: "ed25519_lib \<Rightarrow> roster option" where
  "roster3 L = roster_new [ed25519_public_key L (seed_of 1), ed25519_public_key L (seed_of 2),
     ed25519_public_key L (seed_of 3)]"

text \<open>\<open>expect\<close> on the roster: without one the test panics.\<close>

definition with_roster3 :: "ed25519_lib \<Rightarrow> (roster \<Rightarrow> bool) \<Rightarrow> bool" where
  "with_roster3 L P \<longleftrightarrow> (case roster3 L of None \<Rightarrow> False | Some r \<Rightarrow> P r)"

definition honest_run_verifies :: "ed25519_lib \<Rightarrow> (cbor \<Rightarrow> bytes) \<Rightarrow> bool" where
  "honest_run_verifies L cw \<longleftrightarrow> with_roster3 L (\<lambda>r. let c = tagged_cmd 0;
       k = issue_capability L cw (seed_of 9) c; p = propose L cw (seed_of 1) 7 c k;
       qc = \<lparr>qc_votes = [cast_vote L cw (seed_of 1) 7 c, cast_vote L cw (seed_of 2) 7 c]\<rparr> in
     verify_proposal L cw p r \<and> verify_qc L cw qc 7 c r \<and>
     verify_commit L cw \<lparr>c_slot = 7, c_cmd = c, c_qc = qc\<rparr> r)"

definition one_replica_cannot_forge_a_quorum :: "ed25519_lib \<Rightarrow> (cbor \<Rightarrow> bytes) \<Rightarrow> bool" where
  "one_replica_cannot_forge_a_quorum L cw \<longleftrightarrow> with_roster3 L (\<lambda>r. let c = tagged_cmd 0;
       v = cast_vote L cw (seed_of 1) 7 c; qc = \<lparr>qc_votes = [v, v, v]\<rparr> in
     list_all (\<lambda>x. verify_vote L cw x 7 c r) (qc_votes qc) \<and> \<not> verify_qc L cw qc 7 c r)"

definition non_member_votes_do_not_count :: "ed25519_lib \<Rightarrow> (cbor \<Rightarrow> bytes) \<Rightarrow> bool" where
  "non_member_votes_do_not_count L cw \<longleftrightarrow> with_roster3 L (\<lambda>r. let c = tagged_cmd 0;
       outsider = cast_vote L cw (seed_of 42) 7 c;
       qc = \<lparr>qc_votes = [cast_vote L cw (seed_of 1) 7 c, outsider]\<rparr> in
     \<not> verify_vote L cw outsider 7 c r \<and> \<not> verify_qc L cw qc 7 c r)"

definition certificates_do_not_replay_across_slots :: "ed25519_lib \<Rightarrow> (cbor \<Rightarrow> bytes) \<Rightarrow> bool" where
  "certificates_do_not_replay_across_slots L cw \<longleftrightarrow> with_roster3 L (\<lambda>r. let c = tagged_cmd 0;
       qc = \<lparr>qc_votes = [cast_vote L cw (seed_of 1) 7 c, cast_vote L cw (seed_of 2) 7 c]\<rparr> in
     verify_qc L cw qc 7 c r \<and> \<not> verify_qc L cw qc 8 c r)"

definition certificates_do_not_transfer_across_commands :: "ed25519_lib \<Rightarrow> (cbor \<Rightarrow> bytes) \<Rightarrow> bool" where
  "certificates_do_not_transfer_across_commands L cw \<longleftrightarrow> with_roster3 L (\<lambda>r.
       let c1 = tagged_cmd 0; c2 = tagged_cmd 1;
       qc = \<lparr>qc_votes = [cast_vote L cw (seed_of 1) 7 c1, cast_vote L cw (seed_of 2) 7 c1]\<rparr> in
     verify_qc L cw qc 7 c1 r \<and> \<not> verify_qc L cw qc 7 c2 r)"

definition capability_binds_to_its_command :: "ed25519_lib \<Rightarrow> (cbor \<Rightarrow> bytes) \<Rightarrow> bool" where
  "capability_binds_to_its_command L cw \<longleftrightarrow> with_roster3 L (\<lambda>r.
       let c1 = tagged_cmd 0; c2 = tagged_cmd 1;
       cap_for_c1 = issue_capability L cw (seed_of 9) c1;
       p = propose L cw (seed_of 1) 7 c2 cap_for_c1 in
     verify_capability L cw cap_for_c1 c1 \<and> \<not> verify_capability L cw cap_for_c1 c2 \<and>
     \<not> verify_proposal L cw p r)"

definition proposals_from_outside_the_committee_are_rejected ::
    "ed25519_lib \<Rightarrow> (cbor \<Rightarrow> bytes) \<Rightarrow> bool" where
  "proposals_from_outside_the_committee_are_rejected L cw \<longleftrightarrow> with_roster3 L (\<lambda>r. let c = tagged_cmd 0;
       k = issue_capability L cw (seed_of 9) c; p = propose L cw (seed_of 42) 7 c k in
     \<not> verify_proposal L cw p r)"

definition domains_are_distinct :: "ed25519_lib \<Rightarrow> (cbor \<Rightarrow> bytes) \<Rightarrow> bool" where
  "domains_are_distinct L cw \<longleftrightarrow> (let c = tagged_cmd 0; k = issue_capability L cw (seed_of 1) c;
       forged = \<lparr>voter = ed25519_public_key L (seed_of 1), v_slot = 0, v_sig = cap_sig k\<rparr> in
     cap_msg cw c \<noteq> vote_msg cw 0 c \<and> propose_msg cw 0 c \<noteq> vote_msg cw 0 c \<and>
     with_roster3 L (\<lambda>r. \<not> verify_vote L cw forged 0 c r))"

definition duplicate_roster_members_are_refused :: "ed25519_lib \<Rightarrow> bool" where
  "duplicate_roster_members_are_refused L \<longleftrightarrow> (let k = ed25519_public_key L (seed_of 1) in
     roster_new [k, k] = None \<and> roster_new [k, ed25519_public_key L (seed_of 2)] \<noteq> None)"

definition quorum_threshold_matches_the_verified_predicate :: "ed25519_lib \<Rightarrow> bool" where
  "quorum_threshold_matches_the_verified_predicate L \<longleftrightarrow> with_roster3 L (\<lambda>r.
     list_all (\<lambda>c. roster_is_quorum r c = is_quorum (of_nat c) (of_nat (roster_len r))) [0..<4])"

definition byzantine_threshold_matches_the_verified_predicate :: bool where
  "byzantine_threshold_matches_the_verified_predicate \<longleftrightarrow>
     list_all (\<lambda>n. list_all (\<lambda>c. quorum_reached Byzantine c n = is_byz_quorum (of_nat c) (of_nat n))
       [0..<Suc n]) [0..<11]"

text \<open>What the library does on the test's inputs.\<close>

definition test_keys :: "ed25519_lib \<Rightarrow> bool" where
  "test_keys L \<longleftrightarrow> ed25519_ok L \<and>
     distinct (map (\<lambda>n. ed25519_public_key L (seed_of n)) [1, 2, 3, 42])"

definition refuses :: "ed25519_lib \<Rightarrow> u8 \<Rightarrow> bytes \<Rightarrow> bytes \<Rightarrow> bool" where
  "refuses L n msg other \<longleftrightarrow> \<not> dalek_verify L (ed25519_public_key L (seed_of n)) other
     (ed25519_sign L (seed_of n) msg)"

lemma length_seed_of [simp]: "length (seed_of n) = 32"
  by (simp add: seed_of_def)

lemma test_keys_differ:
  "test_keys L \<Longrightarrow> a \<in> {1, 2, 3, 42} \<Longrightarrow> b \<in> {1, 2, 3, 42} \<Longrightarrow> a \<noteq> b \<Longrightarrow>
    ed25519_public_key L (seed_of a) \<noteq> ed25519_public_key L (seed_of b)"
  by (auto simp: test_keys_def)

lemma with_roster3_iff:
  "test_keys L \<Longrightarrow> with_roster3 L P \<longleftrightarrow> P \<lparr>members = [ed25519_public_key L (seed_of 1),
     ed25519_public_key L (seed_of 2), ed25519_public_key L (seed_of 3)], rquorum = Crash\<rparr>"
  by (simp add: with_roster3_def roster3_def roster_new_def with_quorum_def test_keys_def)

lemma own_verifies: "test_keys L \<Longrightarrow>
    ed25519_verify L (ed25519_public_key L (seed_of n)) msg (ed25519_sign L (seed_of n) msg) = Inr ()"
  by (simp add: test_keys_def ed25519_sign_verify)

lemma refused:
  "refuses L n msg other \<Longrightarrow>
    ed25519_verify L (ed25519_public_key L (seed_of n)) other (ed25519_sign L (seed_of n) msg) \<noteq> Inr ()"
  by (simp add: refuses_def ed25519_verify_ok)

lemmas proto_test_simps = verify_qc_char verify_vote_def cast_vote_def verify_proposal_def propose_def
  verify_capability_def issue_capability_def verify_commit_def own_verifies roster_is_quorum_def
  quorum_reached_def roster_len_def with_roster3_iff Let_def

lemma proto_tests:
  assumes "test_keys L"
  shows "honest_run_verifies L cw" "one_replica_cannot_forge_a_quorum L cw"
    "non_member_votes_do_not_count L cw" "certificates_do_not_replay_across_slots L cw"
    "proposals_from_outside_the_committee_are_rejected L cw"
    "duplicate_roster_members_are_refused L" "quorum_threshold_matches_the_verified_predicate L"
proof -
  show "honest_run_verifies L cw" "one_replica_cannot_forge_a_quorum L cw"
    "non_member_votes_do_not_count L cw" "certificates_do_not_replay_across_slots L cw"
    "proposals_from_outside_the_committee_are_rejected L cw"
    by (simp_all add: test_keys_differ honest_run_verifies_def one_replica_cannot_forge_a_quorum_def
        non_member_votes_do_not_count_def certificates_do_not_replay_across_slots_def
        proposals_from_outside_the_committee_are_rejected_def proto_test_simps assms)
  show "duplicate_roster_members_are_refused L"
    by (simp add: duplicate_roster_members_are_refused_def roster_new_def with_quorum_def
        test_keys_differ assms)
  show "quorum_threshold_matches_the_verified_predicate L"
    by (simp add: quorum_threshold_matches_the_verified_predicate_def proto_test_simps assms
        is_quorum_def upt_conv_Cons)
qed

lemma byzantine_threshold_test: "byzantine_threshold_matches_the_verified_predicate"
  by (simp add: byzantine_threshold_matches_the_verified_predicate_def is_byz_quorum_def
      quorum_reached_def upt_conv_Cons)

lemma signature_tests:
  assumes "test_keys L"
  shows "refuses L 1 (vote_msg cw 7 (tagged_cmd 0)) (vote_msg cw 7 (tagged_cmd 1)) \<Longrightarrow>
      certificates_do_not_transfer_across_commands L cw"
    "refuses L 9 (cap_msg cw (tagged_cmd 0)) (cap_msg cw (tagged_cmd 1)) \<Longrightarrow>
      capability_binds_to_its_command L cw"
    "refuses L 1 (cap_msg cw (tagged_cmd 0)) (vote_msg cw 0 (tagged_cmd 0)) \<Longrightarrow>
      domains_are_distinct L cw"
proof -
  show "refuses L 1 (vote_msg cw 7 (tagged_cmd 0)) (vote_msg cw 7 (tagged_cmd 1)) \<Longrightarrow>
      certificates_do_not_transfer_across_commands L cw"
    by (simp add: certificates_do_not_transfer_across_commands_def proto_test_simps test_keys_differ
        assms refused)
  show "refuses L 9 (cap_msg cw (tagged_cmd 0)) (cap_msg cw (tagged_cmd 1)) \<Longrightarrow>
      capability_binds_to_its_command L cw"
    by (simp add: capability_binds_to_its_command_def proto_test_simps assms refused)
  show "refuses L 1 (cap_msg cw (tagged_cmd 0)) (vote_msg cw 0 (tagged_cmd 0)) \<Longrightarrow>
      domains_are_distinct L cw"
    by (simp add: domains_are_distinct_def proto_test_simps test_keys_differ assms refused)
      (simp add: vote_msg_def propose_msg_def cap_msg_def domains)
qed

section \<open>The codec (\<open>codec.rs\<close>)\<close>

definition codec_cmd :: command where
  "codec_cmd = \<lparr>payload = Lam (Atom 0) (Pair_t (Var 0) (Var 0)), cap = Some (Atom 7)\<rparr>"

definition roundtrip_is_identity ::
    "ed25519_lib \<Rightarrow> (cbor \<Rightarrow> bytes) \<Rightarrow> (bytes \<Rightarrow> string + cbor) \<Rightarrow> bool" where
  "roundtrip_is_identity L cw cr \<longleftrightarrow> (let c = codec_cmd; k = issue_capability L cw (seed_of 9) c;
       p = AuthPropose (propose L cw (seed_of 1) 3 c k);
       v = AuthVote (cast_vote L cw (seed_of 2) 3 c);
       cm = AuthCommit \<lparr>c_slot = 3, c_cmd = c, c_qc = \<lparr>qc_votes =
         [cast_vote L cw (seed_of 1) 3 codec_cmd, cast_vote L cw (seed_of 2) 3 codec_cmd]\<rparr>\<rparr> in
     list_all (\<lambda>m. decode_msg cr (encode_msg cw m) = Inr m) [p, v, cm])"

definition roundtrip_preserves_verification ::
    "ed25519_lib \<Rightarrow> (cbor \<Rightarrow> bytes) \<Rightarrow> (bytes \<Rightarrow> string + cbor) \<Rightarrow> bool" where
  "roundtrip_preserves_verification L cw cr \<longleftrightarrow> with_roster3 L (\<lambda>r. let c = codec_cmd;
       k = issue_capability L cw (seed_of 9) c; p = propose L cw (seed_of 1) 0 c k;
       v = cast_vote L cw (seed_of 2) 0 c;
       cm = \<lparr>c_slot = 0, c_cmd = c, c_qc = \<lparr>qc_votes =
         [cast_vote L cw (seed_of 1) 0 c, cast_vote L cw (seed_of 2) 0 c]\<rparr>\<rparr> in
     verify_proposal L cw p r \<and>
     (case decode_msg cr (encode_msg cw (AuthPropose p)) of
        Inr (AuthPropose p2) \<Rightarrow> verify_proposal L cw p2 r | _ \<Rightarrow> False) \<and>
     verify_vote L cw v 0 c r \<and>
     (case decode_msg cr (encode_msg cw (AuthVote v)) of
        Inr (AuthVote v2) \<Rightarrow> verify_vote L cw v2 0 c r | _ \<Rightarrow> False) \<and>
     verify_commit L cw cm r \<and>
     (case decode_msg cr (encode_msg cw (AuthCommit cm)) of
        Inr (AuthCommit cm2) \<Rightarrow> verify_commit L cw cm2 r | _ \<Rightarrow> False))"

lemma shallow_codec_cmd: "wf_command codec_cmd" "5 \<le> limit \<Longrightarrow> shallow limit codec_cmd"
  by (simp_all add: wf_command_def shallow_def codec_cmd_def u32_int_def)

lemma signed_lengths: "test_keys L \<Longrightarrow> length (ed25519_public_key L (seed_of n)) = 32"
  "test_keys L \<Longrightarrow> length (ed25519_sign L (seed_of n) msg) = 64"
  by (simp_all add: test_keys_def ed25519_ok_def ed25519_public_key_def ed25519_sign_def)

lemma codec_tests:
  assumes "test_keys L" "cbor_codec cw cr limit" "5 \<le> limit"
  shows "roundtrip_is_identity L cw cr" "roundtrip_preserves_verification L cw cr"
proof -
  have rt: "decode_msg cr (encode_msg cw m) = Inr m" if "wf_msg limit m" for m
    using decode_encoded_msg [OF assms(2) _ that] assms(3) by simp
  note wf = wf_msg_def wf_vote_def wf_cap_def propose_def cast_vote_def issue_capability_def
    signed_lengths [OF assms(1)] shallow_codec_cmd(1) shallow_codec_cmd(2) [OF assms(3)]
  show "roundtrip_is_identity L cw cr" by (simp add: roundtrip_is_identity_def Let_def rt wf)
  show "roundtrip_preserves_verification L cw cr"
    by (simp add: roundtrip_preserves_verification_def with_roster3_iff [OF assms(1)] Let_def rt wf)
      (simp add: proto_test_simps test_keys_differ assms(1))
qed

section \<open>Consensus (\<open>dlc-d-rsm/src/lib.rs\<close>)\<close>

definition consensus_surface :: bool where
  "consensus_surface \<longleftrightarrow> (let v = dup_cmd; ballot = [Some v, Some v, None];
       ballot2 = [Some v, None, None] in
     is_quorum 2 3 \<and> \<not> is_quorum 1 3 \<and> is_quorum 2 2 \<and> decided ballot v \<and> \<not> decided ballot2 v)"

lemma consensus_test: "consensus_surface"
  by (simp add: consensus_surface_def is_quorum_def decided_def count_vote_def Let_def)

section \<open>Ed25519 and anchors (\<open>ed25519.rs\<close>, \<open>time_anchor.rs\<close>)\<close>

definition sign_verify_round_trip :: "ed25519_lib \<Rightarrow> bool" where
  "sign_verify_round_trip L \<longleftrightarrow> (let seed = replicate 32 7; pk = ed25519_public_key L seed;
       msg = ascii ''canonical bytes of a term''; sg = ed25519_sign L seed msg in
     ed25519_verify L pk msg sg = Inr ())"

definition malformed_inputs_rejected :: "ed25519_lib \<Rightarrow> bool" where
  "malformed_inputs_rejected L \<longleftrightarrow>
     isl (ed25519_verify L (replicate 31 0) (ascii ''m'') (replicate 64 0)) \<and>
     isl (ed25519_verify L (replicate 32 0) (ascii ''m'') (replicate 63 0))"

definition drand_stub_rejects :: bool where
  "drand_stub_rejects \<longleftrightarrow> isl (verify_drand 123 (replicate 96 0) (replicate 48 0))"

definition nist_stub_rejects :: bool where
  "nist_stub_rejects \<longleftrightarrow> isl (verify_nist_beacon 456 (replicate 64 0) (replicate 200 0))"

definition tampered_message_rejected :: "ed25519_lib \<Rightarrow> bool" where
  "tampered_message_rejected L \<longleftrightarrow> (let seed = replicate 32 7; pk = ed25519_public_key L seed;
       sg = ed25519_sign L seed (ascii ''original'') in
     isl (ed25519_verify L pk (ascii ''tampered'') sg))"

definition wrong_key_rejected :: "ed25519_lib \<Rightarrow> bool" where
  "wrong_key_rejected L \<longleftrightarrow> (let seed = replicate 32 7; other = replicate 32 8; msg = ascii ''message'';
       sg = ed25519_sign L seed msg in
     isl (ed25519_verify L (ed25519_public_key L other) msg sg))"

text \<open>The anchor that only tests may accept.\<close>

definition verify_test_anchor :: "u64 \<Rightarrow> crypto_error + anchor_time" where
  "verify_test_anchor ms = Inr \<lparr>at_epoch_ms = ms, at_source = Test\<rparr>"

definition within_bound_strict :: bool where
  "within_bound_strict \<longleftrightarrow> (case verify_test_anchor 1000000 of
     Inl e \<Rightarrow> False
   | Inr anchor \<Rightarrow> within_bound anchor 1000001 \<and> \<not> within_bound anchor 1000000 \<and> \<not> within_bound anchor 999999)"

lemma within_bound_test: "within_bound_strict"
  by (simp add: within_bound_strict_def verify_test_anchor_def within_bound_def)

lemma refused_unit: "isl r \<longleftrightarrow> r \<noteq> Inr ()"
  by (cases r) auto

lemma ed25519_refusal_tests:
  "refuses L 7 (ascii ''original'') (ascii ''tampered'') \<Longrightarrow> tampered_message_rejected L"
  "\<not> dalek_verify L (ed25519_public_key L (seed_of 8)) (ascii ''message'')
     (ed25519_sign L (seed_of 7) (ascii ''message'')) \<Longrightarrow> wrong_key_rejected L"
  by (simp_all add: tampered_message_rejected_def wrong_key_rejected_def refused_unit refuses_def
      ed25519_verify_ok seed_of_def Let_def)

lemma crypto_tests: "ed25519_ok L \<Longrightarrow> sign_verify_round_trip L" "malformed_inputs_rejected L"
  "drand_stub_rejects" "nist_stub_rejects"
proof -
  show "ed25519_ok L \<Longrightarrow> sign_verify_round_trip L"
    by (simp add: sign_verify_round_trip_def Let_def ed25519_sign_verify)
qed (simp_all add: malformed_inputs_rejected_def ed25519_verify_def drand_stub_rejects_def
      nist_stub_rejects_def verify_drand_def verify_nist_beacon_def)

section \<open>Admission (\<open>runtime.rs\<close>, \<open>admission.rs\<close>)\<close>

definition signed_cap :: "ed25519_lib \<Rightarrow> string \<Rightarrow> key_ring \<times> principal \<times> signature" where
  "signed_cap L tool = (let seed = replicate 32 5; pk = ed25519_public_key L seed;
       keyring = \<lparr>entries = [\<lparr>kr_principal = PrincipalId pk, kr_alg = 0, public_key = pk\<rparr>]\<rparr>;
       sg = \<lparr>sig_alg = 0, sig_bytes = ed25519_sign L seed (cap_message (cap_atom (ascii tool)))\<rparr> in
     (keyring, Atom_p (PrincipalId pk), sg))"

definition valid_credential_for_the_right_tool_admits :: "ed25519_lib \<Rightarrow> bool" where
  "valid_credential_for_the_right_tool_admits L \<longleftrightarrow> (case signed_cap L ''SendEmail'' of
     (kr, p, sg) \<Rightarrow> admit L kr p (ascii ''SendEmail'') sg = Inr ())"

definition credential_for_a_different_tool_is_rejected :: "ed25519_lib \<Rightarrow> bool" where
  "credential_for_a_different_tool_is_rejected L \<longleftrightarrow> (case signed_cap L ''SendEmail'' of
     (kr, p, sg) \<Rightarrow> admit L kr p (ascii ''DeleteAll'') sg = Inl Unauthorized)"

definition unknown_issuer_is_rejected :: "ed25519_lib \<Rightarrow> bool" where
  "unknown_issuer_is_rejected L \<longleftrightarrow> (case signed_cap L ''SendEmail'' of
     (kr, p, sg) \<Rightarrow> admit L \<lparr>entries = []\<rparr> p (ascii ''SendEmail'') sg = Inl Unauthorized)"

definition cap_atom_is_fnv1a :: bool where
  "cap_atom_is_fnv1a \<longleftrightarrow> cap_atom (ascii []) = 0x811c9dc5 \<and>
     cap_atom (ascii ''SendEmail'') \<noteq> cap_atom (ascii ''DeleteAll'')"

definition decide_admits_the_right_tool :: "ed25519_lib \<Rightarrow> bool" where
  "decide_admits_the_right_tool L \<longleftrightarrow> (case signed_cap L ''SendEmail'' of
     (kr, p, sg) \<Rightarrow> decide L kr p (ascii ''SendEmail'') sg = Admit \<and>
       is_admit (decide L kr p (ascii ''SendEmail'') sg))"

definition decide_denies_a_different_tool_fail_closed :: "ed25519_lib \<Rightarrow> bool" where
  "decide_denies_a_different_tool_fail_closed L \<longleftrightarrow> (case signed_cap L ''SendEmail'' of
     (kr, p, sg) \<Rightarrow> \<not> is_admit (decide L kr p (ascii ''DeleteAll'') sg))"

definition decide_matches_admit :: "ed25519_lib \<Rightarrow> bool" where
  "decide_matches_admit L \<longleftrightarrow> (case signed_cap L ''SendEmail'' of
     (kr, p, sg) \<Rightarrow> list_all (\<lambda>tool. is_admit (decide L kr p (ascii tool) sg) =
       (\<not> isl (admit L kr p (ascii tool) sg))) [''SendEmail'', ''DeleteAll'', []])"

lemma admission_tests:
  assumes "ed25519_ok L"
  shows "valid_credential_for_the_right_tool_admits L" "unknown_issuer_is_rejected L"
    "cap_atom_is_fnv1a" "decide_admits_the_right_tool L" "decide_matches_admit L"
proof -
  have ok: "ed25519_verify L (ed25519_public_key L (replicate 32 5)) msg
      (ed25519_sign L (replicate 32 5) msg) = Inr ()" for msg
    by (rule ed25519_sign_verify [OF assms]) simp
  show "valid_credential_for_the_right_tool_admits L"
    by (simp add: valid_credential_for_the_right_tool_admits_def signed_cap_def admit_def
        verify_in_keyring_def ALG_ED25519_def ok Let_def)
  then show "decide_admits_the_right_tool L"
    by (auto simp: decide_admits_the_right_tool_def valid_credential_for_the_right_tool_admits_def decide_def)
  show "unknown_issuer_is_rejected L"
    by (simp add: unknown_issuer_is_rejected_def signed_cap_def admit_def verify_in_keyring_def Let_def)
  show "cap_atom_is_fnv1a" by (simp add: cap_atom_is_fnv1a_def cap_atom_def ascii_def of_char_def)
  show "decide_matches_admit L"
    by (auto simp: decide_matches_admit_def decide_def split: sum.splits admit_error.splits)
qed

text \<open>The signature is for the atom of the one tool; refused for the other's, it admits neither way.\<close>

lemma admission_refusals:
  assumes "refuses L 5 (cap_message (cap_atom (ascii ''SendEmail''))) (cap_message (cap_atom (ascii ''DeleteAll'')))"
  shows "credential_for_a_different_tool_is_rejected L" "decide_denies_a_different_tool_fail_closed L"
proof -
  let ?m = "\<lambda>tool. cap_message (cap_atom (ascii tool))"
  obtain e where "ed25519_verify L (ed25519_public_key L (replicate 32 5)) (?m ''DeleteAll'')
      (ed25519_sign L (replicate 32 5) (?m ''SendEmail'')) = Inl e"
    using refused [OF assms] by (cases "ed25519_verify L (ed25519_public_key L (seed_of 5)) (?m ''DeleteAll'')
      (ed25519_sign L (seed_of 5) (?m ''SendEmail''))") (auto simp: seed_of_def)
  then show *: "credential_for_a_different_tool_is_rejected L"
    by (simp add: credential_for_a_different_tool_is_rejected_def signed_cap_def admit_def
        verify_in_keyring_def ALG_ED25519_def Let_def)
  then show "decide_denies_a_different_tool_fail_closed L"
    by (auto simp: decide_denies_a_different_tool_fail_closed_def
        credential_for_a_different_tool_is_rejected_def decide_def)
qed

end
