(* ===== verification/Auth_Tests.thy ===== *)
theory Auth_Tests
  imports Node_Tests
begin

text \<open>
  The unit tests of the authenticated replica (\<open>crates/dlc-d-node/src/auth.rs\<close>): an in-memory
  driver that hands messages to three replicas, last one first, and what it ends with.
\<close>

section \<open>The driver\<close>

definition auth_init :: trm where
  "auth_init = Lam (Atom 0) (Var 0)"

text \<open>\<open>expect\<close>: a seed that does not match its seat is a panic.\<close>

definition auth_test_node :: "ed25519_lib \<Rightarrow> u32 \<Rightarrow> auth_node option" where
  "auth_test_node L idx = (case roster3 L of None \<Rightarrow> None
     | Some r \<Rightarrow> auth_new L (seed_of (ucast (idx + 1))) r idx 0 auth_init (fb_zero 1))"

definition enqueue ::
    "nat \<Rightarrow> (u32 \<times> auth_msg) list \<Rightarrow> u32 \<Rightarrow> auth_out list \<Rightarrow> (u32 \<times> auth_msg) list" where
  "enqueue n queue from outs = foldl (\<lambda>q x. case ao_dest x of
       Peers \<Rightarrow> q @ map (\<lambda>j. (j, ao_msg x)) (filter (\<lambda>j. j \<noteq> from) (map of_nat [0..<n]))
     | To j \<Rightarrow> q @ [(j, ao_msg x)]) queue outs"

text \<open>
  \<open>while let Some((to, msg)) = queue.pop()\<close>, with the messages that are still allowed as a count down:
  \<open>None\<close> is the failed assertion, an index out of range, or a panic of a handler.
\<close>

primrec pump :: "ed25519_lib \<Rightarrow> (cbor \<Rightarrow> bytes) \<Rightarrow> u32 list \<Rightarrow> nat \<Rightarrow> auth_node list \<Rightarrow>
    (u32 \<times> auth_msg) list \<Rightarrow> auth_node list option" where
  "pump L cw dead 0 nds queue = (if queue = [] then Some nds else None)"
| "pump L cw dead (Suc k) nds queue =
     (if queue = [] then Some nds
      else let (to_idx, msg) = last queue; rest = butlast queue in
        if to_idx \<in> set dead then pump L cw dead k nds rest
        else (case get_nth nds (unat to_idx) of
            None \<Rightarrow> None
          | Some nd \<Rightarrow> (case auth_handle L cw nd msg of
                None \<Rightarrow> None
              | Some (nd2, outs) \<Rightarrow> pump L cw dead k (nds[unat to_idx := nd2])
                  (enqueue (length nds) rest to_idx outs))))"

fun drive_workload :: "ed25519_lib \<Rightarrow> (cbor \<Rightarrow> bytes) \<Rightarrow> u32 list \<Rightarrow> auth_node list \<Rightarrow>
    (command \<times> capability) list \<Rightarrow> auth_node list option" where
  "drive_workload L cw dead nds [] = Some nds"
| "drive_workload L cw dead nds ((c, k) # ws) =
     (case get_nth nds 0 of
        None \<Rightarrow> None
      | Some ld \<Rightarrow> (case auth_submit L cw ld c k of
          None \<Rightarrow> None
        | Some (ld2, outs) \<Rightarrow>
            (case pump L cw dead 9999 (nds[0 := ld2]) (enqueue (length nds) [] 0 outs) of
               None \<Rightarrow> None
             | Some nds2 \<Rightarrow> drive_workload L cw dead nds2 ws)))"

definition three_nodes :: "ed25519_lib \<Rightarrow> auth_node list option" where
  "three_nodes L = (case (auth_test_node L 0, auth_test_node L 1, auth_test_node L 2) of
     (Some a, Some b, Some c) \<Rightarrow> Some [a, b, c] | _ \<Rightarrow> None)"

definition run_three :: "ed25519_lib \<Rightarrow> (cbor \<Rightarrow> bytes) \<Rightarrow> command \<Rightarrow> u32 list \<Rightarrow> auth_node list option" where
  "run_three L cw c dead = (case three_nodes L of None \<Rightarrow> None
     | Some nds \<Rightarrow> drive_workload L cw dead nds [(c, issue_capability L cw (seed_of 9) c)])"

definition node_view :: "auth_node \<Rightarrow> (u32 \<times> trm) option" where
  "node_view n = map_option (\<lambda>r. (applied r, store r)) (get_nth (replicas (an_view n)) 0)"

section \<open>The tests\<close>

definition authenticated_cluster_converges :: "ed25519_lib \<Rightarrow> (cbor \<Rightarrow> bytes) \<Rightarrow> bool" where
  "authenticated_cluster_converges L cw \<longleftrightarrow> (let c = codec_cmd; expected = apply_prefix auth_init [c] in
     case run_three L cw c [] of None \<Rightarrow> False
     | Some out \<Rightarrow> list_all (\<lambda>nd. node_view nd = Some (1, expected) \<and> expected \<noteq> auth_init) out)"

definition one_crash_within_budget_still_commits :: "ed25519_lib \<Rightarrow> (cbor \<Rightarrow> bytes) \<Rightarrow> bool" where
  "one_crash_within_budget_still_commits L cw \<longleftrightarrow>
    (let c = codec_cmd; expected = apply_prefix auth_init [c] in
     case run_three L cw c [2] of None \<Rightarrow> False
     | Some out \<Rightarrow> list_all (\<lambda>nd. node_view nd = Some (1, expected)) [out ! 0, out ! 1])"

definition forged_vote_from_non_member_is_ignored :: "ed25519_lib \<Rightarrow> (cbor \<Rightarrow> bytes) \<Rightarrow> bool" where
  "forged_vote_from_non_member_is_ignored L cw \<longleftrightarrow> (let c = codec_cmd in
     case auth_test_node L 0 of None \<Rightarrow> False
     | Some ld \<Rightarrow> (case auth_submit L cw ld c (issue_capability L cw (seed_of 9) c) of None \<Rightarrow> False
       | Some (ld1, _) \<Rightarrow> map_option fst (node_view ld1) = Some 0 \<and>
         (case auth_handle L cw ld1 (AuthVote (cast_vote L cw (seed_of 42) 0 c)) of None \<Rightarrow> False
          | Some (ld2, outs) \<Rightarrow> outs = [] \<and> map_option fst (node_view ld2) = Some 0)))"

definition forged_commit_is_rejected_by_followers :: "ed25519_lib \<Rightarrow> (cbor \<Rightarrow> bytes) \<Rightarrow> bool" where
  "forged_commit_is_rejected_by_followers L cw \<longleftrightarrow>
    (let c = codec_cmd; v = cast_vote L cw (seed_of 1) 0 c;
       forged = \<lparr>c_slot = 0, c_cmd = c, c_qc = \<lparr>qc_votes = [v, v, v]\<rparr>\<rparr> in
     case auth_test_node L 1 of None \<Rightarrow> False
     | Some follower \<Rightarrow> (case auth_handle L cw follower (AuthCommit forged) of None \<Rightarrow> False
       | Some (f2, outs) \<Rightarrow> outs = [] \<and> map_option fst (node_view f2) = Some 0 \<and>
           length (log (an_view f2)) = 0))"

definition vote_for_wrong_command_does_not_count :: "ed25519_lib \<Rightarrow> (cbor \<Rightarrow> bytes) \<Rightarrow> bool" where
  "vote_for_wrong_command_does_not_count L cw \<longleftrightarrow>
    (let c1 = codec_cmd; c2 = \<lparr>payload = Var 3, cap = None\<rparr> in
     case auth_test_node L 0 of None \<Rightarrow> False
     | Some ld \<Rightarrow> (case auth_submit L cw ld c1 (issue_capability L cw (seed_of 9) c1) of None \<Rightarrow> False
       | Some (ld1, _) \<Rightarrow>
         (case auth_handle L cw ld1 (AuthVote (cast_vote L cw (seed_of 2) 0 c2)) of None \<Rightarrow> False
          | Some (ld2, outs) \<Rightarrow> outs = [] \<and> map_option fst (node_view ld2) = Some 0)))"

definition seed_must_match_roster_seat :: "ed25519_lib \<Rightarrow> bool" where
  "seed_must_match_roster_seat L \<longleftrightarrow> with_roster3 L (\<lambda>r.
     auth_new L (seed_of 5) r 0 0 auth_init (fb_zero 1) = None \<and>
     auth_new L (seed_of 1) r 0 0 auth_init (fb_zero 1) \<noteq> None)"

section \<open>The replicas of a run\<close>

definition trio :: "ed25519_lib \<Rightarrow> roster" where
  "trio L = \<lparr>members = [ed25519_public_key L (seed_of 1), ed25519_public_key L (seed_of 2),
     ed25519_public_key L (seed_of 3)], rquorum = Crash\<rparr>"

definition seat :: "ed25519_lib \<Rightarrow> u32 \<Rightarrow> auth_node" where
  "seat L i = \<lparr>an_seed = seed_of (ucast (i + 1)), an_pk = ed25519_public_key L (seed_of (ucast (i + 1))),
     an_roster = trio L, an_idx = i, an_leader_idx = 0, an_view = fresh_view i auth_init (fb_zero 1),
     an_ballot = [None, None, None], an_proposing = None\<rparr>"

lemma roster3_trio: "test_keys L \<Longrightarrow> roster3 L = Some (trio L)"
  using with_roster3_iff [of L "\<lambda>r. r = trio L"]
  by (auto simp: with_roster3_def trio_def split: option.splits)

lemma test_node_seat: "test_keys L \<Longrightarrow> i \<in> {0, 1, 2} \<Longrightarrow> auth_test_node L i = Some (seat L i)"
  by (auto simp: auth_test_node_def roster3_trio auth_new_def Let_def roster_member_def get_nth_def
      seat_def roster_len_def) (simp_all add: trio_def numeral_eq_Suc)

lemma next_slot_fresh: "auth_next_slot n = 0" if "log (an_view n) = []" for n
  using that by (simp add: auth_next_slot_def next_slot_def)

lemma fresh_commit:
  "apply_commit_view (fresh_view me init bud) c =
     Some \<lparr>replicas = [\<lparr>rid = me, store = apply_command c init, applied = 1\<rparr>], log = [c], budget = bud\<rparr>"
proof -
  have "drain \<lparr>replicas = [\<lparr>rid = me, store = apply_command c init, applied = 1\<rparr>], log = [c], budget = bud\<rparr> =
      Some \<lparr>replicas = [\<lparr>rid = me, store = apply_command c init, applied = 1\<rparr>], log = [c], budget = bud\<rparr>"
    by (subst drain.simps) simp
  then show ?thesis
    unfolding apply_commit_view_def
    by (subst drain.simps) (simp add: commit_def fresh_view_def world_step_map deliver_def get_nth_def)
qed

text \<open>The states and messages of the run, in the order in which they arise.\<close>

definition asked :: "ed25519_lib \<Rightarrow> (cbor \<Rightarrow> bytes) \<Rightarrow> command \<Rightarrow> auth_node" where
  "asked L cw c = (seat L 0)\<lparr>an_ballot := [Some c, None, None],
     an_proposing := Some (c, [cast_vote L cw (seed_of 1) 0 c])\<rparr>"

definition proposed :: "ed25519_lib \<Rightarrow> (cbor \<Rightarrow> bytes) \<Rightarrow> command \<Rightarrow> auth_msg" where
  "proposed L cw c = AuthPropose (propose L cw (seed_of 1) 0 c (issue_capability L cw (seed_of 9) c))"

definition certified_by :: "ed25519_lib \<Rightarrow> (cbor \<Rightarrow> bytes) \<Rightarrow> command \<Rightarrow> u8 \<Rightarrow> auth_msg" where
  "certified_by L cw c n = AuthCommit \<lparr>c_slot = 0, c_cmd = c,
     c_qc = \<lparr>qc_votes = [cast_vote L cw (seed_of 1) 0 c, cast_vote L cw (seed_of n) 0 c]\<rparr>\<rparr>"

definition finished :: "ed25519_lib \<Rightarrow> command \<Rightarrow> u32 \<Rightarrow> auth_node" where
  "finished L c i = (seat L i)\<lparr>an_view := \<lparr>replicas =
     [\<lparr>rid = i, store = apply_command c auth_init, applied = 1\<rparr>], log = [c], budget = fb_zero 1\<rparr>\<rparr>"

lemma seat_simps [simp]:
  "an_roster (seat L i) = trio L" "an_idx (seat L i) = i" "an_leader_idx (seat L i) = 0"
  "an_proposing (seat L i) = None" "an_ballot (seat L i) = [None, None, None]"
  "an_view (seat L i) = fresh_view i auth_init (fb_zero 1)"
  "an_seed (seat L i) = seed_of (ucast (i + 1))" "auth_next_slot (seat L i) = 0"
  by (simp_all add: seat_def auth_next_slot_def next_slot_def fresh_view_def)

lemma fresh_slot [simp]: "next_slot (fresh_view i s b) = 0"
  by (simp add: next_slot_def fresh_view_def)

lemma trio_simps [simp]: "roster_len (trio L) = 3" "rquorum (trio L) = Crash"
  "members (trio L) = [ed25519_public_key L (seed_of 1), ed25519_public_key L (seed_of 2),
     ed25519_public_key L (seed_of 3)]"
  by (simp_all add: trio_def roster_len_def)

lemma trio_index:
  assumes "test_keys L"
  shows "index_of (trio L) (ed25519_public_key L (seed_of 1)) = Some 0"
    "index_of (trio L) (ed25519_public_key L (seed_of 2)) = Some 1"
    "index_of (trio L) (ed25519_public_key L (seed_of 3)) = Some 2"
  by (simp_all add: index_of_def test_keys_differ assms)

lemma trio_vote: "test_keys L \<Longrightarrow> n \<in> {1, 2, 3} \<Longrightarrow>
    verify_vote L cw (cast_vote L cw (seed_of n) s c) s c (trio L)"
  by (auto simp: verify_vote_def cast_vote_def own_verifies)

lemma cast_voter [simp]: "voter (cast_vote L cw sd s c) = ed25519_public_key L sd"
  by (simp add: cast_vote_def)

lemma submit_seat:
  assumes "test_keys L"
  shows "auth_submit L cw (seat L 0) c (issue_capability L cw (seed_of 9) c) =
    Some (asked L cw c, [\<lparr>ao_dest = Peers, ao_msg = proposed L cw c\<rparr>])"
proof -
  have "verify_capability L cw (issue_capability L cw (seed_of 9) c) c"
    by (simp add: verify_capability_def issue_capability_def own_verifies assms)
  then show ?thesis
    by (simp add: auth_submit_def auth_is_leader_def Let_def record_vote_def trio_vote trio_index assms
        auth_next_slot_def auth_decided_def decided_def count_vote_def is_quorum_def numeral_3_eq_3)
      (simp add: asked_def proposed_def)
qed

lemma seat_votes:
  assumes "test_keys L"
  shows "auth_handle L cw (seat L i) (proposed L cw c) = Some (seat L i,
    [\<lparr>ao_dest = To 0, ao_msg = AuthVote (cast_vote L cw (seed_of (ucast (i + 1))) 0 c)\<rparr>])"
  by (simp add: auth_handle_def proposed_def verify_proposal_def propose_def verify_capability_def
      issue_capability_def own_verifies assms)

lemma leader_certifies:
  assumes "test_keys L" "n = 2 \<or> n = 3"
  shows "auth_handle L cw (asked L cw c) (AuthVote (cast_vote L cw (seed_of n) 0 c)) =
    Some (finished L c 0, [\<lparr>ao_dest = Peers, ao_msg = certified_by L cw c n\<rparr>])"
  using assms(2)
  by (elim disjE)
    (simp_all add: auth_handle_def asked_def auth_is_leader_def record_vote_def auth_next_slot_def
      trio_vote trio_index assms(1) Let_def auth_decided_def decided_def count_vote_def is_quorum_def
      auth_apply_commit_def fresh_commit finished_def certified_by_def seat_def numeral_3_eq_3)

lemma seat_commits:
  assumes "test_keys L" "n = 2 \<or> n = 3"
  shows "auth_handle L cw (seat L i) (certified_by L cw c n) = Some (finished L c i, [])"
proof -
  have "verify_commit L cw \<lparr>c_slot = 0, c_cmd = c, c_qc = \<lparr>qc_votes =
      [cast_vote L cw (seed_of 1) 0 c, cast_vote L cw (seed_of n) 0 c]\<rparr>\<rparr> (trio L)"
    using assms by (auto simp: verify_commit_def verify_qc_char trio_vote roster_is_quorum_def
        quorum_reached_def test_keys_differ)
  then show ?thesis
    by (simp add: auth_handle_def certified_by_def auth_apply_commit_def fresh_commit finished_def)
qed

lemma finished_slot: "auth_next_slot (finished L c i) = 1"
  by (simp add: finished_def auth_next_slot_def next_slot_def)

lemma stale_proposal: "auth_handle L cw (finished L c i) (proposed L cw c) = Some (finished L c i, [])"
  by (simp add: auth_handle_def proposed_def propose_def finished_slot)

lemma stale_commit: "auth_handle L cw (finished L c i) (certified_by L cw c n) = Some (finished L c i, [])"
  by (simp add: auth_handle_def certified_by_def finished_slot)

section \<open>What the tests find\<close>

lemma pump_step:
  assumes "to_idx \<notin> set dead" "unat to_idx < length nds"
  shows "pump L cw dead (Suc k) nds (rest @ [(to_idx, msg)]) =
    (case auth_handle L cw (nds ! unat to_idx) msg of None \<Rightarrow> None
     | Some (nd2, outs) \<Rightarrow> pump L cw dead k (nds[unat to_idx := nd2])
         (enqueue (length nds) rest to_idx outs))"
  using assms by (simp add: get_nth_def)

lemma pump_skip: "to_idx \<in> set dead \<Longrightarrow>
    pump L cw dead (Suc k) nds (rest @ [(to_idx, msg)]) = pump L cw dead k nds rest"
  by simp

lemma pump_done: "pump L cw dead k nds [] = Some nds"
  by (cases k) simp_all

declare pump.simps [simp del]

lemma enqueue_peers:
  "enqueue (Suc (Suc (Suc 0))) q 0 [\<lparr>ao_dest = Peers, ao_msg = m\<rparr>] = q @ [(1, m), (2, m)]"
  by (simp add: enqueue_def)

lemma enqueue_to: "enqueue n q i [\<lparr>ao_dest = To j, ao_msg = m\<rparr>] = q @ [(j, m)]"
  by (simp add: enqueue_def)

lemma enqueue_none: "enqueue n q i [] = q"
  by (simp add: enqueue_def)

lemma three_nodes_seats: "test_keys L \<Longrightarrow> three_nodes L = Some [seat L 0, seat L 1, seat L 2]"
  by (simp add: three_nodes_def test_node_seat)

lemma pump_all:
  assumes "test_keys L"
  shows "pump L cw [] (k + 6) [asked L cw c, seat L 1, seat L 2]
      [(1, proposed L cw c), (2, proposed L cw c)] =
    Some [finished L c 0, finished L c 1, finished L c 2]"
proof -
  let ?P = "proposed L cw c" and ?C = "certified_by L cw c 3" and ?F = "finished L c"
  let ?V = "AuthVote (cast_vote L cw (seed_of 3) 0 c)"
  have "pump L cw [] (Suc (Suc (Suc (Suc (Suc (Suc k)))))) [asked L cw c, seat L 1, seat L 2]
      ([(1, ?P)] @ [(2, ?P)]) =
    pump L cw [] (Suc (Suc (Suc (Suc (Suc k))))) [asked L cw c, seat L 1, seat L 2] ([(1, ?P)] @ [(0, ?V)])"
    by (subst pump_step) (simp_all add: seat_votes assms enqueue_to)
  also have "\<dots> = pump L cw [] (Suc (Suc (Suc (Suc k)))) [?F 0, seat L 1, seat L 2]
      ([(1, ?P), (1, ?C)] @ [(2, ?C)])"
    by (subst pump_step) (simp_all add: leader_certifies assms enqueue_peers)
  also have "\<dots> = pump L cw [] (Suc (Suc (Suc k))) [?F 0, seat L 1, ?F 2] ([(1, ?P)] @ [(1, ?C)])"
    by (subst pump_step) (simp_all add: seat_commits assms enqueue_none)
  also have "\<dots> = pump L cw [] (Suc (Suc k)) [?F 0, ?F 1, ?F 2] ([] @ [(1, ?P)])"
    by (subst pump_step) (simp_all add: seat_commits assms enqueue_none)
  also have "\<dots> = pump L cw [] (Suc k) [?F 0, ?F 1, ?F 2] []"
    by (subst pump_step) (simp_all add: stale_proposal enqueue_none)
  finally show ?thesis by (simp add: pump_done numeral_eq_Suc)
qed

lemma pump_crashed:
  assumes "test_keys L"
  shows "pump L cw [2] (k + 5) [asked L cw c, seat L 1, seat L 2]
      [(1, proposed L cw c), (2, proposed L cw c)] =
    Some [finished L c 0, finished L c 1, seat L 2]"
proof -
  let ?P = "proposed L cw c" and ?C = "certified_by L cw c 2" and ?F = "finished L c"
  let ?V = "AuthVote (cast_vote L cw (seed_of 2) 0 c)"
  have "pump L cw [2] (Suc (Suc (Suc (Suc (Suc k))))) [asked L cw c, seat L 1, seat L 2]
      ([(1, ?P)] @ [(2, ?P)]) =
    pump L cw [2] (Suc (Suc (Suc (Suc k)))) [asked L cw c, seat L 1, seat L 2] ([] @ [(1, ?P)])"
    by (subst pump_skip) simp_all
  also have "\<dots> = pump L cw [2] (Suc (Suc (Suc k))) [asked L cw c, seat L 1, seat L 2] ([] @ [(0, ?V)])"
    by (subst pump_step) (simp_all add: seat_votes assms enqueue_to)
  also have "\<dots> = pump L cw [2] (Suc (Suc k)) [?F 0, seat L 1, seat L 2] ([(1, ?C)] @ [(2, ?C)])"
    by (subst pump_step) (simp_all add: leader_certifies assms enqueue_peers)
  also have "\<dots> = pump L cw [2] (Suc k) [?F 0, seat L 1, seat L 2] ([] @ [(1, ?C)])"
    by (subst pump_skip) simp_all
  also have "\<dots> = pump L cw [2] k [?F 0, ?F 1, seat L 2] []"
    by (subst pump_step) (simp_all add: seat_commits assms enqueue_none)
  finally show ?thesis by (simp add: pump_done numeral_eq_Suc)
qed

lemma run_three_ends:
  assumes "test_keys L"
  shows "run_three L cw c [] = Some [finished L c 0, finished L c 1, finished L c 2]"
    "run_three L cw c [2] = Some [finished L c 0, finished L c 1, seat L 2]"
  using pump_all [OF assms, of cw 9993 c] pump_crashed [OF assms, of cw 9994 c]
  by (simp_all add: run_three_def three_nodes_seats assms get_nth_def submit_seat enqueue_peers)

lemma finished_view:
  "node_view (finished L c i) = Some (1, apply_command c auth_init)"
  by (simp add: node_view_def finished_def get_nth_def)

lemma seat_starts: "node_view (seat L i) = Some (0, auth_init)"
  by (simp add: node_view_def fresh_view_def get_nth_def)

lemma asked_view: "node_view (asked L cw c) = Some (0, auth_init)"
  by (simp add: asked_def node_view_def fresh_view_def get_nth_def)

lemma apply_prefix_one: "apply_prefix s [c] = apply_command c s"
  by (simp add: apply_prefix_def)

lemma codec_cmd_duplicates: "apply_command codec_cmd auth_init = Pair_t auth_init auth_init"
  by (simp add: apply_command_def codec_cmd_def auth_init_def apply_fuel_def reduce_steps_of subst_def)

lemma run_tests:
  assumes "test_keys L"
  shows "authenticated_cluster_converges L cw" "one_crash_within_budget_still_commits L cw"
  by (simp_all add: authenticated_cluster_converges_def one_crash_within_budget_still_commits_def
      run_three_ends assms finished_view apply_prefix_one codec_cmd_duplicates Let_def)

lemma unverified_vote:
  "\<not> verify_vote L cw v 0 c (trio L) \<Longrightarrow>
    auth_handle L cw (asked L cw c) (AuthVote v) = Some (asked L cw c, [])"
  by (simp add: auth_handle_def asked_def auth_is_leader_def record_vote_def auth_next_slot_def)

lemma forged_vote_test: "test_keys L \<Longrightarrow> forged_vote_from_non_member_is_ignored L cw"
  by (simp add: forged_vote_from_non_member_is_ignored_def Let_def test_node_seat submit_seat asked_view
      unverified_vote verify_vote_def test_keys_differ)

lemma forged_commit_test:
  assumes "test_keys L"
  shows "forged_commit_is_rejected_by_followers L cw"
proof -
  have "\<not> verify_qc L cw \<lparr>qc_votes = [v, v, v]\<rparr> s c (trio L)" for v s c
    by (simp add: verify_qc_char roster_is_quorum_def quorum_reached_def)
  then show ?thesis
    by (simp add: forged_commit_is_rejected_by_followers_def Let_def test_node_seat assms
        auth_handle_def verify_commit_def seat_starts) (simp add: fresh_view_def)
qed

lemma wrong_command_test:
  assumes "test_keys L" "refuses L 2 (vote_msg cw 0 \<lparr>payload = Var 3, cap = None\<rparr>) (vote_msg cw 0 codec_cmd)"
  shows "vote_for_wrong_command_does_not_count L cw"
  by (simp add: vote_for_wrong_command_does_not_count_def Let_def test_node_seat submit_seat asked_view
      unverified_vote verify_vote_def cast_vote_def refused assms)

lemma roster_seat_test:
  "test_keys L \<Longrightarrow> ed25519_public_key L (seed_of 5) \<noteq> ed25519_public_key L (seed_of 1) \<Longrightarrow>
    seed_must_match_roster_seat L"
  by (auto simp: seed_must_match_roster_seat_def with_roster3_iff auth_new_def Let_def roster_member_def
      get_nth_def)

text \<open>What the tests ask of a signature library can hold: one that marks the signatures of one message.\<close>

definition marking_lib :: "bytes \<Rightarrow> ed25519_lib" where
  "marking_lib m =
     \<lparr>dalek_public = (\<lambda>seed. seed),
      dalek_sign = (\<lambda>seed msg. take 64 (seed @ replicate 64 (if msg = m then 1 else 0))),
      dalek_key_ok = (\<lambda>pk. True),
      dalek_verify = (\<lambda>pk msg sg. sg = take 64 (pk @ replicate 64 (if msg = m then 1 else 0)))\<rparr>"

lemma marking_lib_keys: "test_keys (marking_lib m)"
proof -
  have "ed25519_ok (marking_lib m)" by (auto simp: ed25519_ok_def marking_lib_def)
  moreover have "seed_of a \<noteq> seed_of b" if "a \<noteq> b" for a b
    using that by (simp add: seed_of_def replicate_eq_replicate)
  ultimately show ?thesis by (simp add: test_keys_def ed25519_public_key_def) (simp add: marking_lib_def)
qed

lemma marking_lib_refuses: "m \<noteq> other \<Longrightarrow> refuses (marking_lib m) n m other"
  by (simp add: refuses_def ed25519_public_key_def ed25519_sign_def marking_lib_def)

lemma wrong_command_test_applies: "\<exists>L. test_keys L \<and> vote_for_wrong_command_does_not_count L put"
proof -
  have "vote_msg put 0 \<lparr>payload = Var 3, cap = None\<rparr> \<noteq> vote_msg put 0 codec_cmd"
    using cmd_bytes_inj [OF toy_stream [of 256] _ shallow_codec_cmd(1) _ shallow_codec_cmd(2),
        of "\<lparr>payload = Var 3, cap = None\<rparr>"]
    by (auto simp: vote_msg_def wf_command_def shallow_def u32_int_def codec_cmd_def)
  from wrong_command_test [OF marking_lib_keys marking_lib_refuses, OF this] marking_lib_keys
  show ?thesis by blast
qed

end
