(* ===== verification/Bridge_Tests.thy ===== *)
theory Bridge_Tests
  imports Wire_Tests Auth_Tests Export Envelope Interop Demo Ledger_Crate
begin

text \<open>
  Unit tests of the crates around the core: the exporters and the envelope of \<open>dlc-protocol\<close>,
  \<open>dlc-interop\<close>, the equivocation scenario of \<open>dlc-d-node\<close>, the witnesses and the envelope parser
  of \<open>dlc-d\<close> and its macro, and the ledger.  Third-party crates are the parameters they are in the
  model.
\<close>

section \<open>Exporters (\<open>export_tamarin.rs\<close>, \<open>export_proverif.rs\<close>)\<close>

text \<open>\<open>str::lines().count()\<close>: a last line need not be ended.\<close>

definition line_count :: "string \<Rightarrow> nat" where
  "line_count s = count_list s (CHR 0x0A) + (if s = [] \<or> last s = CHR 0x0A then 0 else 1)"

definition says_emits_event_line :: bool where
  "says_emits_event_line \<longleftrightarrow> (let t = Sign (party 1) (Var 0) ab_sig; out = term_to_proverif t in
     sublist ''Says('' out)"

definition delegate_emits_full_chain :: bool where
  "delegate_emits_full_chain \<longleftrightarrow> (let m = Sign (party 1) (Var 0) ab_sig; n = Sign (party 2) (Var 1) ab_sig;
       d = Delegate m n; out = term_to_proverif d in
     sublist ''DelegateAccept('' out \<and> line_count out = 3)"

definition says_emits_one_line :: bool where
  "says_emits_one_line \<longleftrightarrow> (let t = Sign (party 1) (Var 0) ab_sig; out = term_to_tamarin t in
     sublist ''Says('' out \<and> line_count out = 1)"

definition delegate_emits_three_lines :: bool where
  "delegate_emits_three_lines \<longleftrightarrow> (let m = Sign (party 1) (Var 0) ab_sig; n = Sign (party 2) (Var 1) ab_sig;
       d = Delegate m n; out = term_to_tamarin d in
     line_count out = 3 \<and> sublist ''DelegateAccept('' out)"

lemma sublist_line:
  assumes "e \<in> set es" "sublist xs (f e)"
  shows "sublist xs (concat (map f es))"
proof -
  from assms(1) obtain as bs where "es = as @ e # bs" by (meson split_list)
  then have "concat (map f es) = concat (map f as) @ f e @ concat (map f bs)" by simp
  with assms(2) show ?thesis by (metis sublist_appendI sublist_def append_assoc)
qed

lemma line_heads:
  "sublist ''Says('' (tamarin_line (Says_e p))" "sublist ''Says('' (proverif_line (Says_e p))"
  "sublist ''DelegateAccept('' (tamarin_line (DelegateAccept_e p q))"
  "sublist ''DelegateAccept('' (proverif_line (DelegateAccept_e p q))"
  unfolding tamarin_line_def proverif_line_def event.case by (rule prefix_imp_sublist, simp)+

lemma lines_ended:
  assumes "es \<noteq> []"
  shows "line_count (concat (map tamarin_line es)) = length es" "line_count (concat (map proverif_line es)) = length es"
proof -
  have "last (tamarin_line e) = CHR 0x0A" "last (proverif_line e) = CHR 0x0A" "tamarin_line e \<noteq> []" "proverif_line e \<noteq> []" for e
    by (cases e; simp add: tamarin_line_def proverif_line_def newline_def)+
  moreover obtain xs e where "es = xs @ [e]" using assms by (cases es rule: rev_cases) auto
  ultimately show "line_count (concat (map tamarin_line es)) = length es" "line_count (concat (map proverif_line es)) = length es"
    by (simp_all add: line_count_def count_list_append count_concat line_newlines)
qed

lemma event_lines:
  "Says_e p \<in> set es \<Longrightarrow> sublist ''Says('' (concat (map tamarin_line es))"
  "Says_e p \<in> set es \<Longrightarrow> sublist ''Says('' (concat (map proverif_line es))"
  "DelegateAccept_e p q \<in> set es \<Longrightarrow> sublist ''DelegateAccept('' (concat (map tamarin_line es))"
  "DelegateAccept_e p q \<in> set es \<Longrightarrow> sublist ''DelegateAccept('' (concat (map proverif_line es))"
  by (erule sublist_line, rule line_heads)+

lemma export_tests: "says_emits_event_line" "delegate_emits_full_chain" "says_emits_one_line"
  "delegate_emits_three_lines"
  unfolding says_emits_event_line_def delegate_emits_full_chain_def says_emits_one_line_def
    delegate_emits_three_lines_def Let_def term_to_tamarin_def term_to_proverif_def walk_tamarin_events
    walk_proverif_events append_Nil
  by (rule event_lines conjI | simp add: delegate_events_def lines_ended del: concat.simps list.map)+

section \<open>The envelope (\<open>envelope.rs\<close>)\<close>

definition keyring_for :: "ed25519_lib \<Rightarrow> (bytes \<Rightarrow> bytes) \<Rightarrow> bytes \<Rightarrow> key_ring \<times> principal_id" where
  "keyring_for L sha256 seed = (let pk = ed25519_public_key L seed;
       pid = PrincipalId (principal_id_of sha256 pk) in
     (\<lparr>entries = [\<lparr>kr_principal = pid, kr_alg = ALG_ED25519, public_key = pk\<rparr>]\<rparr>, pid))"

definition wrap_unwrap_round_trip :: "cose_lib \<Rightarrow> ed25519_lib \<Rightarrow> (bytes \<Rightarrow> bytes) \<Rightarrow> bool" where
  "wrap_unwrap_round_trip C L sha256 \<longleftrightarrow> (let seed = replicate 32 0x11;
       (keyring, pid) = keyring_for L sha256 seed; token = ascii ''not-really-a-token-but-any-bytes'' in
     case wrap_sign1 C L sha256 token seed of
       Inl e \<Rightarrow> False
     | Inr cose \<Rightarrow> unwrap_sign1 C L cose keyring = Inr (token, pid))"

definition unknown_presenter_rejected :: "cose_lib \<Rightarrow> ed25519_lib \<Rightarrow> (bytes \<Rightarrow> bytes) \<Rightarrow> bool" where
  "unknown_presenter_rejected C L sha256 \<longleftrightarrow> (let seed = replicate 32 0x11; other = replicate 32 0x22;
       (keyring, _) = keyring_for L sha256 other in
     case wrap_sign1 C L sha256 (ascii ''payload'') seed of
       Inl e \<Rightarrow> False
     | Inr cose \<Rightarrow> isl (unwrap_sign1 C L cose keyring))"

lemma envelope_tests:
  assumes "cose_ok C" "ed25519_ok L" "\<And>m. length (sha256 m) = 32"
  shows "wrap_unwrap_round_trip C L sha256"
    "sha256 (ed25519_public_key L (replicate 32 0x11)) \<noteq> sha256 (ed25519_public_key L (replicate 32 0x22)) \<Longrightarrow>
      unknown_presenter_rejected C L sha256"
proof -
  note w = wrapped [OF assms(1,2), of "replicate 32 0x11" sha256]
  show "wrap_unwrap_round_trip C L sha256"
    using w [of "ascii ''not-really-a-token-but-any-bytes''"]
    by (auto simp: wrap_unwrap_round_trip_def keyring_for_def Let_def unwrap_sign1_def principal_id_of_def assms(3))
  show "unknown_presenter_rejected C L sha256"
    if "sha256 (ed25519_public_key L (replicate 32 0x11)) \<noteq> sha256 (ed25519_public_key L (replicate 32 0x22))"
    using w [of "ascii ''payload''"] that
    by (auto simp: unknown_presenter_rejected_def keyring_for_def Let_def unwrap_sign1_def principal_id_of_def)
qed

section \<open>Interop tokens and Biscuits (\<open>dlc-interop\<close>)\<close>

text \<open>The two files' helpers differ in the seed's byte.\<close>

definition signed_credential ::
    "ed25519_lib \<Rightarrow> (cbor \<Rightarrow> bytes) \<Rightarrow> u8 \<Rightarrow> key_ring \<times> principal \<times> trm \<times> signature" where
  "signed_credential L cw b = (let seed = replicate 32 b; pk = ed25519_public_key L seed;
       keyring = \<lparr>entries = [\<lparr>kr_principal = PrincipalId pk, kr_alg = 0, public_key = pk\<rparr>]\<rparr>;
       t = Var 0; sg = \<lparr>sig_alg = 0, sig_bytes = ed25519_sign L seed (canonical_bytes cw t)\<rparr> in
     (keyring, Atom_p (PrincipalId pk), t, sg))"

definition test_audience :: bytes where
  "test_audience = ascii ''resource://tool/send_email''"

definition round_trip_preserves_verification :: "ed25519_lib \<Rightarrow> (interop_token \<Rightarrow> bytes) \<Rightarrow>
    (bytes \<Rightarrow> string + interop_token) \<Rightarrow> (cbor \<Rightarrow> bytes) \<Rightarrow> (bytes \<Rightarrow> string + cbor) \<Rightarrow> bool" where
  "round_trip_preserves_verification L tw tr cw cr \<longleftrightarrow>
    (let (keyring, p, t, sg) = signed_credential L cw 7 in
     verify_credential L cw keyring p t sg = Inr () \<and>
     (case encode_credential tw cw p test_audience t sg of Inl e \<Rightarrow> False
      | Inr bs \<Rightarrow> (case decode_credential tr cr bs of Inl e \<Rightarrow> False
        | Inr (p2, audience2, t2, sg2) \<Rightarrow>
            p2 = p \<and> audience2 = test_audience \<and> t2 = t \<and> sg2 = sg \<and>
            verify_credential L cw keyring p2 t2 sg2 = Inr ())))"

text \<open>\<open>sig.bytes[0] ^= 0xFF\<close>.\<close>

definition tampered :: "bytes \<Rightarrow> bytes" where
  "tampered bs = bs[0 := xor (bs ! 0) 0xFF]"

definition tampered_signature_fails_verification :: "ed25519_lib \<Rightarrow> (interop_token \<Rightarrow> bytes) \<Rightarrow>
    (bytes \<Rightarrow> string + interop_token) \<Rightarrow> (cbor \<Rightarrow> bytes) \<Rightarrow> (bytes \<Rightarrow> string + cbor) \<Rightarrow> bool" where
  "tampered_signature_fails_verification L tw tr cw cr \<longleftrightarrow>
    (let (keyring, p, t, sg0) = signed_credential L cw 7;
       sg = sg0\<lparr>sig_bytes := tampered (sig_bytes sg0)\<rparr> in
     (case encode_credential tw cw p test_audience t sg of Inl e \<Rightarrow> False
      | Inr bs \<Rightarrow> (case decode_credential tr cr bs of Inl e \<Rightarrow> False
        | Inr (p2, _, t2, sg2) \<Rightarrow> isl (verify_credential L cw keyring p2 t2 sg2))))"

definition real_biscuit_round_trips_and_credential_still_verifies :: "ed25519_lib \<Rightarrow>
    ('b, 't, 'k, 'p, 'a) biscuit_lib \<Rightarrow> ('k \<Rightarrow> 'p) \<Rightarrow> 'k \<Rightarrow> (interop_token \<Rightarrow> bytes) \<Rightarrow>
    (bytes \<Rightarrow> string + interop_token) \<Rightarrow> (cbor \<Rightarrow> bytes) \<Rightarrow> (bytes \<Rightarrow> string + cbor) \<Rightarrow> bool" where
  "real_biscuit_round_trips_and_credential_still_verifies L B pub root tw tr cw cr \<longleftrightarrow>
    (let (keyring, p, t, sg) = signed_credential L cw 9 in
     case encode_credential tw cw p test_audience t sg of Inl e \<Rightarrow> False
     | Inr cbor \<Rightarrow> (case to_biscuit B cbor root of Inl e \<Rightarrow> False
       | Inr biscuit_bytes \<Rightarrow> (case from_biscuit B biscuit_bytes (pub root) of Inl e \<Rightarrow> False
         | Inr recovered \<Rightarrow> recovered = cbor \<and>
             (case decode_credential tr cr recovered of Inl e \<Rightarrow> False
              | Inr (p2, _, t2, sg2) \<Rightarrow> p2 = p \<and> t2 = t \<and> sg2 = sg \<and>
                  verify_credential L cw keyring p2 t2 sg2 = Inr ()))))"

lemma credential_decodes:
  assumes "token_codec tw tr" "cbor_codec cw cr limit" "1 \<le> limit" "length pk = 32"
  shows "\<exists>bs. encode_credential tw cw (Atom_p (PrincipalId pk)) audience (Var 0) sg = Inr bs \<and>
    decode_credential tr cr bs = Inr (Atom_p (PrincipalId pk), audience, Var 0, sg)"
  using assms(1,3,4) decode_encode [OF assms(2), of "Var 0"]
  by (simp add: Let_def encode_credential_def decode_credential_def token_codec_def u32_int_def)

lemma credential_verifies:
  assumes "ed25519_ok L"
  shows "case signed_credential L cw b of (keyring, p, t, sg) \<Rightarrow> verify_credential L cw keyring p t sg = Inr ()"
  using ed25519_sign_verify [OF assms, of "replicate 32 b"]
  by (simp add: signed_credential_def verify_credential_def verify_in_keyring_def ALG_ED25519_def Let_def)

lemma interop_tests:
  assumes "ed25519_ok L" "token_codec tw tr" "cbor_codec cw cr limit" "1 \<le> limit"
  shows "round_trip_preserves_verification L tw tr cw cr"
    "biscuit_carries B pub \<Longrightarrow> real_biscuit_round_trips_and_credential_still_verifies L B pub root tw tr cw cr"
proof -
  have pk: "length (ed25519_public_key L (replicate 32 b)) = 32" for b
    using assms(1) by (simp add: ed25519_ok_def ed25519_public_key_def)
  have dec: "\<exists>keyring p t sg bs. signed_credential L cw b = (keyring, p, t, sg) \<and>
      verify_credential L cw keyring p t sg = Inr () \<and>
      encode_credential tw cw p test_audience t sg = Inr bs \<and> decode_credential tr cr bs = Inr (p, test_audience, t, sg)" for b
  proof -
    obtain keyring p t sg where c: "signed_credential L cw b = (keyring, p, t, sg)" by (metis prod_cases4)
    then have "p = Atom_p (PrincipalId (ed25519_public_key L (replicate 32 b)))" "t = Var 0"
      by (auto simp: signed_credential_def Let_def)
    with c credential_verifies [OF assms(1), of cw b] credential_decodes [OF assms(2-4) pk, of b test_audience sg]
    show ?thesis by auto
  qed
  from dec [of 7] show "round_trip_preserves_verification L tw tr cw cr"
    by (auto simp: round_trip_preserves_verification_def)
  show "real_biscuit_round_trips_and_credential_still_verifies L B pub root tw tr cw cr" if carries: "biscuit_carries B pub"
  proof -
    from dec [of 9] obtain keyring p t sg bs where d: "signed_credential L cw 9 = (keyring, p, t, sg)"
      "verify_credential L cw keyring p t sg = Inr ()" "encode_credential tw cw p test_audience t sg = Inr bs"
      "decode_credential tr cr bs = Inr (p, test_audience, t, sg)" by blast
    moreover obtain c where "to_biscuit B bs root = Inr c" "from_biscuit B c (pub root) = Inr bs"
      using biscuit_roundtrip [OF carries] by blast
    ultimately show ?thesis by (simp add: real_biscuit_round_trips_and_credential_still_verifies_def)
  qed
qed

lemma tampered_test:
  assumes "ed25519_ok L" "token_codec tw tr" "cbor_codec cw cr limit" "1 \<le> limit"
    "\<not> dalek_verify L (ed25519_public_key L (replicate 32 7)) (canonical_bytes cw (Var 0))
       (tampered (ed25519_sign L (replicate 32 7) (canonical_bytes cw (Var 0))))"
  shows "tampered_signature_fails_verification L tw tr cw cr"
proof -
  have pk: "length (ed25519_public_key L (replicate 32 7)) = 32"
    using assms(1) by (simp add: ed25519_ok_def ed25519_public_key_def)
  have bad: "ed25519_verify L (ed25519_public_key L (replicate 32 7)) (canonical_bytes cw (Var 0))
       (tampered (ed25519_sign L (replicate 32 7) (canonical_bytes cw (Var 0)))) \<noteq> Inr ()"
    using assms(5) by (simp add: ed25519_verify_ok)
  show ?thesis
    using credential_decodes [OF assms(2-4) pk, of test_audience
        "\<lparr>sig_alg = 0, sig_bytes = tampered (ed25519_sign L (replicate 32 7) (canonical_bytes cw (Var 0)))\<rparr>"] bad
    by (auto simp: tampered_signature_fails_verification_def signed_credential_def Let_def verify_credential_def
        verify_in_keyring_def ALG_ED25519_def refused_unit split: sum.splits)
qed

section \<open>Witnesses of a capability (\<open>runtime.rs\<close>, \<open>dlc-d/src/lib.rs\<close>)\<close>

text \<open>The two tools that the tests of the gated mint declare.\<close>

definition mint_crate :: crate where
  "mint_crate = \<lparr>tool_names = [[''SendEmailTool''] \<mapsto> ascii ''SendEmail'', [''DeleteAllTool''] \<mapsto> ascii ''DeleteAll''],
     decls = [], flows = []\<rparr>"

definition gated_mint_succeeds_on_valid_credential :: "ed25519_lib \<Rightarrow> bool" where
  "gated_mint_succeeds_on_valid_credential L \<longleftrightarrow> (let (kr, p, sg) = signed_cap L ''SendEmail'' in
     case cap_admit mint_crate L [''SendEmailTool''] [''Ops''] kr p sg of None \<Rightarrow> False | Some r \<Rightarrow> \<not> isl r)"

definition gated_mint_rejects_wrong_tool_credential :: "ed25519_lib \<Rightarrow> bool" where
  "gated_mint_rejects_wrong_tool_credential L \<longleftrightarrow> (let (kr, p, sg) = signed_cap L ''SendEmail'' in
     cap_admit mint_crate L [''DeleteAllTool''] [''Ops''] kr p sg = Some (Inl Unauthorized))"

definition gated_mint_rejects_unknown_issuer :: "ed25519_lib \<Rightarrow> bool" where
  "gated_mint_rejects_unknown_issuer L \<longleftrightarrow> (let (_, p, sg) = signed_cap L ''SendEmail'' in
     cap_admit mint_crate L [''SendEmailTool''] [''Ops''] \<lparr>entries = []\<rparr> p sg = Some (Inl Unauthorized))"

definition tampered_signature_is_rejected :: "ed25519_lib \<Rightarrow> bool" where
  "tampered_signature_is_rejected L \<longleftrightarrow> (let (kr, p, sg) = signed_cap L ''SendEmail'' in
     admit L kr p (ascii ''SendEmail'') (sg\<lparr>sig_bytes := tampered (sig_bytes sg)\<rparr>) =
       Inl Unauthorized)"

text \<open>\<open>Public\<close>, \<open>Secret\<close> and the one edge between them.\<close>

definition labels_crate :: crate where
  "labels_crate = \<lparr>tool_names = Map.empty, decls = [], flows = [([''Public''], [''Secret''])]\<rparr>"

definition reflexive_and_declared_flows_typecheck :: bool where
  "reflexive_and_declared_flows_typecheck \<longleftrightarrow>
     flows_into labels_crate [''Public''] [''Public''] \<and> flows_into labels_crate [''Secret''] [''Secret''] \<and>
     flows_into labels_crate [''Public''] [''Secret'']"

definition budget_tolerance_within_envelope_typechecks :: bool where
  "budget_tolerance_within_envelope_typechecks \<longleftrightarrow>
     assert_tolerates 2 1 \<and> assert_tolerates 1 1 \<and> assert_tolerates 5 0"

lemma mint_tests:
  assumes "ed25519_ok L"
  shows "gated_mint_succeeds_on_valid_credential L" "gated_mint_rejects_unknown_issuer L"
    "refuses L 5 (cap_message (cap_atom (ascii ''SendEmail''))) (cap_message (cap_atom (ascii ''DeleteAll''))) \<Longrightarrow>
      gated_mint_rejects_wrong_tool_credential L"
  using admission_tests(1,2) [OF assms] admission_refusals(1) [of L]
  by (auto simp: gated_mint_succeeds_on_valid_credential_def gated_mint_rejects_unknown_issuer_def
      gated_mint_rejects_wrong_tool_credential_def valid_credential_for_the_right_tool_admits_def
      unknown_issuer_is_rejected_def credential_for_a_different_tool_is_rejected_def cap_admit_def mint_crate_def
      Let_def split: prod.splits)

lemma tampered_mint_test:
  assumes "\<not> dalek_verify L (ed25519_public_key L (seed_of 5)) (cap_message (cap_atom (ascii ''SendEmail'')))
       (tampered (ed25519_sign L (seed_of 5) (cap_message (cap_atom (ascii ''SendEmail'')))))"
  shows "tampered_signature_is_rejected L"
proof -
  have "ed25519_verify L (ed25519_public_key L (seed_of 5)) (cap_message (cap_atom (ascii ''SendEmail'')))
       (tampered (ed25519_sign L (seed_of 5) (cap_message (cap_atom (ascii ''SendEmail''))))) \<noteq> Inr ()"
    using assms by (simp add: ed25519_verify_ok)
  then show ?thesis
    by (auto simp: tampered_signature_is_rejected_def signed_cap_def Let_def admit_def verify_in_keyring_def
        seed_of_def ALG_ED25519_def split: sum.splits)
qed

lemma flow_tests: "reflexive_and_declared_flows_typecheck" "budget_tolerance_within_envelope_typechecks"
  by (simp_all add: reflexive_and_declared_flows_typecheck_def flows_into_def labels_crate_def
      budget_tolerance_within_envelope_typechecks_def assert_tolerates_def)

section \<open>The governed ledger (\<open>dlc-d-ledger/src/lib.rs\<close>)\<close>

definition governed_credit_builds_a_command :: bool where
  "governed_credit_builds_a_command \<longleftrightarrow> (let c = credit 2 in
     cap c \<noteq> None \<and> credit_payload 1 \<noteq> credit_payload 2)"

definition delegated_credit_runs_under_the_narrowed_authority :: bool where
  "delegated_credit_runs_under_the_narrowed_authority \<longleftrightarrow> (let c = teller_credit 1 in cap c \<noteq> None)"

definition runtime_admission_is_tool_bound :: "ed25519_lib \<Rightarrow> bool" where
  "runtime_admission_is_tool_bound L \<longleftrightarrow> (let (kr, p, good) = treasury_credential L Credit_NAME;
       (_, _, wrong_tool) = treasury_credential L Seize_NAME in
     admit_credit L kr p good = Inr () \<and> isl (admit_credit L kr p wrong_tool))"

lemma ledger_tests: "governed_credit_builds_a_command" "delegated_credit_runs_under_the_narrowed_authority"
  by (simp_all add: governed_credit_builds_a_command_def credit_def credit_payload_def
      delegated_credit_runs_under_the_narrowed_authority_def teller_credit_def credit_payload_command_def)
    (simp add: numeral_2_eq_2)

lemma ledger_admission_test:
  assumes "ed25519_ok L" "refuses L 0x7a (cap_message (cap_atom Seize_NAME)) (cap_message (cap_atom Credit_NAME))"
  shows "runtime_admission_is_tool_bound L"
  using treasury_admitted [OF assms(1), of Credit_NAME] refused [OF assms(2)]
  by (auto simp: runtime_admission_is_tool_bound_def admit_credit_def treasury_credential_def Let_def admit_def
      verify_in_keyring_def ALG_ED25519_def seed_of_def cap_message_def split: sum.splits)

section \<open>The equivocation scenario (\<open>authdemo.rs\<close>)\<close>

definition demo_equivocation_diverges_only_under_crash :: "ed25519_lib \<Rightarrow> (cbor \<Rightarrow> bytes) \<Rightarrow> bool" where
  "demo_equivocation_diverges_only_under_crash L cw \<longleftrightarrow>
    (case (crash_roster L 3, byz_roster L 4) of
       (Some r3, Some r4) \<Rightarrow> (case (equivocation L cw r3 [1] [2], equivocation L cw r4 [1, 2] [3]) of
           (Some crash, Some byz) \<Rightarrow>
             eq_diverged crash \<and> length (eq_applied crash) = 2 \<and> \<not> eq_diverged byz \<and>
             length (eq_applied byz) = 2 \<and> list_all (\<lambda>(_, s). s = snd (eq_applied byz ! 0)) (eq_applied byz)
         | _ \<Rightarrow> False)
     | _ \<Rightarrow> False)"

definition demo_commands_are_distinct :: bool where
  "demo_commands_are_distinct \<longleftrightarrow> apply_prefix init [cmd True] \<noteq> apply_prefix init [cmd False]"

lemma trm_neq: "Pair_t t u \<noteq> t"
  using size_neq_size_imp_neq [of "Pair_t t u" t] by simp

lemma demo_commands_test: "demo_commands_are_distinct"
  by (simp add: demo_commands_are_distinct_def apply_prefix_one cmd_applied trm_neq)

lemma equivocation_test:
  assumes "ed25519_ok L" "distinct (keys L 4)"
  shows "demo_equivocation_diverges_only_under_crash L cw"
proof -
  have "keys L 3 = take 3 (keys L 4)" by (simp add: keys_def take_map)
  then have d3: "distinct (keys L 3)" using assms(2) by simp
  from assms(2) d3 have r: "with_quorum (keys L 3) Crash = Some \<lparr>members = keys L 3, rquorum = Crash\<rparr>"
    "with_quorum (keys L 4) Byzantine = Some \<lparr>members = keys L 4, rquorum = Byzantine\<rparr>"
    by (simp_all add: with_quorum_Some)
  from equivocation_eq [OF assms(1) r(1), of "[1]" "[2]" cw] equivocation_eq [OF assms(1) r(2), of "[1, 2]" "[3]" cw] r
  show ?thesis
    by (simp add: demo_equivocation_diverges_only_under_crash_def crash_roster_def roster_new_def byz_roster_def
        roster_new_byzantine_def roster_is_quorum_def quorum_reached_def roster_len_def Let_def)
qed

section \<open>The parser of envelopes (\<open>dlc-d-macro/src/envelope.rs\<close>)\<close>

text \<open>
  The tokens of the tests' strings, with \<open>pp\<close> and \<open>pl\<close> those of a path and of a literal.  \<open>Joint\<close>
  spacing, true of the two characters of an arrow only, is the flag of a \<open>Punct\<close>.
\<close>

abbreviation sign :: "char \<Rightarrow> 'l token" where
  "sign c \<equiv> Punct c False"

definition full_tokens :: "(path \<Rightarrow> 'l token list) \<Rightarrow> (nat \<Rightarrow> 'l) \<Rightarrow> 'l token list" where
  "full_tokens pp pl =
     [Id ''cap'', sign CHR ''='', Id ''Invoke'', sign CHR ''<''] @ pp [''FileWrite''] @ [sign CHR ''>'', sign CHR ''@''] @
     pp [''admin''] @ [sign CHR '',''] @
     [Id ''flow'', sign CHR ''=''] @ pp [''secret''] @ [Punct CHR ''<'' True, sign CHR ''=''] @ pp [''public''] @
     [sign CHR '',''] @
     [Id ''budget'', sign CHR ''='', Id ''Faults'', sign CHR ''<'', Lit (pl 1), sign CHR ''>'', sign CHR '',''] @
     [Id ''delegate'', sign CHR ''='', Id ''attenuate_only'']"

definition parses_full_envelope :: "'l syn_lib \<Rightarrow> (path \<Rightarrow> 'l token list) \<Rightarrow> (nat \<Rightarrow> 'l) \<Rightarrow> bool" where
  "parses_full_envelope S pp pl \<longleftrightarrow> (case parse_envelope S (full_tokens pp pl) of
     Inl e \<Rightarrow> False
   | Inr env \<Rightarrow>
       (case env_cap env of None \<Rightarrow> False | Some (tool, iss) \<Rightarrow> last tool = ''FileWrite'' \<and> last iss = ''admin'') \<and>
       (case env_flow env of None \<Rightarrow> False | Some (src, snk) \<Rightarrow> last src = ''secret'' \<and> last snk = ''public'') \<and>
       env_budget env = Some 1 \<and> env_delegate env \<noteq> None)"

definition bare_envelope_is_empty :: "'l syn_lib \<Rightarrow> bool" where
  "bare_envelope_is_empty S \<longleftrightarrow> (case parse_envelope S [] of
     Inl e \<Rightarrow> False
   | Inr env \<Rightarrow> env_cap env = None \<and> env_flow env = None \<and> env_budget env = None)"

definition rejects_unknown_axis :: "'l syn_lib \<Rightarrow> (nat \<Rightarrow> 'l) \<Rightarrow> bool" where
  "rejects_unknown_axis S pl \<longleftrightarrow> isl (parse_envelope S [Id ''nonsense'', sign CHR ''='', Lit (pl 3)])"

definition rejects_malformed_budget :: "'l syn_lib \<Rightarrow> bool" where
  "rejects_malformed_budget S \<longleftrightarrow> isl (parse_envelope S [Id ''budget'', sign CHR ''='', Id ''NotAFault''])"

definition rejects_malformed_cap :: "'l syn_lib \<Rightarrow> (path \<Rightarrow> 'l token list) \<Rightarrow> bool" where
  "rejects_malformed_cap S pp \<longleftrightarrow> isl (parse_envelope S
     ([Id ''cap'', sign CHR ''='', Id ''Invoke'', sign CHR ''<''] @ pp [''Tool''] @ [sign CHR ''>'']))"

definition accepts_namespaced_paths :: "'l syn_lib \<Rightarrow> (path \<Rightarrow> 'l token list) \<Rightarrow> bool" where
  "accepts_namespaced_paths S pp \<longleftrightarrow> (case parse_envelope S
       ([Id ''cap'', sign CHR ''='', Id ''Invoke'', sign CHR ''<''] @ pp [''tools'', ''Send''] @
        [sign CHR ''>'', sign CHR ''@''] @ pp [''auth'', ''Ops''] @ [sign CHR '',''] @
        [Id ''flow'', sign CHR ''=''] @ pp [''labels'', ''Lo''] @ [Punct CHR ''<'' True, sign CHR ''=''] @
        pp [''labels'', ''Hi'']) of
     Inl e \<Rightarrow> False
   | Inr env \<Rightarrow>
       (case env_cap env of None \<Rightarrow> False | Some (tool, iss) \<Rightarrow> last tool = ''Send'' \<and> last iss = ''Ops'') \<and>
       (case env_flow env of None \<Rightarrow> False | Some (src, snk) \<Rightarrow> last snk = ''Hi''))"

lemma parse_of_axes:
  assumes "syn_reads S pp pl" "list_all axis_ok as" "distinct (map axis_name as)"
  shows "parse_envelope S (print_axes pp pl as) = Inr (fold set_axis as env_default)"
  using parse_print_axes [OF assms(1,2) order.refl, of env_default] assms(3)
  by (simp add: parse_envelope_def env_default_no_axis)

lemma envelope_parser_tests:
  assumes "syn_reads S pp pl"
  shows "parses_full_envelope S pp pl" "accepts_namespaced_paths S pp" "rejects_malformed_cap S pp"
proof -
  have "full_tokens pp pl = print_axes pp pl [CapAxis [''FileWrite''] [''admin''],
      FlowAxis [''secret''] [''public''], BudgetAxis 1, DelegateAxis]"
    by (simp add: full_tokens_def)
  then show "parses_full_envelope S pp pl"
    using parse_of_axes [OF assms, of "[CapAxis [''FileWrite''] [''admin''],
      FlowAxis [''secret''] [''public''], BudgetAxis 1, DelegateAxis]"]
    by (simp add: parses_full_envelope_def axis_ok_def path_simps env_default_def)
  show "accepts_namespaced_paths S pp"
    using parse_of_axes [OF assms, of "[CapAxis [''tools'', ''Send''] [''auth'', ''Ops''],
      FlowAxis [''labels'', ''Lo''] [''labels'', ''Hi'']]"]
    by (simp add: accepts_namespaced_paths_def axis_ok_def path_simps env_default_def)
  show "rejects_malformed_cap S pp"
    using read_syn(1) [OF assms, of "[''Tool'']" "[sign CHR ''>'']"]
    by (simp add: path_simps rejects_malformed_cap_def parse_envelope_def parse_axis_def cap_axis_def)
qed

lemma envelope_refusal_tests:
  "bare_envelope_is_empty S" "rejects_unknown_axis S pl" "rejects_malformed_budget S"
  by (simp_all add: bare_envelope_is_empty_def rejects_unknown_axis_def rejects_malformed_budget_def
      parse_envelope_def parse_axis_def budget_axis_def env_default_def)

end
