(* ===== verification/Spec2Isabelle.thy ===== *)
theory Spec2Isabelle
  imports Rules Normal Graded Export Interop Envelope Admission Net Cli Authority Demo Broadcast Run Outcome Auth_Run Run_Broadcast Fuzz Bench Node_Main Ledger_Main Ledger_Crate
    Bridge_Tests
begin

text \<open>
  A verification library for the delegation logic calculus (DLC) and its distributed
  runtime (DLC-D).  It models the Rust crates under \<open>src/crates\<close> as HOL functions and proves
  what makes them correct, and where they are not, what goes wrong.

  The program.  A \<^emph>\<open>token\<close> is a proof term of a logic of \<open>says\<close> and delegation.  \<open>dlc-core\<close> holds
  the syntax, the proof checker \<open>infer\<close>, reduction, and a replicated state machine whose
  commands are terms.  \<open>dlc-protocol\<close> writes terms as CBOR and wraps tokens in COSE; \<open>dlc-crypto\<close>
  is Ed25519 and SHA-256; \<open>dlc-verifier\<close> decodes a token, checks its type against a claim and
  checks every signature in it.  \<open>dlc-d-node\<close> replicates the state machine, once against crashes
  and once against Byzantine members, on the quorum predicates of \<open>dlc-d-rsm\<close>.  \<open>dlc-d\<close> and
  \<open>dlc-d-macro\<close> gate tools by declarations at compile time and by credentials at run time;
  \<open>dlc-d-ledger\<close> uses both.  \<open>dlc-interop\<close> carries credentials to other formats, and \<open>dlc-cli\<close>
  and \<open>dlc-verifier-wasm\<close> are its front ends.
\<close>

text \<open>
  Theories and sources, bottom up.

  \<^item> \<open>Prelude\<close>: \<open>and_then\<close> (the operator \<open>?\<close>), list access, positions, the shared simplification
    and elimination rules.
  \<^item> \<open>Syntax\<close> (\<open>principal.rs\<close>, \<open>ifc.rs\<close>, \<open>time.rs\<close>, \<open>syntax.rs\<close>, \<open>obligation.rs\<close>, \<open>judgment.rs\<close>): one
    constructor per Rust variant, contexts, well-formedness of 32-byte identifiers.
  \<^item> \<open>Subst\<close> (\<open>subst.rs\<close>), \<open>Decide\<close> and \<open>Typing\<close> (\<open>decide.rs\<close>), \<open>Reduce\<close> (\<open>reduce.rs\<close>): shifting on
    32-bit indices, the checker arm by arm, weakening and substitution, what a closed proof
    contains, subject reduction, progress, and the relation that \<open>step\<close> decides.
  \<^item> \<open>Rules\<close>: the documented rules (\<open>spec/typing-rules.md\<close>, \<open>RuleName\<close>) as a derivation relation of their
    own, the fragment on which the verifier decides it and the departures outside, and what accepted
    claims follow from.  \<open>Normal\<close>: evaluation of typed terms ends,
    by reducibility, and the term with \<open>LetTensor\<close> whose evaluation does not.
  \<^item> \<open>Graded\<close> (\<open>graded.rs\<close>, \<open>obligation.rs\<close>, \<open>dlc-grade-quantale\<close>): saturating budgets; the traits
    are locales, interpreted on the crate's types.
  \<^item> \<open>Rsm\<close> (\<open>rsm.rs\<close>), \<open>Consensus\<close> (\<open>consensus.rs\<close>): commands, logs, replicas and the world step; the
    vote counts at \<open>u32\<close>, with a locale of quorum systems interpreted on both thresholds.
  \<^item> \<open>Cbor\<close>, \<open>Cbor_Instance\<close>, \<open>Wire\<close> (\<open>wire.rs\<close>): the CBOR values, a concrete codec that shows the
    hypotheses can hold, and the encoders and decoders of terms, propositions and keyrings.
  \<^item> \<open>Crypto\<close> (\<open>dlc-crypto\<close>), \<open>Verifier\<close> (\<open>dlc-verifier\<close>), \<open>Envelope\<close> (\<open>envelope.rs\<close>), \<open>Export\<close>
    (\<open>export_tamarin.rs\<close>, \<open>export_proverif.rs\<close>), \<open>Interop\<close> (\<open>dlc-interop\<close>).
  \<^item> \<open>Proto\<close> (\<open>proto.rs\<close>), \<open>View\<close> and \<open>Node\<close> (\<open>dlc-d-node/src/lib.rs\<close>), \<open>Auth\<close> (\<open>auth.rs\<close>), \<open>Codec\<close>
    (\<open>codec.rs\<close>), \<open>Net\<close> (\<open>net.rs\<close>, \<open>netauth.rs\<close>), \<open>Demo\<close> (\<open>demo.rs\<close>, \<open>authdemo.rs\<close>): signed messages and
    certificates, the commit-and-drain loop, the two replicas with every handler, frames,
    drivers and dispatch, and the equivocation scenario for rosters of any size.
  \<^item> \<open>Cluster\<close>: what the two event loops share, as a locale: tasks, channels, a leader that feeds a
    workload, and the four facts about a run (it is short, no task panics, it keeps to the
    workload, it settles).  \<open>Run\<close> (\<open>run_cluster\<close>) and \<open>Auth_Run\<close> (\<open>run_auth_cluster\<close>, its messages being
    bytes) interpret it; every interleaving is considered.  \<open>Outcome\<close>: what the latter returns.
  \<^item> \<open>Broadcast\<close>: atomic broadcast as an abstract machine, which the crash-fault protocol refines over a
    lossy network; \<open>Run_Broadcast\<close>: both event loops refine it.
  \<^item> \<open>Admission\<close> (\<open>dlc-d/src/runtime.rs\<close>, \<open>admission.rs\<close>, the obligation module, \<open>dlc-d-ledger\<close>),
    \<open>Authority\<close> (\<open>dlc-d/src/lib.rs\<close>, \<open>dlc-d-macro\<close>): credentials for tools; declarations of grants
    and delegations, the envelope's grammar, its lowering and its certificate.
    \<open>Ledger_Crate\<close>: the ledger's own declarations and envelopes.
  \<^item> \<open>Cli\<close> (\<open>dlc-cli/src/main.rs\<close>, \<open>dlc-verifier-wasm/src/lib.rs\<close>): the subcommands from arguments to
    output and exit code, and the WebAssembly entry point.
  \<^item> \<open>Render\<close>, \<open>Node_Main\<close> (\<open>dlc-d-node/src/main.rs\<close>), \<open>Ledger_Main\<close> (\<open>dlc-d-ledger/src/main.rs\<close>), \<open>Bench\<close>
    (\<open>dlc-bench\<close>), \<open>Fuzz\<close> (\<open>dlc-fuzz\<close>): the binaries with what they print, the benchmark with its
    median, the fuzz target with its generators.
  \<^item> \<open>Core_Tests\<close>, \<open>Wire_Tests\<close>, \<open>Node_Tests\<close>, \<open>Auth_Tests\<close>, \<open>Bridge_Tests\<close>: the unit tests inside the files
    above, each a proposition named like the Rust function, and the lemmas that all of them are true
    of the model.  \<open>Auth_Tests\<close> has the in-memory driver of \<open>auth.rs\<close> and what its cluster ends with for
    every command.
\<close>

text \<open>
  How code becomes definitions.  A struct is a record and an enum a datatype; \<open>u8\<close>, \<open>u32\<close> and \<open>u64\<close>
  are words of that width, and a cast is the word operation it compiles to.  Sums of \<open>u32\<close> wrap
  as in release builds, where \<open>debug_assert!\<close> is compiled out.  A \<open>Result\<close> is a sum with the
  error on the left; a panic is \<open>None\<close>, or an error value of its own where a function can fail
  too.  \<open>&mut self\<close> is a state that is returned; the messages that a handler returns are a list.
  A string is the list of its UTF-8 bytes.

  Loops and bounds. \<open>infer\<close>, \<open>step\<close> and the encoders recurse on the term.
  \<open>reduce_with_fuel\<close> has the fuel of the code, \<open>APPLY_FUEL\<close> being 1024;
  typed terms need finitely many steps, by \<open>Normal\<close>, but nothing is assumed to finish
  within the fuel, and the store of a replica is by definition what that much fuel gives.
  \<open>drain\<close> is a loop that may not end, with a theorem that it does.
  \<open>parse_axes\<close> has the number of tokens as fuel, with a theorem that this is enough.
  Decoding is bounded by the nesting limit of the CBOR reader: round trips hold for terms within it.
  Subject reduction asks that the indices it computes fit in 31 bits, since shifting truncates
  beyond; the protocol asks that three times the roster fits in 32 bits.

  Parameters and hypotheses.  Code outside the repository is an argument of the definitions
  that use it: the Ed25519 library (\<open>ed25519_ok\<close>: what is signed verifies), SHA-256, the CBOR
  writer and reader (\<open>cbor_codec\<close>: reading what was written gives the value, within the limit),
  \<open>coset\<close>, \<open>serde\<close> and \<open>biscuit-auth\<close>, the parsers of \<open>syn\<close> (\<open>syn_reads\<close>: paths of
  identifiers and numbers are read back; \<open>syn_consumes\<close>) and the source of
  bytes of \<open>arbitrary\<close> (\<open>source_ok\<close>).  The binaries take the outcome of a cluster as an argument, a
  function of its configuration, and the properties ask that it be one of \<open>Outcome\<close>.  Nothing
  says that signatures cannot be forged: safety theorems point at verifying signatures inside the
  token, the certificate or the votes that a replica holds.  Each hypothesis has a concrete instance, and each theorem under a
  hypothesis a witness that applies it there.
\<close>

text \<open>
  What is proved.  Verifier: acceptance is exactly decoding, inference and signatures; an
  accepted claim of \<open>p says \<phi>\<close> rests on a signature of every party of \<open>p\<close>, unless the token uses
  \<open>Attenuate\<close>, whose unchecked premise lets any key prove any claim.  Calculus: subject
  reduction and progress outside the forms \<open>LetTensor\<close> and \<open>SaysBind\<close>, with the counterexamples
  for these, termination there, with a closed typed term that diverges otherwise, the agreement of the
  verifier with the documented rules on the forms whose premises it can check, semantic consequence of
  the assumptions outside \<open>Attenuate\<close>, and \<open>step\<close> as the reduction relation.
  Bytes: round trips of terms, messages, envelopes and of the macro's grammar, injectivity and
  separation of everything that is signed, and that every truncation of a token makes the decoder panic.
  Replication: convergence and progress of the state machine; agreement, validity and the
  refinement of atomic broadcast for the crash-fault cluster, over a network that loses and
  reorders; that the runs of both clusters end, and with a live quorum and leader end with the
  whole workload done on every live replica, and without a quorum commit nothing, each step
  being a run of atomic broadcast; for the authenticated one under attack, that
  where logs diverge the votes that the two replicas hold convict a member, as the votes inside two
  conflicting certificates do, that certificates verify everywhere, when an equivocating
  leader splits a cluster and why a Byzantine roster prevents it, and the two protocol flaws
  found (followers that vote twice, a leader that a commit interrupts and that then commits alone).  Authority: what a
  credential, a grant and a certificate are worth, and the cycle of delegations that creates
  authority from nothing; what the ledger's crate allows and refuses to every crate built on it.
  Command line and binaries: the pipeline from \<open>issue\<close> to \<open>verify\<close>, the meaning of the exit codes,
  what the demonstration prints when its clusters settle, that the benchmark's assertions and the
  fuzz target's hold, and what the fuzz target's generators reach.

  Not modelled.  The timers of tokio: a timeout may cut a run off in any state, and when it does is
  not said.  A task that panics ends its run without a step; under the hypotheses none does.
  The clock of the benchmark and its file.  Spans and texts of compiler diagnostics.
  That two impls of a trait do not overlap, and the
  rest of what \<open>rustc\<close> checks of a crate, is \<open>crate_ok\<close>, which reads the macros' expansions and not
  arbitrary impls written by hand.  Of the unit tests, those that only ask a third-party crate to refuse
  given bytes, those that run the law checkers of \<open>coproduct_algebra\<close>, those that assert that one line
  type-checks, and the directories \<open>tests/\<close>.  A test that expects a signature to be refused is proved
  for every library that refuses that one signature.

  Still open: an abstract machine for the authenticated cluster under attack that names the evidence of
  misbehaviour; a bound on the number of steps of typed terms in place of its mere existence.
\<close>

end
